(* ===== verification/Z80_Prelude.thy ===== *)
theory Z80_Prelude
  imports Main "HOL-Library.Word"
begin

text \<open>
  Shared vocabulary of the development: the machine types of the two targets, the result
  type of code that may leave its buffers or run for ever, memory as byte lists with checked
  accesses, and the little-endian byte order of the Z80.

  Everything that reads or writes C memory goes through the accessors of this theory
  (\<open>rd\<close>, \<open>wr\<close>, \<open>rd_bytes\<close>, \<open>memcpy\<close>, \<open>memset\<close>). An access outside the array, undefined
  behaviour in C, is the value \<open>Inl OutOfBounds\<close>, so that a theorem that an operation
  returns \<open>Inr\<close> is also a memory safety theorem.
\<close>

unbundle bit_operations_syntax

named_theorems res_simps "rewriting of the result monad"
named_theorems buf_simps "rewriting of buffer accesses"
named_theorems wire_simps "rewriting of wire formats"

section \<open>Machine types\<close>

type_synonym u8 = "8 word"
type_synonym u16 = "16 word"
type_synonym u32 = "32 word"
type_synonym bytes = "8 word list"

section \<open>Results\<close>

text \<open>
  \<open>OutOfBounds\<close>: the code touched memory outside the object it points into.
  \<open>OutOfFuel\<close>: the fuel given to a loop that has no bound of its own was used up.
  \<open>Exited\<close>: the program ended itself with \<^verbatim>\<open>exit(1)\<close>.
\<close>

datatype fault = OutOfBounds | OutOfFuel | Exited

type_synonym 'a res = "fault + 'a"

definition rbind :: "'a res \<Rightarrow> ('a \<Rightarrow> 'b res) \<Rightarrow> 'b res" where
  "rbind m f = (case m of Inl e \<Rightarrow> Inl e | Inr x \<Rightarrow> f x)"

lemma rbind_Inl [simp, res_simps]: "rbind (Inl e) f = Inl e"
  by (simp add: rbind_def)

lemma rbind_Inr [simp, res_simps]: "rbind (Inr x) f = f x"
  by (simp add: rbind_def)

lemma rbind_eq_Inr_iff: "rbind m f = Inr y \<longleftrightarrow> (\<exists>x. m = Inr x \<and> f x = Inr y)"
  by (cases m) auto

lemma rbind_InrE:
  assumes "rbind m f = Inr y"
  obtains x where "m = Inr x" and "f x = Inr y"
  using assms by (auto simp: rbind_eq_Inr_iff)

lemma rbind_cong [fundef_cong]:
  "m = m' \<Longrightarrow> (\<And>x. m' = Inr x \<Longrightarrow> f x = g x) \<Longrightarrow> rbind m f = rbind m' g"
  by (cases m') auto

lemma rbind_assoc: "rbind (rbind m f) g = rbind m (\<lambda>x. rbind (f x) g)"
  by (cases m) auto

text \<open>
  \<open>holds_res P m\<close>: \<open>m\<close> never leaves its buffers, and when it returns, \<open>P\<close> holds of the
  result. Running out of fuel is allowed: a safety statement is about every fuel. So is a
  deliberate exit.
\<close>

definition holds_res :: "('a \<Rightarrow> bool) \<Rightarrow> 'a res \<Rightarrow> bool" where
  "holds_res P m = (case m of Inl OutOfBounds \<Rightarrow> False | Inl OutOfFuel \<Rightarrow> True | Inl Exited \<Rightarrow> True | Inr x \<Rightarrow> P x)"

lemma holds_res_simps [simp]:
  "holds_res P (Inr x) = P x"
  "holds_res P (Inl OutOfFuel)"
  "holds_res P (Inl Exited)"
  "\<not> holds_res P (Inl OutOfBounds)"
  by (simp_all add: holds_res_def)

lemma holds_res_rbindI:
  assumes "holds_res Q m" and "\<And>x. Q x \<Longrightarrow> holds_res P (f x)"
  shows "holds_res P (rbind m f)"
  using assms by (cases m; cases "projl m") (auto simp: holds_res_def split: fault.splits)

lemma holds_res_mono:
  "holds_res P m \<Longrightarrow> (\<And>x. P x \<Longrightarrow> Q x) \<Longrightarrow> holds_res Q m"
  by (auto simp: holds_res_def split: sum.splits fault.splits)

lemma holds_res_conj: "holds_res P m \<Longrightarrow> holds_res Q m \<Longrightarrow> holds_res (\<lambda>x. P x \<and> Q x) m"
  by (auto simp: holds_res_def split: sum.splits fault.splits)

lemma holds_res_if:
  "(c \<Longrightarrow> holds_res P a) \<Longrightarrow> (\<not> c \<Longrightarrow> holds_res P b) \<Longrightarrow> holds_res P (if c then a else b)"
  by simp

lemma holds_res_InrD: "holds_res P m \<Longrightarrow> m = Inr x \<Longrightarrow> P x"
  by simp

lemma holds_res_no_oob: "holds_res P m \<Longrightarrow> m \<noteq> Inl OutOfBounds"
  by auto

text \<open>
  \<open>le_res m m'\<close>: \<open>m'\<close> is \<open>m\<close> run with at least as much fuel. It is the order in which every
  fuelled definition is monotone.
\<close>

definition le_res :: "'a res \<Rightarrow> 'a res \<Rightarrow> bool" where
  "le_res m m' \<longleftrightarrow> m = Inl OutOfFuel \<or> m = m'"

lemma le_res_refl [simp, intro]: "le_res m m"
  by (simp add: le_res_def)

lemma le_res_fuel [simp, intro]: "le_res (Inl OutOfFuel) m"
  by (simp add: le_res_def)

lemma le_res_rbind:
  "le_res m m' \<Longrightarrow> (\<And>x. le_res (f x) (g x)) \<Longrightarrow> le_res (rbind m f) (rbind m' g)"
  by (cases m) (fastforce simp: le_res_def)+

lemma le_res_Inr: "le_res m m' \<Longrightarrow> m = Inr x \<Longrightarrow> m' = Inr x"
  by (simp add: le_res_def)

lemma le_res_if: "le_res a a' \<Longrightarrow> le_res b b' \<Longrightarrow> le_res (if c then a else b) (if c then a' else b')"
  by simp

section \<open>Memory\<close>

definition rd :: "bytes \<Rightarrow> nat \<Rightarrow> u8 res" where
  "rd m i = (if i < length m then Inr (m ! i) else Inl OutOfBounds)"

definition wr :: "bytes \<Rightarrow> nat \<Rightarrow> u8 \<Rightarrow> bytes res" where
  "wr m i v = (if i < length m then Inr (m[i := v]) else Inl OutOfBounds)"

definition rd_bytes :: "bytes \<Rightarrow> nat \<Rightarrow> nat \<Rightarrow> bytes res" where
  "rd_bytes m i n = (if i + n \<le> length m then Inr (take n (drop i m)) else Inl OutOfBounds)"

definition memcpy :: "bytes \<Rightarrow> nat \<Rightarrow> bytes \<Rightarrow> bytes res" where
  "memcpy m i bs =
     (if i + length bs \<le> length m then Inr (take i m @ bs @ drop (i + length bs) m)
      else Inl OutOfBounds)"

definition memset :: "bytes \<Rightarrow> nat \<Rightarrow> u8 \<Rightarrow> nat \<Rightarrow> bytes res" where
  "memset m i v n = memcpy m i (replicate n v)"

lemma rd_ok [buf_simps]: "i < length m \<Longrightarrow> rd m i = Inr (m ! i)"
  by (simp add: rd_def)

lemma rd_append [buf_simps]: "i < length xs \<Longrightarrow> rd (xs @ ys) i = Inr (xs ! i)"
  by (simp add: rd_def nth_append)

lemma wr_append [buf_simps]: "i < length xs \<Longrightarrow> wr (xs @ ys) i v = Inr (xs[i := v] @ ys)"
  by (simp add: wr_def list_update_append)

lemma memcpy_append [buf_simps]:
  "i + length bs \<le> length xs \<Longrightarrow>
   memcpy (xs @ ys) i bs = Inr (take i xs @ bs @ drop (i + length bs) xs @ ys)"
  by (simp add: memcpy_def)

lemma memcpy_ok:
  "i + length bs \<le> length m \<Longrightarrow> memcpy m i bs = Inr (take i m @ bs @ drop (i + length bs) m)"
  by (simp add: memcpy_def)

lemma memset_ok:
  "i + n \<le> length m \<Longrightarrow> memset m i v n = Inr (take i m @ replicate n v @ drop (i + n) m)"
  by (simp add: memset_def memcpy_def)

lemma rd_bytes_ok:
  "i + n \<le> length m \<Longrightarrow> rd_bytes m i n = Inr (take n (drop i m))"
  by (simp add: rd_bytes_def)

text \<open>A store is a copy of one byte; with it, every write is a matter of \<open>take\<close> and \<open>drop\<close>.\<close>

lemma wr_memcpy: "wr m i v = memcpy m i [v]"
  by (simp add: wr_def memcpy_def upd_conv_take_nth_drop)

lemma memcpy_length: "memcpy m i bs = Inr m' \<Longrightarrow> length m' = length m"
  by (auto simp: memcpy_def split: if_splits)

lemma holds_memcpy:
  "i + length bs \<le> length m \<Longrightarrow> holds_res (\<lambda>m'. length m' = length m) (memcpy m i bs)"
  by (simp add: memcpy_def)

lemma holds_memset:
  "i + n \<le> length m \<Longrightarrow> holds_res (\<lambda>m'. length m' = length m) (memset m i v n)"
  by (simp add: memset_def holds_memcpy)

lemma holds_wr: "i < length m \<Longrightarrow> holds_res (\<lambda>m'. length m' = length m) (wr m i v)"
  by (simp add: wr_def)

lemma holds_rd: "i < length m \<Longrightarrow> holds_res (\<lambda>_. True) (rd m i)"
  by (simp add: rd_def)

lemma holds_rd_bytes: "i + n \<le> length m \<Longrightarrow> holds_res (\<lambda>bs. length bs = n) (rd_bytes m i n)"
  by (simp add: rd_bytes_def)

section \<open>Little-endian values and network byte order\<close>

definition le16 :: "u16 \<Rightarrow> bytes" where
  "le16 w = [ucast w, ucast (drop_bit 8 w)]"

definition le32 :: "u32 \<Rightarrow> bytes" where
  "le32 w = [ucast w, ucast (drop_bit 8 w), ucast (drop_bit 16 w), ucast (drop_bit 24 w)]"

definition of_le16 :: "u8 \<Rightarrow> u8 \<Rightarrow> u16" where
  "of_le16 a b = ucast a OR push_bit 8 (ucast b)"

definition of_le32 :: "u8 \<Rightarrow> u8 \<Rightarrow> u8 \<Rightarrow> u8 \<Rightarrow> u32" where
  "of_le32 a b c d =
     ucast a OR push_bit 8 (ucast b) OR push_bit 16 (ucast c) OR push_bit 24 (ucast d)"

definition rd_u16 :: "bytes \<Rightarrow> nat \<Rightarrow> u16 res" where
  "rd_u16 m i = rbind (rd m i) (\<lambda>a. rbind (rd m (Suc i)) (\<lambda>b. Inr (of_le16 a b)))"

definition rd_u32 :: "bytes \<Rightarrow> nat \<Rightarrow> u32 res" where
  "rd_u32 m i =
     rbind (rd m i) (\<lambda>a. rbind (rd m (i + 1)) (\<lambda>b.
     rbind (rd m (i + 2)) (\<lambda>c. rbind (rd m (i + 3)) (\<lambda>d. Inr (of_le32 a b c d)))))"

text \<open>
  \<^verbatim>\<open>htons\<close> and \<^verbatim>\<open>htonl\<close> of \<^verbatim>\<open>net/hton.h\<close> on a little-endian host: POSIX host to network
  order, the same byte swaps the test harness of the repository defines.
\<close>

definition htons :: "u16 \<Rightarrow> u16" where
  "htons v = drop_bit 8 v OR push_bit 8 v"

definition htonl :: "u32 \<Rightarrow> u32" where
  "htonl v = (drop_bit 24 v AND 0xff) OR (drop_bit 8 v AND 0xff00) OR
             (push_bit 8 v AND 0xff0000) OR push_bit 24 v"

text \<open>Network (big-endian) encodings, what the wire formats of IP and TCP are written in.\<close>

definition be16 :: "u16 \<Rightarrow> bytes" where
  "be16 w = [ucast (drop_bit 8 w), ucast w]"

definition be32 :: "u32 \<Rightarrow> bytes" where
  "be32 w = [ucast (drop_bit 24 w), ucast (drop_bit 16 w), ucast (drop_bit 8 w), ucast w]"

lemma length_le16 [simp]: "length (le16 w) = 2" by (simp add: le16_def)
lemma length_le32 [simp]: "length (le32 w) = 4" by (simp add: le32_def)
lemma length_be16 [simp]: "length (be16 w) = 2" by (simp add: be16_def)
lemma length_be32 [simp]: "length (be32 w) = 4" by (simp add: be32_def)

lemma le16_htons [wire_simps]: "le16 (htons w) = be16 w"
  by (auto simp: le16_def be16_def htons_def bit_simps intro!: bit_word_eqI)

lemma htonl_masks:
  "(0xff :: u32) = mask 8" "(0xff00 :: u32) = push_bit 8 (mask 8)"
  "(0xff0000 :: u32) = push_bit 16 (mask 8)"
  by (simp_all add: mask_eq_exp_minus_1 push_bit_eq_mult)

lemma le32_htonl [wire_simps]: "le32 (htonl w) = be32 w"
  unfolding htonl_def htonl_masks
  by (auto simp: le32_def be32_def bit_simps intro!: bit_word_eqI)

lemma htons_htons: "htons (htons w) = w"
  by (auto simp: htons_def bit_simps intro!: bit_word_eqI)

lemma of_le16_le16 [simp]: "of_le16 (ucast w) (ucast (drop_bit 8 w)) = w"
  by (auto simp: of_le16_def bit_simps intro!: bit_word_eqI)

lemma of_le32_le32 [simp]:
  "of_le32 (ucast w) (ucast (drop_bit 8 w)) (ucast (drop_bit 16 w)) (ucast (drop_bit 24 w)) = w"
proof (rule bit_word_eqI)
  fix n :: nat
  assume "n < LENGTH(32)"
  then consider "n < 8" | "8 \<le> n" "n < 16" | "16 \<le> n" "n < 24" | "24 \<le> n" "n < 32"
    by fastforce
  then show "bit (of_le32 (ucast w) (ucast (drop_bit 8 w)) (ucast (drop_bit 16 w))
      (ucast (drop_bit 24 w))) n \<longleftrightarrow> bit w n"
    by cases (auto simp: of_le32_def bit_simps)
qed

lemma unat_u8_less: "unat (a :: u8) < 256"
  using unsigned_less [of a, where ?'a = nat] by simp

lemma unat_u16_less: "unat (a :: u16) < 65536"
  using unsigned_less [of a, where ?'a = nat] by simp

lemma unat_of_le16: "unat (of_le16 a b) = unat a + 256 * unat b"
proof -
  have eq: "of_le16 a b = ucast a + push_bit 8 (ucast b)"
    unfolding of_le16_def
    by (rule disjunctive_add [symmetric]) (auto simp: bit_simps dest: bit_imp_le_length)
  have "unat (ucast a :: u16) = unat a" "unat (ucast b :: u16) = unat b"
    by (simp_all add: unsigned_ucast_eq take_bit_nat_eq_self_iff
        less_le_trans [OF unat_u8_less])
  moreover from this have "unat (push_bit 8 (ucast b) :: u16) = 256 * unat b"
    using unat_u8_less [of b] by (simp add: unsigned_push_bit_eq push_bit_nat_def take_bit_nat_def)
  ultimately show ?thesis
    unfolding eq using unat_u8_less [of a] unat_u8_less [of b]
    by (subst unat_add_lem [THEN iffD1]) simp_all
qed

text \<open>A 16-bit size below half the range is the same number as a C int.\<close>

lemma sint_small:
  assumes "unat (w :: u16) < 32768"
  shows "sint w = int (unat w)"
proof -
  have u: "uint w = int (unat w)" by (simp only: uint_nat)
  with assms have "- 32768 \<le> uint w" "uint w < 32768" by linarith+
  with u show ?thesis by (simp add: sint_uint signed_take_bit_int_eq_self)
qed

end
