(* ===== verification/Slip.thy ===== *)
theory Slip
  imports Z80_Prelude
begin

text \<open>
  The serial line layer, \<^verbatim>\<open>slip.c\<close>: packets framed by END bytes, with END, ESC and (the
  \<^verbatim>\<open>SLIP_ESC_00\<close> build, which is the one the Makefile makes for both ends) the zero byte
  escaped.

  The rs232 driver of z88dk and the R register of the CPU are not part of the repository.
  They are the fields of the record \<open>platform\<close>, over a device state of any type: every
  operation takes the platform as its first argument and threads the device state. A call
  \<^verbatim>\<open>rs232_get(&c)\<close> is a function of the value that \<open>c\<close> held before, since on a timeout the
  driver stores nothing and the code goes on with what it had.
\<close>

section \<open>The platform\<close>

record 'd platform =
  rs232_init :: "'d \<Rightarrow> bool \<times> 'd"
  rs232_params :: "int \<Rightarrow> int \<Rightarrow> 'd \<Rightarrow> bool \<times> 'd"
  rs232_put :: "u8 \<Rightarrow> 'd \<Rightarrow> 'd"
  rs232_get :: "u8 \<Rightarrow> 'd \<Rightarrow> u8 \<times> 'd"
  r_register :: "'d \<Rightarrow> u8 \<times> 'd"
  EAGAIN :: int

text \<open>The special characters.\<close>

abbreviation END :: u8 where "END \<equiv> 0xC0"
abbreviation ESC :: u8 where "ESC \<equiv> 0xDB"
abbreviation ESC_END :: u8 where "ESC_END \<equiv> 0xDC"
abbreviation ESC_ESC :: u8 where "ESC_ESC \<equiv> 0xDD"
abbreviation ZER :: u8 where "ZER \<equiv> 0x00"
abbreviation ESC_ZER :: u8 where "ESC_ZER \<equiv> 0xDE"

section \<open>The operations\<close>

text \<open>\<^verbatim>\<open>slip_init\<close>: the flag says whether the driver returned \<^verbatim>\<open>RS_ERR_OK\<close>.\<close>

definition slip_init :: "'d platform \<Rightarrow> int \<Rightarrow> int \<Rightarrow> 'd \<Rightarrow> int \<times> 'd" where
  "slip_init pf baud_rate parity d =
     (let (ok, d) = rs232_init pf d in
      if \<not> ok then (- 1, d)
      else let (ok, d) = rs232_params pf baud_rate parity d in
        if \<not> ok then (- 1, d) else (0, d))"

text \<open>The \<^verbatim>\<open>switch\<close> of \<^verbatim>\<open>send_packet\<close>: one data byte, escaped when it has to be.\<close>

definition put_stuffed :: "'d platform \<Rightarrow> u8 \<Rightarrow> 'd \<Rightarrow> 'd" where
  "put_stuffed pf b d =
     (if b = END then rs232_put pf ESC_END (rs232_put pf ESC d)
      else if b = ESC then rs232_put pf ESC_ESC (rs232_put pf ESC d)
      else if b = ZER then rs232_put pf ESC_ZER (rs232_put pf ESC d)
      else rs232_put pf b d)"

text \<open>The loop \<^verbatim>\<open>while (len--)\<close>. The list is the memory from the pointer on.\<close>

fun send_loop :: "'d platform \<Rightarrow> bytes \<Rightarrow> nat \<Rightarrow> 'd \<Rightarrow> 'd res" where
  "send_loop pf p 0 d = Inr d"
| "send_loop pf [] (Suc len) d = Inl OutOfBounds"
| "send_loop pf (b # p) (Suc len) d = send_loop pf p len (put_stuffed pf b d)"

definition send_packet :: "'d platform \<Rightarrow> bytes \<Rightarrow> nat \<Rightarrow> 'd \<Rightarrow> 'd res" where
  "send_packet pf p len d =
     rbind (send_loop pf p len (rs232_put pf END d)) (\<lambda>d. Inr (rs232_put pf END d))"

text \<open>
  The first loop of \<^verbatim>\<open>recv_packet\<close>, \<^verbatim>\<open>while (--to)\<close>: \<open>n\<close> is what \<open>to\<close> counts down from, and
  the flag says whether the loop was left by its \<^verbatim>\<open>break\<close>.
\<close>

fun wait_end :: "'d platform \<Rightarrow> nat \<Rightarrow> u8 \<Rightarrow> 'd \<Rightarrow> bool \<times> u8 \<times> 'd" where
  "wait_end pf 0 c d = (False, c, d)"
| "wait_end pf (Suc n) c d =
     (let (c, d) = rs232_get pf c d in
      if c = END then (True, c, d) else wait_end pf n c d)"

text \<open>\<^verbatim>\<open>if (received < len) p[received++] = v\<close>\<close>

definition store_byte :: "bytes \<Rightarrow> nat \<Rightarrow> int \<Rightarrow> u8 \<Rightarrow> (bytes \<times> nat) res" where
  "store_byte p received len v =
     (if int received < len then rbind (wr p received v) (\<lambda>p. Inr (p, Suc received))
      else Inr (p, received))"

text \<open>
  The second loop, \<^verbatim>\<open>while (1)\<close>, which only the END of a non-empty frame ends: one unit of
  fuel for each turn.
\<close>

fun recv_loop :: "'d platform \<Rightarrow> nat \<Rightarrow> int \<Rightarrow> bytes \<Rightarrow> nat \<Rightarrow> u8 \<Rightarrow> 'd \<Rightarrow> (int \<times> bytes \<times> 'd) res" where
  "recv_loop pf 0 len p received c d = Inl OutOfFuel"
| "recv_loop pf (Suc fuel) len p received c d =
     (let (c, d) = rs232_get pf c d in
      if c = END then
        (if received \<noteq> 0 then Inr (int received, p, d) else recv_loop pf fuel len p received c d)
      else if c = ESC then
        (let (c, d) = rs232_get pf c d in
         if c = ESC_ZER then
           rbind (store_byte p received len ZER) (\<lambda>(p, received). recv_loop pf fuel len p received c d)
         else if c = ESC_END then
           rbind (store_byte p received len END) (\<lambda>(p, received). recv_loop pf fuel len p received c d)
         else if c = ESC_ESC then
           rbind (store_byte p received len ESC) (\<lambda>(p, received). recv_loop pf fuel len p received c d)
         else recv_loop pf fuel len p received c d)
      else
        rbind (store_byte p received len c) (\<lambda>(p, received). recv_loop pf fuel len p received c d))"

text \<open>
  \<^verbatim>\<open>recv_packet\<close>: \<open>to\<close> is a 16-bit int that \<^verbatim>\<open>--to\<close> wraps, so that \<open>to\<close> = 1 reads nothing and
  \<open>to\<close> = 0 waits for 65535 reads.
\<close>

definition recv_packet :: "'d platform \<Rightarrow> nat \<Rightarrow> bytes \<Rightarrow> int \<Rightarrow> u16 \<Rightarrow> 'd \<Rightarrow> (int \<times> bytes \<times> 'd) res" where
  "recv_packet pf fuel p len to d =
     (let (found, c, d) = wait_end pf (unat (to - 1)) 0 d in
      if \<not> found then Inr (- EAGAIN pf, p, d)
      else recv_loop pf fuel len p 0 c d)"

section \<open>The wire format\<close>

text \<open>
  The reference encoding: how one byte is stuffed, and a frame. Both ends of the line have
  an encoder of their own; what a decoder relies on is the interface \<open>byte_stuffing\<close>.
\<close>

definition esc_byte :: "u8 \<Rightarrow> bytes" where
  "esc_byte b =
     (if b = END then [ESC, ESC_END] else if b = ESC then [ESC, ESC_ESC]
      else if b = ZER then [ESC, ESC_ZER] else [b])"

definition slip_frame :: "(u8 \<Rightarrow> bytes) \<Rightarrow> bytes \<Rightarrow> bytes" where
  "slip_frame stuff p = END # concat (map stuff p) @ [END]"

text \<open>The decoder of a stuffed payload, by which encodings are compared.\<close>

fun unstuff :: "bytes \<Rightarrow> bytes" where
  "unstuff [] = []"
| "unstuff [c] = (if c = ESC then [] else [c])"
| "unstuff (c # e # cs) =
     (if c = ESC then
        (if e = ESC_END then END # unstuff cs else if e = ESC_ESC then ESC # unstuff cs
         else if e = ESC_ZER then ZER # unstuff cs else e # unstuff cs)
      else c # unstuff (e # cs))"

lemma unstuff_plain: "c \<noteq> ESC \<Longrightarrow> unstuff (c # cs) = c # unstuff cs"
  by (cases cs) auto

locale byte_stuffing =
  fixes stuff :: "u8 \<Rightarrow> bytes"
  assumes stuff_END: "END \<notin> set (stuff b)"
    and stuff_ZER: "ZER \<notin> set (stuff b)"
    and stuff_nonempty: "1 \<le> length (stuff b)"
    and stuff_length: "length (stuff b) \<le> 2"
    and unstuff_stuff: "unstuff (stuff b @ cs) = b # unstuff cs"
begin

lemma payload_END: "END \<notin> set (concat (map stuff p))"
  using stuff_END by auto

lemma frame_ZER: "ZER \<notin> set (slip_frame stuff p)"
  using stuff_ZER by (auto simp: slip_frame_def)

lemma frame_END_count: "count_list (slip_frame stuff p) END = 2"
  using payload_END by (simp add: slip_frame_def count_list_append count_list_0_iff)

lemma payload_length_ge: "length p \<le> length (concat (map stuff p))"
proof (induction p)
  case (Cons b p)
  then show ?case using stuff_nonempty [of b] by simp
qed simp

lemma payload_length_le: "length (concat (map stuff p)) \<le> 2 * length p"
proof (induction p)
  case (Cons b p)
  then show ?case using stuff_length [of b] by simp
qed simp

lemma frame_length: "length p + 2 \<le> length (slip_frame stuff p) \<and> length (slip_frame stuff p) \<le> 2 * length p + 2"
  using payload_length_ge [of p] payload_length_le [of p] by (simp add: slip_frame_def)

lemma unstuff_payload: "unstuff (concat (map stuff p)) = p"
  by (induction p) (simp_all add: unstuff_stuff)

lemma frame_inj: "slip_frame stuff p = slip_frame stuff q \<Longrightarrow> p = q"
  by (metis unstuff_payload slip_frame_def append1_eq_conv list.inject)

end

interpretation z80: byte_stuffing esc_byte
  by unfold_locales (auto simp: esc_byte_def unstuff_plain)

section \<open>Sending\<close>

text \<open>\<open>puts pf bs d\<close>: the device after the bytes \<open>bs\<close> were written to it, in this order.\<close>

definition puts :: "'d platform \<Rightarrow> bytes \<Rightarrow> 'd \<Rightarrow> 'd" where
  "puts pf bs d = fold (rs232_put pf) bs d"

lemma puts_Nil [simp]: "puts pf [] d = d"
  by (simp add: puts_def)

lemma puts_Cons: "puts pf (b # bs) d = puts pf bs (rs232_put pf b d)"
  by (simp add: puts_def)

lemma puts_append: "puts pf (xs @ ys) d = puts pf ys (puts pf xs d)"
  by (simp add: puts_def)

lemma put_stuffed_puts: "put_stuffed pf b d = puts pf (esc_byte b) d"
  by (simp add: put_stuffed_def esc_byte_def puts_def)

lemma send_loop_puts:
  "len \<le> length p \<Longrightarrow> send_loop pf p len d = Inr (puts pf (concat (map esc_byte (take len p))) d)"
  by (induction pf p len d rule: send_loop.induct) (simp_all add: put_stuffed_puts puts_append)

lemma send_packet_puts:
  "len \<le> length p \<Longrightarrow> send_packet pf p len d = Inr (puts pf (slip_frame esc_byte (take len p)) d)"
  by (simp add: send_packet_def send_loop_puts slip_frame_def puts_Cons puts_append)

lemma send_loop_oob: "length p < len \<Longrightarrow> send_loop pf p len d = Inl OutOfBounds"
  by (induction pf p len d rule: send_loop.induct) simp_all

lemma send_packet_oob: "length p < len \<Longrightarrow> send_packet pf p len d = Inl OutOfBounds"
  by (simp add: send_packet_def send_loop_oob)

section \<open>Receiving\<close>

text \<open>
  \<open>reads pf es d d'\<close>: starting in \<open>d\<close>, the next calls of \<^verbatim>\<open>rs232_get\<close> give the events \<open>es\<close> and
  leave the device in \<open>d'\<close>. \<open>Some b\<close> is a byte that arrived, \<open>None\<close> a timeout, which leaves
  the variable as it was.
\<close>

fun reads :: "'d platform \<Rightarrow> u8 option list \<Rightarrow> 'd \<Rightarrow> 'd \<Rightarrow> bool" where
  "reads pf [] d d' \<longleftrightarrow> d' = d"
| "reads pf (e # es) d d' \<longleftrightarrow>
     (\<exists>d1. (\<forall>c. rs232_get pf c d = (case e of Some b \<Rightarrow> b | None \<Rightarrow> c, d1)) \<and> reads pf es d1 d')"

lemma reads_append: "reads pf (es @ es') d d' \<longleftrightarrow> (\<exists>d1. reads pf es d d1 \<and> reads pf es' d1 d')"
  by (induction es arbitrary: d) auto

lemma reads_ConsE:
  assumes "reads pf (e # es) d d'"
  obtains d1 where "\<And>c. rs232_get pf c d = (case e of Some b \<Rightarrow> b | None \<Rightarrow> c, d1)" "reads pf es d1 d'"
  using assms by auto

lemma wait_end_idle:
  "reads pf es d d' \<Longrightarrow> Some END \<notin> set es \<Longrightarrow> c \<noteq> END \<Longrightarrow>
   \<exists>c'. wait_end pf (length es) c d = (False, c', d')"
proof (induction es arbitrary: c d)
  case (Cons e es)
  then show ?case by (cases e) auto
qed simp

lemma wait_end_found:
  "reads pf (es @ [Some END]) d d' \<Longrightarrow> Some END \<notin> set es \<Longrightarrow> c \<noteq> END \<Longrightarrow> length es < n \<Longrightarrow>
   wait_end pf n c d = (True, END, d')"
proof (induction es arbitrary: c d n)
  case Nil
  then show ?case by (cases n) auto
next
  case (Cons e es)
  then obtain m where "n = Suc m" by (cases n) auto
  with Cons show ?case by (cases e) auto
qed

text \<open>What \<open>store_byte\<close> keeps: the buffer its size, the count its bound.\<close>

lemma store_byte_room:
  "received < L \<Longrightarrow> L \<le> length p \<Longrightarrow> store_byte p received (int L) v = Inr (p[received := v], Suc received)"
  by (simp add: store_byte_def wr_def)

lemma store_byte_full:
  "L \<le> received \<Longrightarrow> store_byte p received (int L) v = Inr (p, received)"
  by (simp add: store_byte_def)

text \<open>
  The buffer after \<open>xs\<close> was appended at position \<open>n\<close> with room up to \<open>L\<close>: what does not fit
  is dropped.
\<close>

definition filled :: "nat \<Rightarrow> bytes \<Rightarrow> nat \<Rightarrow> bytes \<Rightarrow> bytes" where
  "filled L p n xs =
     take n p @ take (L - n) xs @ drop (n + min (L - n) (length xs)) p"

lemma filled_Nil [simp]: "n \<le> length p \<Longrightarrow> filled L p n [] = p"
  by (simp add: filled_def)

lemma filled_store:
  "n < L \<Longrightarrow> L \<le> length p \<Longrightarrow> filled L (p[n := x]) (Suc n) xs = filled L p n (x # xs)"
  by (simp add: filled_def take_Suc_conv_app_nth min_def drop_update_cancel take_Cons' Suc_diff_Suc)

lemma filled_full: "L \<le> n \<Longrightarrow> n \<le> length p \<Longrightarrow> filled L p n xs = p"
  by (simp add: filled_def)

lemma length_filled: "n \<le> L \<Longrightarrow> L \<le> length p \<Longrightarrow> length (filled L p n xs) = length p"
  by (simp add: filled_def min_def)

text \<open>One stuffed byte takes one turn of the loop, whatever the byte is.\<close>

lemma recv_loop_byte:
  assumes "reads pf (map Some (esc_byte x)) d d1"
  shows "\<exists>c1. recv_loop pf (Suc fuel) len p n c d =
    rbind (store_byte p n len x) (\<lambda>(p, n). recv_loop pf fuel len p n c1 d1)"
  using assms by (auto simp: esc_byte_def split: if_splits)

declare recv_loop.simps(2) [simp del]

lemma recv_loop_payload:
  assumes "reads pf (map Some (concat (map esc_byte xs) @ [END])) d d'"
    and "n \<le> L" and "L \<le> length p" and "0 < L" and "n \<noteq> 0 \<or> xs \<noteq> []" and "length xs < fuel"
  shows "recv_loop pf fuel (int L) p n c d = Inr (int (min L (n + length xs)), filled L p n xs, d')"
  using assms
proof (induction xs arbitrary: p n c d fuel)
  case Nil
  then obtain f where "fuel = Suc f" by (cases fuel) auto
  with Nil show ?case by (auto simp: recv_loop.simps(2))
next
  case (Cons x xs)
  then obtain f where f: "fuel = Suc f" "length xs < f" by (cases fuel) auto
  from Cons.prems(1) obtain d1 where d1: "reads pf (map Some (esc_byte x)) d d1"
    and rest: "reads pf (map Some (concat (map esc_byte xs) @ [END])) d1 d'"
    by (auto simp: reads_append)
  from recv_loop_byte [OF d1, of f "int L" p n c] obtain c1 where
    step: "recv_loop pf (Suc f) (int L) p n c d =
      rbind (store_byte p n (int L) x) (\<lambda>(p, n). recv_loop pf f (int L) p n c1 d1)"
    by blast
  show ?case
  proof (cases "n < L")
    case True
    then show ?thesis
      using Cons.IH [OF rest, of "Suc n" "p[n := x]" f c1] Cons.prems f
      by (simp add: step store_byte_room filled_store)
  next
    case False
    then show ?thesis
      unfolding f(1) step using Cons.IH [OF rest, of n p f c1] Cons.prems f(2)
      by (simp add: store_byte_full filled_full)
  qed
qed

text \<open>A frame after line noise without an END, read into a buffer with room for \<open>L\<close> bytes.\<close>

lemma recv_packet_frame:
  assumes "reads pf (noise @ map Some (slip_frame esc_byte xs)) d d'"
    and "Some END \<notin> set noise" and "length noise < unat (to - 1)"
    and "xs \<noteq> []" and "0 < L" and "L \<le> length p" and "length xs < fuel"
  shows "recv_packet pf fuel p (int L) to d =
    Inr (int (min L (length xs)), take L xs @ drop (min L (length xs)) p, d')"
proof -
  from assms(1) obtain d1 where d1: "reads pf (noise @ [Some END]) d d1"
    and rest: "reads pf (map Some (concat (map esc_byte xs) @ [END])) d1 d'"
    by (auto simp: reads_append slip_frame_def)
  have "recv_loop pf fuel (int L) p 0 END d1 =
      Inr (int (min L (length xs)), take L xs @ drop (min L (length xs)) p, d')"
    using recv_loop_payload [OF rest, of 0 L p fuel END] assms by (simp add: filled_def)
  then show ?thesis
    using wait_end_found [OF d1 assms(2), of 0 "unat (to - 1)"] assms(3)
    by (simp add: recv_packet_def)
qed

lemma recv_packet_idle:
  assumes "reads pf es d d'" and "Some END \<notin> set es" and "length es = unat (to - 1)"
  shows "recv_packet pf fuel p len to d = Inr (- EAGAIN pf, p, d')"
  using wait_end_idle [OF assms(1,2), of 0] assms(3) by (auto simp: recv_packet_def)

text \<open>More fuel never changes what the receive loop returns.\<close>

lemma recv_loop_le: "f \<le> g \<Longrightarrow> le_res (recv_loop pf f len p n c d) (recv_loop pf g len p n c d)"
proof (induction f arbitrary: g p n c d)
  case (Suc f)
  then obtain g' where "g = Suc g'" "f \<le> g'" by (cases g) auto
  with Suc.IH show ?case
    by (auto simp: recv_loop.simps(2) Let_def split: prod.splits intro!: le_res_rbind)
qed simp

lemma recv_packet_le: "f \<le> g \<Longrightarrow> le_res (recv_packet pf f p len to d) (recv_packet pf g p len to d)"
  by (auto simp: recv_packet_def recv_loop_le split: prod.splits)

text \<open>
  Safety on every device: what \<^verbatim>\<open>recv_packet\<close> promises of the buffer and the count, however
  the line behaves.
\<close>

definition recv_safe :: "'d platform \<Rightarrow> nat \<Rightarrow> bytes \<Rightarrow> int \<times> bytes \<times> 'd \<Rightarrow> bool" where
  "recv_safe pf L p = (\<lambda>(r, p', d').
     length p' = length p \<and> drop L p' = drop L p \<and>
     (r = - EAGAIN pf \<and> p' = p \<or> 0 < r \<and> r \<le> int L \<and> drop (nat r) p' = drop (nat r) p))"

lemma holds_store_byte:
  assumes "n \<le> L" and "L \<le> length p"
  shows "holds_res (\<lambda>(p', n'). n \<le> n' \<and> n' \<le> L \<and> length p' = length p \<and> drop n' p' = drop n' p \<and>
    drop L p' = drop L p) (store_byte p n (int L) v)"
  using assms by (auto simp: store_byte_def wr_def)

lemma drop_eq_mono: "drop n p = drop n q \<Longrightarrow> n \<le> m \<Longrightarrow> drop m p = drop m q"
  by (metis drop_drop le_add_diff_inverse2)

lemma recv_loop_safe:
  assumes "n \<le> L" and "L \<le> length p" and "drop n p = drop n q" and "length p = length q"
  shows "holds_res (recv_safe pf L q) (recv_loop pf fuel (int L) p n c d)"
  using assms
proof (induction fuel arbitrary: p n c d)
  case (Suc fuel)
  have store: "holds_res (recv_safe pf L q)
      (rbind (store_byte p n (int L) v) (\<lambda>(p, n). recv_loop pf fuel (int L) p n c d))" for v c d
    using Suc by (intro holds_res_rbindI [OF holds_store_byte]) (auto dest: drop_eq_mono)
  from Suc store show ?case
    by (auto simp: recv_loop.simps(2) Let_def recv_safe_def dest: drop_eq_mono split: prod.splits)
qed simp

lemma recv_packet_safe:
  "L \<le> length p \<Longrightarrow> holds_res (recv_safe pf L p) (recv_packet pf fuel p (int L) to d)"
  using recv_loop_safe [of 0 L p p]
  by (auto simp: recv_packet_def recv_safe_def split: prod.splits)

section \<open>A line that stays silent\<close>

text \<open>
  \<open>quiet_line pf I tx\<close>: in the device states \<open>I\<close> nobody answers. Every read times out, whatever
  is written, and \<open>tx\<close> observes the bytes written so far. Retransmission is about such a line.
\<close>

definition quiet_line :: "'d platform \<Rightarrow> ('d \<Rightarrow> bool) \<Rightarrow> ('d \<Rightarrow> bytes) \<Rightarrow> bool" where
  "quiet_line pf I tx \<longleftrightarrow>
     (\<forall>d b. I d \<longrightarrow> I (rs232_put pf b d) \<and> tx (rs232_put pf b d) = tx d @ [b]) \<and>
     (\<forall>d c. I d \<longrightarrow> fst (rs232_get pf c d) = c \<and> I (snd (rs232_get pf c d)) \<and>
        tx (snd (rs232_get pf c d)) = tx d)"

lemma quiet_line_puts:
  "quiet_line pf I tx \<Longrightarrow> I d \<Longrightarrow> I (puts pf bs d) \<and> tx (puts pf bs d) = tx d @ bs"
  by (induction bs arbitrary: d) (auto simp: puts_Cons quiet_line_def)

lemma quiet_line_wait_end:
  "quiet_line pf I tx \<Longrightarrow> I d \<Longrightarrow> c \<noteq> END \<Longrightarrow>
   \<exists>d'. wait_end pf n c d = (False, c, d') \<and> I d' \<and> tx d' = tx d"
proof (induction n arbitrary: d)
  case (Suc n)
  obtain c1 d1 where get: "rs232_get pf c d = (c1, d1)" by fastforce
  with Suc.prems have "c1 = c" "I d1" "tx d1 = tx d"
    unfolding quiet_line_def by (metis fst_conv, metis snd_conv, metis snd_conv)
  with Suc.IH [of d1] Suc.prems get show ?case by auto
qed simp

lemma quiet_line_recv:
  "quiet_line pf I tx \<Longrightarrow> I d \<Longrightarrow>
   \<exists>d'. recv_packet pf fuel p len to d = Inr (- EAGAIN pf, p, d') \<and> I d' \<and> tx d' = tx d"
  using quiet_line_wait_end [of pf I tx d 0 "unat (to - 1)"] by (auto simp: recv_packet_def)

section \<open>A line for concrete runs\<close>

text \<open>
  A device whose reads follow a script and whose writes are recorded. It is the instance at
  which theorems about every platform are evaluated.
\<close>

definition script_get :: "u8 \<Rightarrow> u8 option list \<times> bytes \<Rightarrow> u8 \<times> u8 option list \<times> bytes" where
  "script_get c d =
     (case fst d of [] \<Rightarrow> (c, d) | e # es \<Rightarrow> (case e of Some b \<Rightarrow> b | None \<Rightarrow> c, (es, snd d)))"

definition script_put :: "u8 \<Rightarrow> u8 option list \<times> bytes \<Rightarrow> u8 option list \<times> bytes" where
  "script_put b d = (fst d, snd d @ [b])"

definition script_line :: "(u8 option list \<times> bytes) platform" where
  "script_line =
     \<lparr>rs232_init = (\<lambda>d. (True, d)), rs232_params = (\<lambda>_ _ d. (True, d)), rs232_put = script_put,
      rs232_get = script_get, r_register = (\<lambda>d. (0x17, d)), EAGAIN = 11\<rparr>"

lemma script_line_sel [simp]:
  "rs232_put script_line = script_put" "rs232_get script_line = script_get"
  "EAGAIN script_line = 11" "r_register script_line = (\<lambda>d. (0x17, d))"
  by (simp_all add: script_line_def)

lemma reads_script: "reads script_line es (es @ rest, tx) (rest, tx)"
  by (induction es) (auto simp: script_get_def)

lemma reads_script_all: "reads script_line es (es, tx) ([], tx)"
  using reads_script [of es "[]"] by simp

text \<open>When the script ends, the reads go on and time out.\<close>

lemma reads_script_take: "reads script_line (take n rx @ replicate (n - length rx) None) (rx, tx) (drop n rx, tx)"
proof (cases "n \<le> length rx")
  case True
  then show ?thesis using reads_script [of "take n rx" "drop n rx" tx] by simp
next
  case False
  have "reads script_line (replicate k None) ([], tx) ([], tx)" for k
    by (induction k) (auto simp: script_get_def)
  then show ?thesis using False reads_script_all [of rx tx] by (auto simp: reads_append)
qed

lemma puts_script: "puts script_line bs (rx, tx) = (rx, tx @ bs)"
  by (induction bs arbitrary: tx) (simp_all add: puts_Cons script_put_def)

lemma quiet_script: "quiet_line script_line (\<lambda>d. fst d = []) snd"
  by (simp add: quiet_line_def script_get_def script_put_def)

section \<open>Properties\<close>

text \<open>
  C1: the serial line carries packets faithfully. \<^verbatim>\<open>send_packet\<close> writes one frame \<open>w\<close> to its
  device, and whenever the other end reads \<open>w\<close>, even after noise that holds no END,
  \<^verbatim>\<open>recv_packet\<close> returns exactly the bytes that were sent and leaves the rest of its buffer
  alone.
\<close>

theorem slip_roundtrip:
  assumes "0 < len" and "len \<le> length p" and "len \<le> L" and "L \<le> length q"
    and "Some END \<notin> set noise" and "length noise < unat (to - 1)" and "len < fuel"
  shows "\<exists>w. send_packet pf p len d = Inr (puts pf w d) \<and>
    (\<forall>e e'. reads pf' (noise @ map Some w) e e' \<longrightarrow>
       recv_packet pf' fuel q (int L) to e = Inr (int len, take len p @ drop len q, e'))"
proof (intro exI conjI allI impI)
  show "send_packet pf p len d = Inr (puts pf (slip_frame esc_byte (take len p)) d)"
    using assms by (simp add: send_packet_puts)
  fix e e'
  assume "reads pf' (noise @ map Some (slip_frame esc_byte (take len p))) e e'"
  moreover have "take len p \<noteq> []" "length (take len p) = len"
    using assms by auto
  ultimately show "recv_packet pf' fuel q (int L) to e = Inr (int len, take len p @ drop len q, e')"
    using recv_packet_frame [of pf' noise "take len p" e e' to L q fuel] assms
    by (simp add: min.absorb2)
qed

theorem slip_roundtrip_witness:
  "\<exists>w. send_packet script_line [0x45, END, ESC, ZER] 3 ([], []) = Inr (puts script_line w ([], [])) \<and>
    (\<forall>e e'. reads script_line ([None, Some 7] @ map Some w) e e' \<longrightarrow>
       recv_packet script_line 10 [1, 1, 1, 1, 1] (int 4) 80 e =
         Inr (int 3, take 3 [0x45, END, ESC, ZER] @ drop 3 [1, 1, 1, 1, 1], e'))"
  by (rule slip_roundtrip) simp_all

text \<open>
  C20: a frame longer than the buffer is truncated to the buffer, as the comment of
  \<^verbatim>\<open>recv_packet\<close> says: the first \<open>L\<close> bytes are kept, the count is \<open>L\<close>, and the line is read up to
  the END of the frame all the same.
\<close>

theorem recv_packet_truncates:
  assumes "reads pf (map Some (slip_frame esc_byte xs)) d d'"
    and "0 < L" and "L < length xs" and "L \<le> length p" and "1 < unat to" and "length xs < fuel"
  shows "recv_packet pf fuel p (int L) to d = Inr (int L, take L xs @ drop L p, d')"
proof -
  from assms(5) have "0 < unat (to - 1)"
    by (auto simp: unat_gt_0)
  moreover have "xs \<noteq> []" using assms(3) by auto
  ultimately show ?thesis
    using recv_packet_frame [of pf "[]" xs d d' to L p fuel] assms by (simp add: min.absorb1)
qed

theorem recv_packet_truncates_witness:
  "recv_packet script_line 10 [0, 0, 0] (int 2) 80 (map Some (slip_frame esc_byte [5, END, 6]), []) =
   Inr (int 2, [5, END, 0], ([], []))"
  using recv_packet_truncates [of script_line "[5, END, 6]"
    "(map Some (slip_frame esc_byte [5, END, 6]), [])" "([], [])" 2 "[0, 0, 0]" 80 10]
  by (simp add: reads_script_all)

text \<open>
  C19: \<^verbatim>\<open>recv_packet\<close> is memory safe on every device, well-behaved or not. With a limit that is
  at most the size of the buffer it never writes outside it, returns \<^verbatim>\<open>-EAGAIN\<close> with the buffer
  untouched or a count between 1 and the limit, and changes no byte at or beyond that count.
\<close>

theorem recv_packet_memory_safe:
  assumes "L \<le> length p"
  shows "holds_res (\<lambda>(r, p', d').
      length p' = length p \<and> drop L p' = drop L p \<and>
      (r = - EAGAIN pf \<and> p' = p \<or> 0 < r \<and> r \<le> int L \<and> drop (nat r) p' = drop (nat r) p))
    (recv_packet pf fuel p (int L) to d)"
  using recv_packet_safe [OF assms] by (simp add: recv_safe_def)

theorem recv_packet_memory_safe_witness:
  "holds_res (\<lambda>(r, p', d').
      length p' = length [1 :: u8, 2] \<and> drop 2 p' = drop 2 [1, 2] \<and>
      (r = - EAGAIN script_line \<and> p' = [1, 2] \<or>
       0 < r \<and> r \<le> int 2 \<and> drop (nat r) p' = drop (nat r) [1, 2]))
    (recv_packet script_line 5 [1, 2] (int 2) 80 ([Some END, Some 7, Some ESC, Some 9, Some END], []))"
  by (rule recv_packet_memory_safe) simp

text \<open>
  An idle line times out. When \<open>to - 1\<close> reads bring no END, \<^verbatim>\<open>recv_packet\<close> has made exactly
  these reads, returns \<^verbatim>\<open>-EAGAIN\<close>, and the buffer is as before. It needs no fuel, so it always
  returns.
\<close>

theorem recv_packet_timeout:
  assumes "reads pf es d d'" and "Some END \<notin> set es" and "length es = unat (to - 1)"
  shows "recv_packet pf 0 p len to d = Inr (- EAGAIN pf, p, d')"
  using assms by (rule recv_packet_idle)

theorem recv_packet_timeout_witness:
  "recv_packet script_line 0 [1, 2] 2 3 ([None, Some 5, Some END], []) = Inr (- EAGAIN script_line, [1, 2], ([Some END], []))"
  by (rule recv_packet_timeout [where es = "[None, Some 5]"]) (auto simp: script_get_def)

text \<open>
  What \<^verbatim>\<open>send_packet\<close> puts on the line, with the bound the other end sizes its buffer by:
  an END on each side and none inside, never a zero byte (the Interface 1 workaround), at
  most two bytes for each byte of the packet, and a payload that decodes to the packet.
\<close>

theorem slip_wire_clean:
  assumes "len \<le> length p"
  shows "\<exists>w. send_packet pf p len d = Inr (puts pf w d) \<and> ZER \<notin> set w \<and> count_list w END = 2 \<and>
    hd w = END \<and> last w = END \<and> len + 2 \<le> length w \<and> length w \<le> 2 * len + 2 \<and>
    unstuff (butlast (tl w)) = take len p"
proof (intro exI conjI)
  let ?w = "slip_frame esc_byte (take len p)"
  show "send_packet pf p len d = Inr (puts pf ?w d)"
    using assms by (rule send_packet_puts)
  show "len + 2 \<le> length ?w" "length ?w \<le> 2 * len + 2"
    using z80.frame_length [of "take len p"] assms by simp_all
  show "ZER \<notin> set ?w" "count_list ?w END = 2"
    by (rule z80.frame_ZER, rule z80.frame_END_count)
  show "hd ?w = END" "last ?w = END" "unstuff (butlast (tl ?w)) = take len p"
    by (simp_all add: slip_frame_def z80.unstuff_payload)
qed

theorem slip_wire_clean_witness:
  "\<exists>w. send_packet script_line [1, 0] 2 ([], []) = Inr (puts script_line w ([], [])) \<and>
    ZER \<notin> set w \<and> count_list w END = 2 \<and> hd w = END \<and> last w = END \<and>
    2 + 2 \<le> length w \<and> length w \<le> 2 * 2 + 2 \<and> unstuff (butlast (tl w)) = take 2 [1, 0]"
  by (rule slip_wire_clean) simp

text \<open>
  C22: a timeout in the middle of a frame is taken for data. \<^verbatim>\<open>recv_packet\<close> ignores what
  \<^verbatim>\<open>rs232_get\<close> returns, so a plain byte followed by a timeout is stored twice and the packet
  is handed up with a byte that was never sent.
\<close>

theorem recv_packet_stutter:
  assumes "reads pf [Some END, Some x, None, Some END] d d'"
    and "x \<noteq> END" and "x \<noteq> ESC" and "2 \<le> length p" and "1 < unat to" and "4 \<le> fuel"
  shows "recv_packet pf fuel p (int (length p)) to d = Inr (2, x # x # drop 2 p, d')"
proof -
  from assms(5) have t: "0 < unat (to - 1)"
    by (auto simp: unat_gt_0)
  from assms(1) obtain d1 d2 d3 where d1: "reads pf [Some END] d d1"
    and rest: "\<And>c. rs232_get pf c d1 = (x, d2)" "\<And>c. rs232_get pf c d2 = (c, d3)"
      "\<And>c. rs232_get pf c d3 = (END, d')"
    by auto
  from assms(4) obtain a b q where p: "p = a # b # q"
    by (cases p; cases "tl p") auto
  define f where "f = fuel - 3"
  with assms(6) have f: "fuel = Suc (Suc (Suc f))"
    by simp
  have "recv_loop pf fuel (int (length p)) p 0 END d1 = Inr (2, x # x # drop 2 p, d')"
    unfolding f p recv_loop.simps(2) rest Let_def prod.case
    using assms(2,3) by (simp add: store_byte_def wr_def rest)
  with wait_end_found [of pf "[]" d d1 0 "unat (to - 1)"] d1 t show ?thesis
    by (simp add: recv_packet_def)
qed

theorem recv_packet_stutter_witness:
  "recv_packet script_line 4 [0, 0, 0] (int (length [0 :: u8, 0, 0])) 80
     ([Some END, Some 0x45, None, Some END], []) = Inr (2, 0x45 # 0x45 # drop 2 [0, 0, 0], ([], []))"
  by (rule recv_packet_stutter) (simp_all add: script_get_def)

end
