(* ===== verification/Ip.thy ===== *)
theory Ip
  imports Slip
begin

text \<open>
  The network layer, \<^verbatim>\<open>ip.c\<close> and \<^verbatim>\<open>ip.h\<close>: the Internet checksum and the construction of an IPv4
  header in front of a payload that is already in the packet buffer.

  The checksum is proved equal to a reference over natural numbers, and the interface the
  upper layers use (\<open>checksum\<close>: a field computed over a zero field verifies, and trailing
  zeros do not count) is interpreted on it.
\<close>

section \<open>State and operations\<close>

abbreviation IP_ICMP :: u8 where "IP_ICMP \<equiv> 1"
abbreviation IP_TCP :: u8 where "IP_TCP \<equiv> 6"

record ip_context =
  saddr :: u32
  daddr :: u32
  pkt_size :: u16
  ip_id :: u16
  pkt :: bytes

text \<open>
  The loops of \<^verbatim>\<open>csum\<close>: the list is the memory from \<^verbatim>\<open>ptr\<close> on, read as little-endian words; an
  odd last byte is the low half of a word.
\<close>

fun csum_loop :: "bytes \<Rightarrow> nat \<Rightarrow> u32 \<Rightarrow> u32 res" where
  "csum_loop p 0 acc = Inr acc"
| "csum_loop p (Suc 0) acc =
     (case p of [] \<Rightarrow> Inl OutOfBounds | a # _ \<Rightarrow> Inr (acc + ucast (of_le16 a 0)))"
| "csum_loop p (Suc (Suc nbytes)) acc =
     (case p of a # b # p' \<Rightarrow> csum_loop p' nbytes (acc + ucast (of_le16 a b))
      | _ \<Rightarrow> Inl OutOfBounds)"

definition csum :: "bytes \<Rightarrow> nat \<Rightarrow> u16 res" where
  "csum p nbytes =
     rbind (csum_loop p nbytes 0) (\<lambda>acc.
       let acc = drop_bit 16 acc + (acc AND 0xffff);
           acc = acc + drop_bit 16 acc
       in Inr (ucast (NOT acc)))"

definition ip_build_and_send ::
  "'d platform \<Rightarrow> ip_context \<Rightarrow> u16 \<Rightarrow> u8 \<Rightarrow> 'd \<Rightarrow> (ip_context \<times> 'd) res" where
  "ip_build_and_send pf ip total_len proto d =
     rbind (memset (pkt ip) 0 0 20) (\<lambda>p.
     rbind (wr p 0 0x45) (\<lambda>p.
     rbind (memcpy p 2 (le16 (htons total_len))) (\<lambda>p.
     rbind (memcpy p 4 (le16 (ip_id ip))) (\<lambda>p.
     rbind (wr p 8 64) (\<lambda>p.
     rbind (wr p 9 proto) (\<lambda>p.
     rbind (memcpy p 12 (le32 (saddr ip))) (\<lambda>p.
     rbind (memcpy p 16 (le32 (daddr ip))) (\<lambda>p.
     rbind (csum p 20) (\<lambda>cs.
     rbind (memcpy p 10 (le16 cs)) (\<lambda>p.
     rbind (send_packet pf p (unat total_len) d) (\<lambda>d.
     Inr (ip\<lparr>ip_id := ip_id ip + 1, pkt := p\<rparr>, d))))))))))))"

text \<open>\<^verbatim>\<open>ip_buffer\<close> returns a pointer into the packet: the memory from that offset on.\<close>

definition ip_buffer :: "ip_context \<Rightarrow> nat \<Rightarrow> bytes" where
  "ip_buffer ip offset = drop offset (pkt ip)"

section \<open>The Internet checksum\<close>

text \<open>
  The reference: the sum of the 16-bit words as a natural number, folded to sixteen bits
  with end-around carry (for a sum that is not zero, the representative of its residue
  modulo 65535 between 1 and 65535), and complemented.
\<close>

fun sum16 :: "bytes \<Rightarrow> nat" where
  "sum16 [] = 0"
| "sum16 [a] = unat a"
| "sum16 (a # b # xs) = unat a + 256 * unat b + sum16 xs"

definition ones_sum :: "nat \<Rightarrow> nat" where
  "ones_sum S = (if S = 0 then 0 else Suc ((S - 1) mod 65535))"

definition inet_csum :: "bytes \<Rightarrow> u16" where
  "inet_csum xs = word_of_nat (65535 - ones_sum (sum16 xs))"

locale checksum =
  fixes ck :: "bytes \<Rightarrow> u16"
  assumes ck_verify: "even (length xs) \<Longrightarrow> ck (xs @ le16 (ck (xs @ [0, 0] @ ys)) @ ys) = 0"
    and ck_zeros: "ck (xs @ replicate n 0) = ck xs"
begin

text \<open>
  A header whose checksum field was computed over a longer, zero-padded buffer than the one
  that is sent still verifies.
\<close>

lemma ck_verify_padded:
  assumes "even (length xs)"
  shows "ck (xs @ le16 (ck (xs @ [0, 0] @ ys @ replicate n 0)) @ ys) = 0"
  using ck_verify [OF assms, of ys] ck_zeros [of "xs @ [0, 0] @ ys" n] by simp

end

lemma sum16_append: "even (length xs) \<Longrightarrow> sum16 (xs @ ys) = sum16 xs + sum16 ys"
  by (induction xs rule: sum16.induct) auto

lemma sum16_replicate_0: "sum16 (replicate n 0) = 0"
proof (induction n rule: less_induct)
  case (less n)
  then show ?case by (cases n; cases "n - 1") auto
qed

lemma sum16_zeros: "sum16 (xs @ replicate n 0) = sum16 xs"
proof (induction xs rule: sum16.induct)
  case (2 a)
  then show ?case by (cases n) (simp_all add: sum16_replicate_0)
qed (simp_all add: sum16_replicate_0)

lemma ones_sum_le: "ones_sum S \<le> 65535"
proof -
  have "Suc ((S - 1) mod 65535) \<le> 65535"
    using mod_less_divisor [of 65535 "S - 1"] by linarith
  then show ?thesis by (simp only: ones_sum_def split: if_split) simp
qed

lemma ones_sum_complement: "ones_sum (S + (65535 - ones_sum S)) = 65535"
proof (cases "S = 0")
  case False
  define q where "q = (S - 1) div 65535"
  from False have S: "S = Suc (q * 65535 + (S - 1) mod 65535)"
    unfolding q_def by simp
  have "S + (65535 - ones_sum S) = Suc q * 65535"
    using S False mod_less_divisor [of 65535 "S - 1"] by (simp add: ones_sum_def)
  then show ?thesis
    by (simp add: ones_sum_def)
qed (simp add: ones_sum_def)

lemma unat_inet_csum: "unat (inet_csum xs) = 65535 - ones_sum (sum16 xs)"
  by (simp add: inet_csum_def unat_of_nat)

lemma sum16_le16: "sum16 (le16 w) = unat w"
  using unat_of_le16 [of "ucast w" "ucast (drop_bit 8 w)"] by (simp add: le16_def)

interpretation inet: checksum inet_csum
proof
  fix xs ys :: bytes
  assume "even (length xs)"
  then have "unat (inet_csum (xs @ le16 (inet_csum (xs @ [0, 0] @ ys)) @ ys)) = 0"
    using ones_sum_complement [of "sum16 xs + sum16 ys"]
    by (simp add: sum16_append sum16_le16 unat_inet_csum ac_simps)
  then show "inet_csum (xs @ le16 (inet_csum (xs @ [0, 0] @ ys)) @ ys) = 0"
    by (simp add: unat_eq_zero)
next
  show "inet_csum (xs @ replicate n 0) = inet_csum xs" for xs n
    by (simp add: inet_csum_def sum16_zeros)
qed

section \<open>The code computes the reference\<close>

lemma ucast_of_le16: "(ucast (of_le16 a b) :: u32) = word_of_nat (unat a + 256 * unat b)"
  by (simp only: unat_of_le16 [symmetric] of_nat_unat)

lemma csum_loop_sum16:
  "nbytes \<le> length p \<Longrightarrow> csum_loop p nbytes acc = Inr (acc + word_of_nat (sum16 (take nbytes p)))"
proof (induction p nbytes acc rule: csum_loop.induct)
  case (2 p acc)
  then show ?case by (cases p) (auto simp: ucast_of_le16)
next
  case (3 p nbytes acc)
  then obtain a b q where "p = a # b # q"
    by (cases p; cases "tl p") auto
  with 3 show ?case by (simp add: ucast_of_le16 algebra_simps)
qed simp

lemma sum16_bound: "sum16 xs \<le> 65535 * ((length xs + 1) div 2)"
proof (induction xs rule: sum16.induct)
  case (2 a)
  then show ?case using unat_u8_less [of a] by simp
next
  case (3 a b xs)
  then show ?case using unat_u8_less [of a] unat_u8_less [of b] by simp
qed simp

text \<open>The two folds of the code, on a sum that fits in 32 bits.\<close>

lemma fold_once:
  assumes "0 < t" and "t \<le> 131070"
  shows "(t + t div 65536) mod 65536 = Suc ((t - 1) mod 65535)"
proof (cases "t < 65536")
  case True
  with assms show ?thesis by (cases t) (simp_all add: mod_less)
next
  case False
  then have "t div 65536 = 1" using assms by (simp add: div_nat_eqI)
  moreover have "(t + 1) mod 65536 = t + 1 - 65536" "(t - 1) mod 65535 = t - 1 - 65535"
    using False assms by (simp_all add: mod_if)
  ultimately show ?thesis using False assms by simp
qed

lemma fold_csum:
  assumes "S < 2 ^ 32"
  defines "t \<equiv> S div 65536 + S mod 65536"
  shows "(t + t div 65536) mod 65536 = ones_sum S"
proof (cases "S = 0")
  case False
  have S: "S = (S div 65536) * 65536 + S mod 65536" by simp
  have "S div 65536 < 65536" "S mod 65536 < 65536"
    using assms by (simp_all add: less_mult_imp_div_less)
  then have t: "t \<le> 131070" unfolding t_def by linarith
  have eq: "S = t + 65535 * (S div 65536)" unfolding t_def using S by linarith
  with False have pos: "0 < t" by (cases "t = 0") (auto simp: t_def)
  with eq have "S - 1 = t - 1 + 65535 * (S div 65536)" by linarith
  then have "(S - 1) mod 65535 = (t - 1) mod 65535" by simp
  then show ?thesis using False fold_once [OF pos t] by (simp add: ones_sum_def)
qed (simp add: t_def ones_sum_def)

lemma unat_halves:
  "unat (drop_bit 16 (w :: u32)) = unat w div 65536" "unat (w AND 0xffff) = unat w mod 65536"
proof -
  have "(0xffff :: u32) = mask 16" by (simp add: mask_eq_exp_minus_1)
  then show "unat (w AND 0xffff) = unat w mod 65536"
    by (simp only: flip: take_bit_eq_mask) (simp add: unsigned_take_bit_eq take_bit_nat_def)
  have "take_bit 32 (unat w) = unat w"
    using unsigned_less [of w, where ?'a = nat] by (simp add: take_bit_nat_eq_self)
  then show "unat (drop_bit 16 w) = unat w div 65536"
    by (simp add: unsigned_drop_bit_eq drop_bit_nat_def)
qed

lemma unat_add_small: "unat (a :: u32) + unat b < 2 ^ 32 \<Longrightarrow> unat (a + b) = unat a + unat b"
  by (subst unat_add_lem [THEN iffD1]) simp_all

lemma ucast_not: "(ucast (NOT w) :: u16) = word_of_nat (65535 - unat (w :: u32) mod 65536)"
proof -
  have "(ucast (NOT w) :: u16) = NOT (ucast w)"
    by (auto simp: bit_simps intro!: bit_word_eqI)
  also have "\<dots> = 65535 - ucast w"
    by (simp add: not_eq_complement)
  also have "ucast w = (word_of_nat (unat w mod 65536) :: u16)"
    by (rule word_unat_eq_iff [THEN iffD2]) (simp add: unsigned_ucast_eq unat_of_nat take_bit_nat_def)
  also have "65535 - \<dots> = word_of_nat (65535 - unat w mod 65536)"
    by (subst of_nat_diff) (simp_all add: less_Suc_eq_le [symmetric])
  finally show ?thesis .
qed

lemma csum_inet:
  assumes "nbytes \<le> length p" and "nbytes \<le> 131072"
  shows "csum p nbytes = Inr (inet_csum (take nbytes p))"
proof -
  let ?S = "sum16 (take nbytes p)"
  define w :: u32 where "w = word_of_nat ?S"
  define t where "t = drop_bit 16 w + (w AND 0xffff)"
  have S: "?S < 2 ^ 32"
    using sum16_bound [of "take nbytes p"] assms by (simp add: min.absorb2)
  then have w: "unat w = ?S" by (simp add: w_def unat_of_nat)
  have small: "?S div 65536 + ?S mod 65536 < 131072"
    using S by (simp add: less_mult_imp_div_less)
  then have t: "unat t = ?S div 65536 + ?S mod 65536"
    unfolding t_def by (subst unat_add_small) (simp_all add: unat_halves w)
  have "unat (t + drop_bit 16 t) = unat t + unat t div 65536"
    by (subst unat_add_small) (use small t in \<open>simp_all add: unat_halves\<close>)
  then have "unat (t + drop_bit 16 t) mod 65536 = ones_sum ?S"
    using fold_csum [OF S] by (simp add: t)
  then show ?thesis
    using csum_loop_sum16 [OF assms(1), of 0]
    by (simp add: csum_def Let_def ucast_not inet_csum_def flip: w_def t_def)
qed

lemma csum_prefix: "length xs \<le> 131072 \<Longrightarrow> n = length xs \<Longrightarrow> csum (xs @ ys) n = Inr (inet_csum xs)"
  by (simp add: csum_inet)

section \<open>The header\<close>

text \<open>The IPv4 header \<^verbatim>\<open>ip_build_and_send\<close> is meant to write, around its checksum field.\<close>

definition ip_head :: "u16 \<Rightarrow> u16 \<Rightarrow> u8 \<Rightarrow> bytes" where
  "ip_head total_len ident proto = [0x45, 0] @ be16 total_len @ le16 ident @ [0, 0, 64, proto]"

definition ip_addrs :: "ip_context \<Rightarrow> bytes" where
  "ip_addrs ip = le32 (saddr ip) @ le32 (daddr ip)"

definition ip_header :: "ip_context \<Rightarrow> u16 \<Rightarrow> u8 \<Rightarrow> bytes" where
  "ip_header ip total_len proto =
     (let h = ip_head total_len (ip_id ip) proto
      in h @ le16 (inet_csum (h @ [0, 0] @ ip_addrs ip)) @ ip_addrs ip)"

lemma length_ip_head [simp]: "length (ip_head l i p) = 10"
  by (simp add: ip_head_def)

lemma length_ip_addrs [simp]: "length (ip_addrs ip) = 8"
  by (simp add: ip_addrs_def)

lemma length_ip_header [simp]: "length (ip_header ip l p) = 20"
  by (simp add: ip_header_def Let_def)

lemma ip_header_pkt [simp]: "ip_header (ip\<lparr>pkt := p\<rparr>) l proto = ip_header ip l proto"
  by (simp add: ip_header_def ip_addrs_def)

lemma ip_header_daddr: "take 4 (drop 16 (ip_header ip l p)) = le32 (daddr ip)"
  by (simp add: ip_header_def Let_def ip_addrs_def)

lemma ip_header_fields:
  "take 20 (ip_header ip l p @ rest) =
     [0x45, 0] @ be16 l @ le16 (ip_id ip) @ [0, 0, 64, p] @ take 2 (drop 10 (ip_header ip l p @ rest)) @ le32 (saddr ip) @ le32 (daddr ip)"
  by (simp add: ip_header_def ip_head_def ip_addrs_def Let_def)

lemma ip_header_verifies: "inet_csum (ip_header ip l p) = 0"
  using inet.ck_verify [of "ip_head l (ip_id ip) p" "ip_addrs ip"] by (simp add: ip_header_def Let_def)

text \<open>The packet that leaves: the header in front of what was in the buffer.\<close>

definition ip_packet :: "ip_context \<Rightarrow> u16 \<Rightarrow> u8 \<Rightarrow> bytes" where
  "ip_packet ip total_len proto =
     take (unat total_len) (ip_header ip total_len proto @ drop 20 (pkt ip))"

lemma ip_build_and_send_ok:
  assumes "20 \<le> length (pkt ip)" and "unat total_len \<le> length (pkt ip)"
  shows "ip_build_and_send pf ip total_len proto d =
    Inr (ip\<lparr>ip_id := ip_id ip + 1, pkt := ip_header ip total_len proto @ drop 20 (pkt ip)\<rparr>,
         puts pf (slip_frame esc_byte (ip_packet ip total_len proto)) d)"
proof -
  let ?rest = "drop 20 (pkt ip)"
  have "memset (pkt ip) 0 0 20 = Inr ([0, 0, 0, 0, 0, 0, 0, 0, 0, 0, 0, 0, 0, 0, 0, 0, 0, 0, 0, 0] @ ?rest)"
    using assms by (simp add: memset_ok numeral_eq_Suc)
  moreover have "send_packet pf (ip_header ip total_len proto @ ?rest) (unat total_len) d =
      Inr (puts pf (slip_frame esc_byte (ip_packet ip total_len proto)) d)"
    unfolding ip_packet_def using assms by (subst send_packet_puts) simp_all
  ultimately show ?thesis
    unfolding ip_build_and_send_def wire_simps wr_memcpy
    by (simp add: memcpy_def csum_inet ip_addrs_def ip_header_def ip_head_def Let_def
        be16_def le16_def le32_def)
qed

section \<open>Properties\<close>

text \<open>
  C11: \<^verbatim>\<open>csum\<close> is the Internet checksum. On every buffer that a 32-bit sum can hold, odd lengths
  included, the loop and the two folds return the complement of the end-around-carry sum of
  the 16-bit words, and the carry of the first fold is never lost.
\<close>

theorem csum_is_internet_checksum:
  assumes "nbytes \<le> length p" and "nbytes \<le> 131072"
  shows "csum p nbytes = Inr (word_of_nat (65535 - ones_sum (sum16 (take nbytes p))))"
  using csum_inet [OF assms] by (simp add: inet_csum_def)

theorem csum_is_internet_checksum_witness:
  "csum [0xff, 0xff, 1, 0, 0xff, 9] 5 =
   Inr (word_of_nat (65535 - ones_sum (sum16 (take 5 [0xff, 0xff, 1, 0, 0xff, 9]))))"
  by (rule csum_is_internet_checksum) simp_all

text \<open>
  \<^verbatim>\<open>ip_build_and_send\<close> sends a correct IPv4 packet. With room for it in the buffer it returns,
  one frame goes out that holds the packet, the packet is 20 bytes of header (version and
  length, big-endian total length, identification, TTL 64, protocol, addresses) and the
  payload that was in the buffer, a receiver's checksum over the header gives zero, and the
  identification is advanced.
\<close>

theorem ip_build_and_send_correct:
  assumes "20 \<le> unat total_len" and "unat total_len \<le> length (pkt ip)"
  shows "\<exists>h c. ip_build_and_send pf ip total_len proto d =
      Inr (ip\<lparr>ip_id := ip_id ip + 1, pkt := h @ drop 20 (pkt ip)\<rparr>,
           puts pf (slip_frame esc_byte (h @ take (unat total_len - 20) (drop 20 (pkt ip)))) d) \<and>
    h = [0x45, 0] @ be16 total_len @ le16 (ip_id ip) @ [0, 0, 64, proto] @ le16 c @
        le32 (saddr ip) @ le32 (daddr ip) \<and>
    csum (h @ drop 20 (pkt ip)) 20 = Inr 0"
proof (intro exI conjI)
  let ?h = "ip_header ip total_len proto"
  show "ip_build_and_send pf ip total_len proto d =
      Inr (ip\<lparr>ip_id := ip_id ip + 1, pkt := ?h @ drop 20 (pkt ip)\<rparr>,
           puts pf (slip_frame esc_byte (?h @ take (unat total_len - 20) (drop 20 (pkt ip)))) d)"
    using assms by (simp add: ip_build_and_send_ok ip_packet_def)
  show "csum (?h @ drop 20 (pkt ip)) 20 = Inr 0"
    by (simp add: csum_inet ip_header_verifies)
qed (simp add: ip_header_def ip_head_def ip_addrs_def Let_def)

theorem ip_build_and_send_correct_witness:
  "\<exists>h c. ip_build_and_send script_line \<lparr>saddr = 0x020200c0, daddr = 0x010200c0, pkt_size = 24,
        ip_id = 7, pkt = replicate 24 9\<rparr> 22 6 ([], []) =
      Inr (\<lparr>saddr = 0x020200c0, daddr = 0x010200c0, pkt_size = 24, ip_id = 8,
            pkt = h @ drop 20 (replicate 24 9)\<rparr>,
           puts script_line (slip_frame esc_byte (h @ take (unat (22 :: u16) - 20) (drop 20 (replicate 24 9)))) ([], [])) \<and>
    h = [0x45, 0] @ be16 22 @ le16 7 @ [0, 0, 64, 6] @ le16 c @
        le32 0x020200c0 @ le32 0x010200c0 \<and>
    csum (h @ drop 20 (replicate 24 9)) 20 = Inr 0"
  using ip_build_and_send_correct [of 22 "\<lparr>saddr = 0x020200c0, daddr = 0x010200c0, pkt_size = 24,
    ip_id = 7, pkt = replicate 24 9\<rparr>" script_line 6 "([], [])"] by simp

end
