(* ===== verification/Icmp.thy ===== *)
theory Icmp
  imports Ip
begin

text \<open>
  The echo request of \<^verbatim>\<open>icmp.c\<close>: build a ping in the packet buffer, send it, wait for the reply,
  and send again while nothing arrives, five times at most.
\<close>

section \<open>The operation\<close>

abbreviation ICMP_TYPE_ECHO_REPLY :: u8 where "ICMP_TYPE_ECHO_REPLY \<equiv> 0"
abbreviation ICMP_TYPE_ECHO :: u8 where "ICMP_TYPE_ECHO \<equiv> 8"

text \<open>\<^verbatim>\<open>RS232_TPS\<close>, the timeout of about a second, which the Makefile sets.\<close>

abbreviation RS232_TPS :: u16 where "RS232_TPS \<equiv> 80"

text \<open>From the label \<^verbatim>\<open>again\<close> to the call of \<^verbatim>\<open>recv_packet\<close>: one transmission and one wait.\<close>

definition icmp_try :: "'d platform \<Rightarrow> nat \<Rightarrow> ip_context \<Rightarrow> 'd \<Rightarrow> (int \<times> ip_context \<times> 'd) res" where
  "icmp_try pf fuel ip_ctx d =
     rbind (memset (pkt ip_ctx) 20 0 64) (\<lambda>p.
     rbind (wr p 20 ICMP_TYPE_ECHO) (\<lambda>p.
     rbind (csum (drop 20 p) 64) (\<lambda>cs.
     rbind (memcpy p 22 (le16 cs)) (\<lambda>p.
     rbind (ip_build_and_send pf (ip_ctx\<lparr>pkt := p\<rparr>) (20 + 16) IP_ICMP d) (\<lambda>(ip_ctx, d).
     rbind (recv_packet pf fuel (pkt ip_ctx) (sint (pkt_size ip_ctx)) RS232_TPS d) (\<lambda>(len, p, d).
     Inr (len, ip_ctx\<lparr>pkt := p\<rparr>, d)))))))"

text \<open>The checks on what came back.\<close>

definition icmp_check :: "int \<Rightarrow> bytes \<Rightarrow> int res" where
  "icmp_check len p =
     (if len < 28 then Inr (- 1)
      else rbind (rd p 0) (\<lambda>b0. if b0 \<noteq> 0x45 then Inr (- 1)
      else rbind (rd p 9) (\<lambda>b9. if b9 \<noteq> IP_ICMP then Inr (- 1)
      else rbind (rd p 20) (\<lambda>b20. if b20 \<noteq> ICMP_TYPE_ECHO_REPLY then Inr (- 1)
      else Inr 0))))"

text \<open>The loop around \<^verbatim>\<open>again\<close>; \<open>left\<close> is \<^verbatim>\<open>retries - 1\<close>.\<close>

fun icmp_again :: "'d platform \<Rightarrow> nat \<Rightarrow> nat \<Rightarrow> ip_context \<Rightarrow> 'd \<Rightarrow> (int \<times> ip_context \<times> 'd) res" where
  "icmp_again pf fuel left ip_ctx d =
     rbind (icmp_try pf fuel ip_ctx d) (\<lambda>(len, ip_ctx, d).
       if len = - EAGAIN pf then
         (case left of 0 \<Rightarrow> Inr (- 1, ip_ctx, d) | Suc left \<Rightarrow> icmp_again pf fuel left ip_ctx d)
       else rbind (icmp_check len (pkt ip_ctx)) (\<lambda>rc. Inr (rc, ip_ctx, d)))"

definition icmp_echo_request :: "'d platform \<Rightarrow> nat \<Rightarrow> ip_context \<Rightarrow> 'd \<Rightarrow> (int \<times> ip_context \<times> 'd) res" where
  "icmp_echo_request pf fuel ip_ctx d = icmp_again pf fuel 4 ip_ctx d"

declare icmp_again.simps [simp del]

section \<open>The echo request\<close>

text \<open>
  The message that is sent: sixteen bytes, although the code sums sixty-four. The difference
  is zeros, which the checksum does not see.
\<close>

definition icmp_echo :: bytes where
  "icmp_echo = [ICMP_TYPE_ECHO, 0] @ le16 (inet_csum ([ICMP_TYPE_ECHO, 0] @ [0, 0])) @ replicate 12 0"

lemma length_icmp_echo [simp]: "length icmp_echo = 16"
  by (simp add: icmp_echo_def)

lemma icmp_echo_verifies: "inet_csum icmp_echo = 0"
  using inet.ck_verify [of "[ICMP_TYPE_ECHO, 0]" "[]"]
    inet.ck_zeros [of "[ICMP_TYPE_ECHO, 0] @ le16 (inet_csum ([ICMP_TYPE_ECHO, 0] @ [0, 0]))" 12]
  by (simp add: icmp_echo_def)

lemma icmp_csum: "inet_csum (ICMP_TYPE_ECHO # replicate 63 0) = inet_csum ([ICMP_TYPE_ECHO, 0] @ [0, 0])"
proof -
  have "ICMP_TYPE_ECHO # replicate 63 0 = ([ICMP_TYPE_ECHO, 0] @ [0, 0]) @ replicate 60 (0 :: u8)"
    by (simp add: numeral_eq_Suc)
  then show ?thesis by (simp only: inet.ck_zeros)
qed

text \<open>The buffer of the stack: as large as its size says, and with room for an echo request.\<close>

definition icmp_ready :: "ip_context \<Rightarrow> bool" where
  "icmp_ready ip \<longleftrightarrow> length (pkt ip) = unat (pkt_size ip) \<and> 84 \<le> unat (pkt_size ip) \<and>
     unat (pkt_size ip) < 32768"

text \<open>The packet of one try.\<close>

definition icmp_request :: "ip_context \<Rightarrow> bytes" where
  "icmp_request ip = ip_header ip 36 IP_ICMP @ icmp_echo"

text \<open>The context when it has been sent: the packet and zeros up to byte 84.\<close>

definition icmp_sent :: "ip_context \<Rightarrow> ip_context" where
  "icmp_sent ip = ip\<lparr>ip_id := ip_id ip + 1, pkt := icmp_request ip @ replicate 48 0 @ drop 84 (pkt ip)\<rparr>"

lemma icmp_try_ok:
  assumes "icmp_ready ip"
  shows "icmp_try pf fuel ip d =
    rbind (recv_packet pf fuel (pkt (icmp_sent ip)) (int (length (pkt ip))) RS232_TPS
        (puts pf (slip_frame esc_byte (icmp_request ip)) d))
      (\<lambda>(len, p, d). Inr (len, (icmp_sent ip)\<lparr>pkt := p\<rparr>, d))"
proof -
  let ?p = "take 20 (pkt ip)" and ?r = "drop 84 (pkt ip)"
  let ?h = "ICMP_TYPE_ECHO # replicate 63 0"
  have len: "84 \<le> length (pkt ip)" "length (pkt ip) < 32768"
    and size: "sint (pkt_size ip) = int (length (pkt ip))"
    using assms by (simp_all add: icmp_ready_def sint_small)
  have s1: "memset (pkt ip) 20 0 64 = Inr (?p @ replicate 64 0 @ ?r)"
    using len by (simp add: memset_ok)
  have s2: "wr (?p @ replicate 64 0 @ ?r) 20 ICMP_TYPE_ECHO = Inr (?p @ ?h @ ?r)"
    using len by (simp add: wr_memcpy memcpy_def)
  have s3: "csum (drop 20 (?p @ ?h @ ?r)) 64 = Inr (inet_csum ([ICMP_TYPE_ECHO, 0] @ [0, 0]))"
    using len icmp_csum by (simp add: csum_inet)
  have s4: "memcpy (?p @ ?h @ ?r) 22 (le16 (inet_csum ([ICMP_TYPE_ECHO, 0] @ [0, 0]))) =
      Inr (?p @ icmp_echo @ replicate 48 0 @ ?r)"
  proof -
    have "?h = [ICMP_TYPE_ECHO, 0, 0, 0] @ replicate 12 0 @ replicate 48 0"
      by (simp add: numeral_eq_Suc)
    then show ?thesis using len by (simp add: memcpy_def icmp_echo_def)
  qed
  have s5: "ip_build_and_send pf (ip\<lparr>pkt := ?p @ icmp_echo @ replicate 48 0 @ ?r\<rparr>) (20 + 16) IP_ICMP d =
      Inr (icmp_sent ip, puts pf (slip_frame esc_byte (icmp_request ip)) d)"
    using len by (subst ip_build_and_send_ok)
      (simp_all add: icmp_sent_def icmp_request_def ip_packet_def)
  show ?thesis
    unfolding icmp_try_def s1 s2 s3 s4 s5 rbind_Inr prod.case
    by (simp add: size icmp_sent_def)
qed

lemma length_pkt_icmp_sent: "icmp_ready ip \<Longrightarrow> length (pkt (icmp_sent ip)) = length (pkt ip)"
  by (simp add: icmp_ready_def icmp_sent_def icmp_request_def)

lemma icmp_ready_sent:
  "icmp_ready ip \<Longrightarrow> icmp_ready (icmp_sent ip)"
  "icmp_ready ip \<Longrightarrow> length p = length (pkt ip) \<Longrightarrow> icmp_ready ((icmp_sent ip)\<lparr>pkt := p\<rparr>)"
  by (simp_all add: icmp_ready_def icmp_sent_def icmp_request_def)

lemma icmp_try_safe:
  assumes "icmp_ready ip"
  shows "holds_res (\<lambda>(len, ip', d'). icmp_ready ip' \<and> len \<le> max (- EAGAIN pf) (int (length (pkt ip'))))
    (icmp_try pf fuel ip d)"
proof -
  have "holds_res (recv_safe pf (length (pkt ip)) (pkt (icmp_sent ip)))
      (recv_packet pf fuel (pkt (icmp_sent ip)) (int (length (pkt ip))) RS232_TPS d')" for d'
    using assms by (intro recv_packet_safe) (simp add: length_pkt_icmp_sent)
  then show ?thesis
    unfolding icmp_try_ok [OF assms]
    by (rule holds_res_rbindI)
      (use assms in \<open>auto simp: recv_safe_def icmp_ready_sent length_pkt_icmp_sent\<close>)
qed

lemma icmp_check_eq:
  assumes "28 \<le> length p"
  shows "icmp_check len p = Inr (if 28 \<le> len \<and> p ! 0 = 0x45 \<and> p ! 9 = IP_ICMP \<and>
    p ! 20 = ICMP_TYPE_ECHO_REPLY then 0 else - 1)"
proof -
  have "0 < length p" "9 < length p" "20 < length p" using assms by linarith+
  then show ?thesis by (simp add: icmp_check_def rd_ok del: length_greater_0_conv)
qed

lemma icmp_again_safe:
  assumes "icmp_ready ip"
  shows "holds_res (\<lambda>(rc, ip', d'). icmp_ready ip' \<and> (rc = 0 \<or> rc = - 1)) (icmp_again pf fuel left ip d)"
proof -
  have check: "holds_res (\<lambda>(rc, ip', d'). icmp_ready ip' \<and> (rc = 0 \<or> rc = - 1))
      (rbind (icmp_check len (pkt ip)) (\<lambda>rc. Inr (rc, ip, d)))" if "icmp_ready ip" for len ip d
  proof -
    from that have "28 \<le> length (pkt ip)" by (simp add: icmp_ready_def)
    with that show ?thesis by (simp add: icmp_check_eq)
  qed
  from assms show ?thesis
  proof (induction left arbitrary: ip d)
    case 0
    show ?case
      unfolding icmp_again.simps [of pf fuel 0]
      by (rule holds_res_rbindI [OF icmp_try_safe [OF 0]]) (auto simp: check)
  next
    case (Suc left)
    show ?case
      unfolding icmp_again.simps [of pf fuel "Suc left"]
      by (rule holds_res_rbindI [OF icmp_try_safe [OF Suc.prems]]) (auto simp: check Suc.IH)
  qed
qed

text \<open>The first frame that arrives decides the result.\<close>

lemma icmp_again_reply:
  assumes "icmp_ready ip" and "0 < EAGAIN pf"
    and "reads pf (noise @ map Some (slip_frame esc_byte reply))
      (puts pf (slip_frame esc_byte (icmp_request ip)) d) d'"
    and "Some END \<notin> set noise" and "length noise < 79"
    and "reply \<noteq> []" and "length reply \<le> length (pkt ip)" and "length reply < fuel"
  shows "icmp_again pf fuel left ip d =
    Inr (if 28 \<le> length reply \<and> reply ! 0 = 0x45 \<and> reply ! 9 = IP_ICMP \<and> reply ! 20 = ICMP_TYPE_ECHO_REPLY
         then 0 else - 1,
         (icmp_sent ip)\<lparr>pkt := reply @ drop (length reply) (pkt (icmp_sent ip))\<rparr>, d')"
proof -
  let ?ip = "(icmp_sent ip)\<lparr>pkt := reply @ drop (length reply) (pkt (icmp_sent ip))\<rparr>"
  from assms(1) have L: "0 < length (pkt ip)" "84 \<le> length (pkt ip)"
    by (auto simp: icmp_ready_def)
  have "recv_packet pf fuel (pkt (icmp_sent ip)) (int (length (pkt ip))) RS232_TPS
      (puts pf (slip_frame esc_byte (icmp_request ip)) d) =
      Inr (int (length reply), reply @ drop (length reply) (pkt (icmp_sent ip)), d')"
    using recv_packet_frame [OF assms(3,4), of RS232_TPS "length (pkt ip)" "pkt (icmp_sent ip)" fuel]
      assms L length_pkt_icmp_sent [OF assms(1)] by (simp add: min.absorb2)
  then have "icmp_try pf fuel ip d = Inr (int (length reply), ?ip, d')"
    by (simp add: icmp_try_ok [OF assms(1)])
  moreover have "28 \<le> length (pkt ?ip)"
    using assms(7) L length_pkt_icmp_sent [OF assms(1)] by simp
  moreover have "int (length reply) \<noteq> - EAGAIN pf" using assms(2) by linarith
  ultimately show ?thesis
    unfolding icmp_again.simps [of pf fuel left]
    by (auto simp: icmp_check_eq nth_append)
qed

text \<open>The identifications of successive tries count up from the one in the context.\<close>

definition icmp_requests :: "nat \<Rightarrow> ip_context \<Rightarrow> bytes" where
  "icmp_requests n ip =
     concat (map (\<lambda>i. slip_frame esc_byte (icmp_request (ip\<lparr>ip_id := ip_id ip + of_nat i\<rparr>))) [0..<n])"

lemma icmp_request_id:
  "icmp_request ((icmp_sent ip)\<lparr>ip_id := i\<rparr>) = icmp_request (ip\<lparr>ip_id := i\<rparr>)"
  by (simp add: icmp_request_def icmp_sent_def ip_header_def ip_addrs_def)

lemma icmp_requests_Suc:
  "icmp_requests (Suc n) ip = slip_frame esc_byte (icmp_request ip) @ icmp_requests n (icmp_sent ip)"
proof -
  have "[0..<Suc n] = 0 # map Suc [0..<n]" by (simp only: map_Suc_upt upt_conv_Cons zero_less_Suc)
  then show ?thesis
    by (simp only: icmp_requests_def list.map concat.simps map_map comp_def icmp_request_id)
      (simp add: icmp_sent_def add.assoc)
qed

lemma icmp_try_quiet:
  assumes "quiet_line pf I tx" and "I d" and "icmp_ready ip"
  shows "\<exists>d'. icmp_try pf fuel ip d = Inr (- EAGAIN pf, icmp_sent ip, d') \<and> I d' \<and>
    tx d' = tx d @ slip_frame esc_byte (icmp_request ip)"
proof -
  let ?d = "puts pf (slip_frame esc_byte (icmp_request ip)) d"
  from quiet_line_puts [OF assms(1,2)] have "I ?d" "tx ?d = tx d @ slip_frame esc_byte (icmp_request ip)"
    by blast+
  with quiet_line_recv [OF assms(1), of ?d fuel "pkt (icmp_sent ip)" "int (length (pkt ip))" RS232_TPS]
  show ?thesis by (auto simp: icmp_try_ok [OF assms(3)])
qed

lemma icmp_again_quiet:
  assumes "quiet_line pf I tx" and "I d" and "icmp_ready ip"
  shows "\<exists>ip' d'. icmp_again pf fuel left ip d = Inr (- 1, ip', d') \<and>
    tx d' = tx d @ icmp_requests (Suc left) ip \<and> ip_id ip' = ip_id ip + of_nat (Suc left)"
  using assms(2,3)
proof (induction left arbitrary: ip d)
  case 0
  from icmp_try_quiet [OF assms(1) 0, of fuel] obtain d' where
    "icmp_try pf fuel ip d = Inr (- EAGAIN pf, icmp_sent ip, d')"
    "tx d' = tx d @ slip_frame esc_byte (icmp_request ip)" by blast
  then show ?case
    by (simp add: icmp_again.simps [of pf fuel 0] icmp_requests_Suc)
      (simp add: icmp_requests_def icmp_sent_def)
next
  case (Suc left)
  from icmp_try_quiet [OF assms(1) Suc.prems, of fuel] obtain d1 where
    tried: "icmp_try pf fuel ip d = Inr (- EAGAIN pf, icmp_sent ip, d1)" and d1: "I d1"
      "tx d1 = tx d @ slip_frame esc_byte (icmp_request ip)" by blast
  from Suc.IH [OF d1(1) icmp_ready_sent(1) [OF Suc.prems(2)]] obtain ip' d' where
    IH: "icmp_again pf fuel left (icmp_sent ip) d1 = Inr (- 1, ip', d')"
      "tx d' = tx d1 @ icmp_requests (Suc left) (icmp_sent ip)"
      "ip_id ip' = ip_id (icmp_sent ip) + of_nat (Suc left)" by blast
  have "ip_id ip' = ip_id ip + of_nat (Suc (Suc left))"
    using IH(3) by (simp add: icmp_sent_def)
  moreover have "icmp_again pf fuel (Suc left) ip d = Inr (- 1, ip', d')"
    using IH(1) by (simp add: icmp_again.simps [of pf fuel "Suc left"] tried)
  ultimately show ?case
    using IH(2) d1 by (auto simp: icmp_requests_Suc [of "Suc left"])
qed

text \<open>
  Any line: something without an END, such as silence, and then nothing or a frame. A try takes 79 reads
  when no frame begins in them, so that what is on the line before the reply tells how often the request
  has been sent.
\<close>

definition answer_line :: "u8 option list \<Rightarrow> bytes option \<Rightarrow> u8 option list \<Rightarrow> u8 option list" where
  "answer_line noise reply rx = noise @ (case reply of None \<Rightarrow> [] | Some m \<Rightarrow> map Some (slip_frame esc_byte m) @ rx)"

lemma icmp_try_silent:
  assumes "icmp_ready ip" and "Some END \<notin> set noise" and "reply = None \<or> 79 \<le> length noise"
  shows "icmp_try script_line fuel ip (answer_line noise reply rx, tx) =
    Inr (- 11, icmp_sent ip, (answer_line (drop 79 noise) reply rx, tx @ slip_frame esc_byte (icmp_request ip)))"
proof -
  let ?line = "answer_line noise reply rx" and ?tx = "tx @ slip_frame esc_byte (icmp_request ip)"
  let ?es = "take 79 ?line @ replicate (79 - length ?line) None"
  have line: "take 79 ?line = take 79 noise" "drop 79 ?line = answer_line (drop 79 noise) reply rx"
    using assms(3) by (auto simp: answer_line_def)
  have "Some END \<notin> set ?es" using assms(2) by (auto simp: line(1) dest: in_set_takeD)
  moreover have "length ?es = unat (RS232_TPS - 1)" by simp
  ultimately have "recv_packet script_line fuel p n RS232_TPS (?line, ?tx) = Inr (- EAGAIN script_line, p, (drop 79 ?line, ?tx))" for p n
    by (rule recv_packet_idle [OF reads_script_take])
  then show ?thesis
    unfolding icmp_try_ok [OF assms(1)] puts_script by (simp add: line(2))
qed

lemma icmp_requests_1: "icmp_requests (Suc 0) ip = slip_frame esc_byte (icmp_request ip)"
  by (simp add: icmp_requests_Suc) (simp add: icmp_requests_def)

lemma icmp_again_framed:
  assumes "icmp_ready ip" and "Some END \<notin> set noise"
    and "\<forall>m. reply = Some m \<longrightarrow> m \<noteq> [] \<and> length m \<le> length (pkt ip) \<and> length m < fuel"
    and "\<not> (reply = None \<or> 79 \<le> length noise)"
  shows "\<exists>ip' rx'. icmp_again script_line fuel left ip (answer_line noise reply rx, tx) =
      Inr (if \<exists>m. reply = Some m \<and> length noise < Suc left * 79 \<and> 28 \<le> length m \<and> m ! 0 = 0x45 \<and> m ! 9 = IP_ICMP \<and> m ! 20 = ICMP_TYPE_ECHO_REPLY
           then 0 else - 1,
        ip', (rx', tx @ icmp_requests (if reply = None then Suc left else min (Suc left) (length noise div 79 + 1)) ip)) \<and>
    daddr ip' = daddr ip"
proof -
  from assms(4) obtain m where m: "reply = Some m" "length noise < 79" by auto
  then have "length noise < Suc left * 79" "length noise div 79 = 0" by simp_all
  moreover have "reads script_line (noise @ map Some (slip_frame esc_byte m))
      (puts script_line (slip_frame esc_byte (icmp_request ip)) (answer_line noise reply rx, tx)) (rx, tx @ slip_frame esc_byte (icmp_request ip))"
    using reads_script [of "noise @ map Some (slip_frame esc_byte m)" rx] by (simp add: puts_script answer_line_def m(1))
  from icmp_again_reply [OF assms(1) _ this assms(2) m(2), of fuel left] assms(3) m(1)
  have "icmp_again script_line fuel left ip (answer_line noise reply rx, tx) =
      Inr (if 28 \<le> length m \<and> m ! 0 = 0x45 \<and> m ! 9 = IP_ICMP \<and> m ! 20 = ICMP_TYPE_ECHO_REPLY then 0 else - 1,
        (icmp_sent ip)\<lparr>pkt := m @ drop (length m) (pkt (icmp_sent ip))\<rparr>, (rx, tx @ slip_frame esc_byte (icmp_request ip)))" by simp
  ultimately show ?thesis
    using m(1) icmp_requests_1 [of ip] by (simp add: min_def icmp_sent_def)
qed

lemma icmp_again_line:
  assumes "icmp_ready ip" and "Some END \<notin> set noise"
    and "\<forall>m. reply = Some m \<longrightarrow> m \<noteq> [] \<and> length m \<le> length (pkt ip) \<and> length m < fuel"
  shows "\<exists>ip' rx'. icmp_again script_line fuel left ip (answer_line noise reply rx, tx) =
      Inr (if \<exists>m. reply = Some m \<and> length noise < Suc left * 79 \<and> 28 \<le> length m \<and> m ! 0 = 0x45 \<and> m ! 9 = IP_ICMP \<and> m ! 20 = ICMP_TYPE_ECHO_REPLY
           then 0 else - 1,
        ip', (rx', tx @ icmp_requests (if reply = None then Suc left else min (Suc left) (length noise div 79 + 1)) ip)) \<and>
    daddr ip' = daddr ip"
  using assms
proof (induction left arbitrary: ip noise tx)
  case 0
  show ?case
  proof (cases "reply = None \<or> 79 \<le> length noise")
    case True
    then show ?thesis
      using icmp_try_silent [OF "0.prems"(1,2) True, of fuel rx tx]
      by (auto simp: icmp_again.simps [of _ _ 0] icmp_requests_1 icmp_sent_def)
  next
    case False
    then show ?thesis using icmp_again_framed [OF "0.prems", of 0 rx tx] by auto
  qed
next
  case (Suc left)
  show ?case
  proof (cases "reply = None \<or> 79 \<le> length noise")
    case True
    note tried = icmp_try_silent [OF Suc.prems(1,2) True, of fuel rx tx]
    have "Some END \<notin> set (drop 79 noise)" using Suc.prems(2) by (auto dest: in_set_dropD)
    from Suc.IH [OF icmp_ready_sent(1) [OF Suc.prems(1)] this, of "tx @ slip_frame esc_byte (icmp_request ip)"] Suc.prems(3)
      length_pkt_icmp_sent [OF Suc.prems(1)] obtain ip' rx' where
      r: "icmp_again script_line fuel left (icmp_sent ip) (answer_line (drop 79 noise) reply rx, tx @ slip_frame esc_byte (icmp_request ip)) =
        Inr (if \<exists>m. reply = Some m \<and> length (drop 79 noise) < Suc left * 79 \<and> 28 \<le> length m \<and> m ! 0 = 0x45 \<and> m ! 9 = IP_ICMP \<and>
            m ! 20 = ICMP_TYPE_ECHO_REPLY then 0 else - 1,
          ip', (rx', (tx @ slip_frame esc_byte (icmp_request ip)) @
            icmp_requests (if reply = None then Suc left else min (Suc left) (length (drop 79 noise) div 79 + 1)) (icmp_sent ip)))"
      and d: "daddr ip' = daddr (icmp_sent ip)" by auto
    have "reply = None \<or> length (drop 79 noise) div 79 + 1 = length noise div 79"
      using True le_div_geq [of 79 "length noise"] by auto
    then have n: "(if reply = None then Suc (Suc left) else min (Suc (Suc left)) (length noise div 79 + 1)) =
        Suc (if reply = None then Suc left else min (Suc left) (length (drop 79 noise) div 79 + 1))" by auto
    have lt: "reply = Some m \<and> length (drop 79 noise) < Suc left * 79 \<longleftrightarrow> reply = Some m \<and> length noise < Suc (Suc left) * 79" for m
      using True by auto
    have again: "icmp_again script_line fuel (Suc left) ip (answer_line noise reply rx, tx) =
        icmp_again script_line fuel left (icmp_sent ip) (answer_line (drop 79 noise) reply rx, tx @ slip_frame esc_byte (icmp_request ip))"
      by (subst icmp_again.simps) (simp add: tried)
    have alive: "(\<exists>m. reply = Some m \<and> length (drop 79 noise) < Suc left * 79 \<and> 28 \<le> length m \<and> m ! 0 = 0x45 \<and> m ! 9 = IP_ICMP \<and>
          m ! 20 = ICMP_TYPE_ECHO_REPLY) \<longleftrightarrow>
        (\<exists>m. reply = Some m \<and> length noise < Suc (Suc left) * 79 \<and> 28 \<le> length m \<and> m ! 0 = 0x45 \<and> m ! 9 = IP_ICMP \<and>
          m ! 20 = ICMP_TYPE_ECHO_REPLY)" using lt by blast
    have "daddr (icmp_sent ip) = daddr ip" by (simp add: icmp_sent_def)
    with d r [unfolded alive append.assoc] show ?thesis
      unfolding again n icmp_requests_Suc [of "if reply = None then Suc left else min (Suc left) (length (drop 79 noise) div 79 + 1)"]
      by (intro exI [of _ ip'] exI [of _ rx'] conjI) simp_all
  next
    case False
    then show ?thesis using icmp_again_framed [OF Suc.prems, of "Suc left" rx tx] by auto
  qed
qed

section \<open>Properties\<close>

text \<open>The context of \<^verbatim>\<open>ping.c\<close>, with its buffer of \<^verbatim>\<open>ICMP_BUF_SIZE\<close> bytes.\<close>

definition ping_ctx :: ip_context where
  "ping_ctx = \<lparr>saddr = 0x020200c0, daddr = 0x010200c0, pkt_size = 112, ip_id = 0, pkt = replicate 112 0\<rparr>"

lemma icmp_ready_ping_ctx: "icmp_ready ping_ctx"
  by (simp add: icmp_ready_def ping_ctx_def)

text \<open>
  C21: the echo request on the wire is valid, although its checksum is computed over 64 bytes
  and only 16 of them are sent. One transmission sends an IPv4 packet of 36 bytes, every field of
  whose header is the one it has to be (version and length, the total length in network order,
  the identification, no fragment, TTL 64, protocol ICMP, source and destination address), whose header
  checksum verifies, and whose message is an echo request, code 0 and otherwise zeros, that
  verifies over exactly the bytes that were sent. Then the reply is waited for, in the buffer that holds the packet,
  with the identification counted up.
\<close>

theorem icmp_request_valid:
  assumes "icmp_ready ip"
  shows "\<exists>m rest. icmp_try pf fuel ip d =
      rbind (recv_packet pf fuel (m @ rest) (int (length (pkt ip))) RS232_TPS (puts pf (slip_frame esc_byte m) d))
        (\<lambda>(len, p, d). Inr (len, ip\<lparr>ip_id := ip_id ip + 1, pkt := p\<rparr>, d)) \<and>
    length m = 36 \<and> length (m @ rest) = length (pkt ip) \<and>
    take 20 m = [0x45, 0] @ be16 36 @ le16 (ip_id ip) @ [0, 0, 64, IP_ICMP] @ take 2 (drop 10 m) @ le32 (saddr ip) @ le32 (daddr ip) \<and>
    csum m 20 = Inr 0 \<and>
    drop 20 m = [ICMP_TYPE_ECHO, 0] @ take 2 (drop 22 m) @ replicate 12 0 \<and> csum (drop 20 m) 16 = Inr 0"
proof (intro exI conjI)
  let ?rest = "replicate 48 0 @ drop 84 (pkt ip)"
  show "icmp_try pf fuel ip d =
      rbind (recv_packet pf fuel (icmp_request ip @ ?rest) (int (length (pkt ip))) RS232_TPS
        (puts pf (slip_frame esc_byte (icmp_request ip)) d))
      (\<lambda>(len, p, d). Inr (len, ip\<lparr>ip_id := ip_id ip + 1, pkt := p\<rparr>, d))"
    using icmp_try_ok [OF assms] by (simp add: icmp_sent_def)
  show "length (icmp_request ip @ ?rest) = length (pkt ip)" using length_pkt_icmp_sent [OF assms] by (simp add: icmp_sent_def)
  show "take 20 (icmp_request ip) = [0x45, 0] @ be16 36 @ le16 (ip_id ip) @ [0, 0, 64, IP_ICMP] @
      take 2 (drop 10 (icmp_request ip)) @ le32 (saddr ip) @ le32 (daddr ip)"
    unfolding icmp_request_def by (rule ip_header_fields)
  show "csum (icmp_request ip) 20 = Inr 0" "csum (drop 20 (icmp_request ip)) 16 = Inr 0"
    by (simp_all add: icmp_request_def csum_inet ip_header_verifies icmp_echo_verifies)
  show "drop 20 (icmp_request ip) = [ICMP_TYPE_ECHO, 0] @ take 2 (drop 22 (icmp_request ip)) @ replicate 12 0"
    by (simp add: icmp_request_def icmp_echo_def)
qed (simp add: icmp_request_def)

theorem icmp_request_valid_witness:
  "\<exists>m rest. icmp_try script_line 9 ping_ctx ([], []) =
      rbind (recv_packet script_line 9 (m @ rest) (int (length (pkt ping_ctx))) RS232_TPS
          (puts script_line (slip_frame esc_byte m) ([], [])))
        (\<lambda>(len, p, d). Inr (len, ping_ctx\<lparr>ip_id := ip_id ping_ctx + 1, pkt := p\<rparr>, d)) \<and>
    length m = 36 \<and> length (m @ rest) = length (pkt ping_ctx) \<and>
    take 20 m = [0x45, 0] @ be16 36 @ le16 (ip_id ping_ctx) @ [0, 0, 64, IP_ICMP] @ take 2 (drop 10 m) @
      le32 (saddr ping_ctx) @ le32 (daddr ping_ctx) \<and>
    csum m 20 = Inr 0 \<and>
    drop 20 m = [ICMP_TYPE_ECHO, 0] @ take 2 (drop 22 m) @ replicate 12 0 \<and> csum (drop 20 m) 16 = Inr 0"
  by (rule icmp_request_valid [OF icmp_ready_ping_ctx])

text \<open>
  The first frame that arrives decides the ping. \<^verbatim>\<open>icmp_echo_request\<close> returns 0 exactly when
  that frame is an option-less IPv4 packet of at least 28 bytes that carries an ICMP echo
  reply, and -1 for every other frame, without a further try.
\<close>

lemma icmp_echo_reply:
  assumes "icmp_ready ip" and "0 < EAGAIN pf"
    and "reads pf (noise @ map Some (slip_frame esc_byte reply))
      (puts pf (slip_frame esc_byte (icmp_request ip)) d) d'"
    and "Some END \<notin> set noise" and "length noise < 79"
    and "reply \<noteq> []" and "length reply \<le> length (pkt ip)" and "length reply < fuel"
  shows "\<exists>ip'. icmp_echo_request pf fuel ip d =
    Inr (if 28 \<le> length reply \<and> reply ! 0 = 0x45 \<and> reply ! 9 = IP_ICMP \<and> reply ! 20 = ICMP_TYPE_ECHO_REPLY
         then 0 else - 1, ip', d') \<and> take (length reply) (pkt ip') = reply"
  using icmp_again_reply [OF assms, of 4] by (simp add: icmp_echo_request_def)

text \<open>
  The ping gives up. On a line where nobody answers, \<^verbatim>\<open>icmp_echo_request\<close> returns -1 whatever
  the fuel, after exactly five requests whose identifications count up.
\<close>

theorem icmp_echo_gives_up:
  assumes "quiet_line pf I tx" and "I d" and "icmp_ready ip"
  shows "\<exists>ip' d'. icmp_echo_request pf fuel ip d = Inr (- 1, ip', d') \<and>
    tx d' = tx d @ concat (map (\<lambda>i. slip_frame esc_byte (icmp_request (ip\<lparr>ip_id := ip_id ip + of_nat i\<rparr>))) [0..<5]) \<and>
    ip_id ip' = ip_id ip + 5"
  using icmp_again_quiet [OF assms, of fuel 4]
  by (simp add: icmp_echo_request_def icmp_requests_def)

theorem icmp_echo_gives_up_witness:
  "\<exists>ip' d'. icmp_echo_request script_line 0 ping_ctx ([], []) = Inr (- 1, ip', d') \<and>
    snd d' = snd ([] :: u8 option list, []) @ concat (map (\<lambda>i. slip_frame esc_byte
      (icmp_request (ping_ctx\<lparr>ip_id := ip_id ping_ctx + of_nat i\<rparr>))) [0..<5]) \<and>
    ip_id ip' = ip_id ping_ctx + 5"
  by (rule icmp_echo_gives_up [OF quiet_script _ icmp_ready_ping_ctx]) simp

text \<open>
  \<^verbatim>\<open>icmp_echo_request\<close> is memory safe on every device: with a buffer of at least 84 bytes it
  never touches memory outside the buffer, keeps the buffer's size, and returns 0 or -1.
\<close>

theorem icmp_echo_request_safe:
  assumes "icmp_ready ip"
  shows "holds_res (\<lambda>(rc, ip', d'). icmp_ready ip' \<and> (rc = 0 \<or> rc = - 1)) (icmp_echo_request pf fuel ip d)"
  unfolding icmp_echo_request_def using assms by (rule icmp_again_safe)

theorem icmp_echo_request_safe_witness:
  "holds_res (\<lambda>(rc, ip', d'). icmp_ready ip' \<and> (rc = 0 \<or> rc = - 1))
    (icmp_echo_request script_line 3 ping_ctx ([Some END, Some 9, Some END], []))"
  by (rule icmp_echo_request_safe [OF icmp_ready_ping_ctx])

end
