(* ===== verification/Tcp.thy ===== *)
theory Tcp
  imports Icmp
begin

text \<open>
  The transport layer, \<^verbatim>\<open>tcp.c\<close> and \<^verbatim>\<open>tcp.h\<close>: one connection, half duplex, one packet buffer for
  both directions. \<^verbatim>\<open>tcp_send\<close> and \<^verbatim>\<open>tcp_recv_timeout\<close> call each other and both loop until the
  peer lets them go, so they are one group of definitions with fuel; every turn of a loop and
  every call of the group takes one unit.
\<close>

section \<open>State\<close>

abbreviation TCP_FIN :: u8 where "TCP_FIN \<equiv> 0x01"
abbreviation TCP_SYN :: u8 where "TCP_SYN \<equiv> 0x02"
abbreviation TCP_RST :: u8 where "TCP_RST \<equiv> 0x04"
abbreviation TCP_PSH :: u8 where "TCP_PSH \<equiv> 0x08"
abbreviation TCP_ACK :: u8 where "TCP_ACK \<equiv> 0x10"

abbreviation ERESET :: int where "ERESET \<equiv> 20"

text \<open>
  \<^verbatim>\<open>tcp_context_t\<close>. The ports are kept in network order, so as 16-bit words of a little-endian
  machine they are written to memory with \<open>le16\<close>.
\<close>

record tcp_context =
  tcp_ip :: ip_context
  dst_port :: u16
  src_port :: u16
  tcp_seq :: u32
  tcp_ack :: u32
  tcp_ths :: u8

abbreviation tcp_pkt :: "tcp_context \<Rightarrow> bytes" where
  "tcp_pkt tcp \<equiv> pkt (tcp_ip tcp)"

definition set_pkt :: "bytes \<Rightarrow> tcp_context \<Rightarrow> tcp_context" where
  "set_pkt p tcp = tcp\<lparr>tcp_ip := (tcp_ip tcp)\<lparr>pkt := p\<rparr>\<rparr>"

section \<open>Sending\<close>

text \<open>The flags of an outgoing segment.\<close>

definition tcp_out_flags :: "tcp_context \<Rightarrow> nat \<Rightarrow> u8" where
  "tcp_out_flags tcp len =
     (if tcp_seq tcp = 1 then TCP_SYN
      else if len \<noteq> 0 then TCP_ACK OR TCP_PSH else TCP_ACK)"

text \<open>
  From the label \<^verbatim>\<open>again\<close> to the checksum: the segment and, in the last twelve bytes of what
  will be the IP header, the pseudo header. \<^verbatim>\<open>ptr\<close> is byte 20 of the packet.
\<close>

definition tcp_build :: "tcp_context \<Rightarrow> nat \<Rightarrow> bytes option \<Rightarrow> u16 \<Rightarrow> bytes res" where
  "tcp_build tcp len data window =
     rbind (memset (tcp_pkt tcp) 20 0 20) (\<lambda>p.
     rbind (case data of None \<Rightarrow> Inr p
            | Some m \<Rightarrow> rbind (rd_bytes m 0 len) (memcpy p (20 + 20))) (\<lambda>p.
     rbind (memcpy p (20 + 0) (le16 (src_port tcp))) (\<lambda>p.
     rbind (memcpy p (20 + 2) (le16 (dst_port tcp))) (\<lambda>p.
     rbind (memcpy p (20 + 4) (le32 (htonl (tcp_seq tcp)))) (\<lambda>p.
     rbind (memcpy p (20 + 8) (le32 (htonl (tcp_ack tcp)))) (\<lambda>p.
     rbind (wr p (20 + 12) 0x50) (\<lambda>p.
     rbind (wr p (20 + 13) (tcp_out_flags tcp len)) (\<lambda>p.
     rbind (memcpy p (20 - 12) (le32 (saddr (tcp_ip tcp)))) (\<lambda>p.
     rbind (memcpy p (20 - 8) (le32 (daddr (tcp_ip tcp)))) (\<lambda>p.
     rbind (wr p (20 - 4) 0) (\<lambda>p.
     rbind (wr p (20 - 3) IP_TCP) (\<lambda>p.
     rbind (memcpy p (20 - 2) (le16 (htons (word_of_nat (20 + len))))) (\<lambda>p.
     rbind (memcpy p (20 + 14) (le16 (htons window))) (\<lambda>p.
     rbind (csum (drop (20 - 12) p) (12 + 20 + len)) (\<lambda>cs.
     memcpy p (20 + 16) (le16 cs))))))))))))))))"

text \<open>
  One transmission. The code passes the structure \<^verbatim>\<open>tcp->ip\<close> where \<^verbatim>\<open>ip_build_and_send\<close> takes its
  address; the compiler it is written for passes the address.
\<close>

definition tcp_xmit ::
  "'d platform \<Rightarrow> tcp_context \<Rightarrow> nat \<Rightarrow> bytes option \<Rightarrow> u16 \<Rightarrow> 'd \<Rightarrow> (tcp_context \<times> 'd) res" where
  "tcp_xmit pf tcp len data window d =
     rbind (tcp_build tcp len data window) (\<lambda>p.
     rbind (ip_build_and_send pf ((tcp_ip tcp)\<lparr>pkt := p\<rparr>) (word_of_nat (20 + 20 + len)) IP_TCP d)
       (\<lambda>(ip, d). Inr (tcp\<lparr>tcp_ip := ip\<rparr>, d)))"

section \<open>Receiving\<close>

text \<open>The sanity checks: \<open>Some rc\<close> is an early return.\<close>

definition tcp_sanity :: "'d platform \<Rightarrow> tcp_context \<Rightarrow> int \<Rightarrow> int option res" where
  "tcp_sanity pf tcp len =
     (let p = tcp_pkt tcp in
      if len < 0 then Inr (Some len)
      else if len < 20 + 20 then Inr (Some (- EAGAIN pf))
      else rbind (rd p 0) (\<lambda>b. if b \<noteq> 0x45 then Inr (Some (- EAGAIN pf))
      else rbind (rd p 9) (\<lambda>b. if b \<noteq> IP_TCP then Inr (Some (- EAGAIN pf))
      else rbind (rd_bytes p 20 4) (\<lambda>b.
        if b \<noteq> le16 (dst_port tcp) @ le16 (src_port tcp) then Inr (Some (- EAGAIN pf))
      else rbind (rd p (20 + 13)) (\<lambda>b. if b AND TCP_RST \<noteq> 0 then Inr (Some (- ERESET))
      else Inr None)))))"

text \<open>
  What the code does next with a segment: return; go back to \<^verbatim>\<open>again\<close>; send the ACK of a
  SYN-ACK and return 0; send the ACK of data and return the amount of it.
\<close>

datatype tcp_action = Done int | Again | AckSyn | AckData

text \<open>The rest of \<^verbatim>\<open>tcp_recv_timeout\<close> up to its calls of \<^verbatim>\<open>tcp_send\<close>.\<close>

definition tcp_segment :: "tcp_context \<Rightarrow> int \<Rightarrow> (tcp_action \<times> tcp_context) res" where
  "tcp_segment tcp len =
     (let p = tcp_pkt tcp in
      rbind (rd p (20 + 12)) (\<lambda>b.
      let tcp = tcp\<lparr>tcp_ths := drop_bit 2 b\<rparr>; ths = int (unat (tcp_ths tcp)) in
      rbind (rd_u32 p (20 + 4)) (\<lambda>w. let seq = htonl w in
      rbind (rd_u32 p (20 + 8)) (\<lambda>w. let ack = htonl w in
      if tcp_seq tcp = 1 then
        (if ack \<noteq> tcp_seq tcp + 1 then Inr (Done (- ERESET), tcp)
         else rbind (rd p (20 + 13)) (\<lambda>b.
           if b AND TCP_SYN \<noteq> 0 then
             rbind (rd_u32 p (20 + 4)) (\<lambda>w.
               Inr (AckSyn, tcp\<lparr>tcp_seq := ack, tcp_ack := htonl w + 1\<rparr>))
           else Inr (Done (- 1), tcp)))
      else if seq + 1 = tcp_ack tcp \<and> len = 20 + ths then Inr (Again, tcp)
      else
        let tcp = (if tcp_seq tcp < ack then tcp\<lparr>tcp_seq := ack\<rparr> else tcp) in
        if len > 20 + ths then
          (if seq < tcp_ack tcp then Inr (Done 0, tcp)
           else
             let tcp = tcp\<lparr>tcp_ack := seq\<rparr>;
                 tcp = (if len > 20 + 20
                        then tcp\<lparr>tcp_ack := tcp_ack tcp + word_of_int (len - 20 - ths)\<rparr> else tcp)
             in Inr (AckData, tcp))
        else Inr (Done (len - 20 - ths), tcp)))))"

definition tcp_input :: "'d platform \<Rightarrow> tcp_context \<Rightarrow> int \<Rightarrow> (tcp_action \<times> tcp_context) res" where
  "tcp_input pf tcp len =
     rbind (tcp_sanity pf tcp len) (\<lambda>early.
       case early of Some rc \<Rightarrow> Inr (Done rc, tcp) | None \<Rightarrow> tcp_segment tcp len)"

text \<open>
  The three loops. \<open>tcp_send_from\<close> is \<^verbatim>\<open>tcp_send\<close> from its label \<^verbatim>\<open>again\<close>, with the count of
  retries made; \<open>tcp_recv_again\<close> is \<^verbatim>\<open>tcp_recv_timeout\<close> from its label \<^verbatim>\<open>again\<close>.
\<close>

function (sequential) tcp_send_from :: "'d platform \<Rightarrow> nat \<Rightarrow> nat \<Rightarrow> tcp_context \<Rightarrow> nat \<Rightarrow> bytes option \<Rightarrow> u16 \<Rightarrow> 'd \<Rightarrow>
      (int \<times> tcp_context \<times> 'd) res"
  and tcp_recv_timeout :: "'d platform \<Rightarrow> nat \<Rightarrow> tcp_context \<Rightarrow> u16 \<Rightarrow> u16 \<Rightarrow> 'd \<Rightarrow>
      (int \<times> tcp_context \<times> 'd) res"
  and tcp_recv_again :: "'d platform \<Rightarrow> nat \<Rightarrow> tcp_context \<Rightarrow> u16 \<Rightarrow> 'd \<Rightarrow>
      (int \<times> tcp_context \<times> 'd) res" where
  "tcp_send_from pf 0 retries tcp len data window d = Inl OutOfFuel"
| "tcp_send_from pf (Suc fuel) retries tcp len data window d =
     rbind (tcp_xmit pf tcp len data window d) (\<lambda>(tcp, d).
       if tcp_seq tcp > 1 \<and> len = 0 then Inr (0, tcp, d)
       else rbind (tcp_recv_timeout pf fuel tcp 0 RS232_TPS d) (\<lambda>(rc, tcp, d).
         if rc = - EAGAIN pf then
           (if retries < 5 then tcp_send_from pf fuel (Suc retries) tcp len data window d
            else Inr (- 1, tcp, d))
         else if rc < 0 then Inr (rc, tcp, d)
         else Inr (0, tcp, d)))"
| "tcp_recv_timeout pf 0 tcp len to d = Inl OutOfFuel"
| "tcp_recv_timeout pf (Suc fuel) tcp len to d =
     (let room = pkt_size (tcp_ip tcp) - 44; len = (if len > room then room else len) in
      if len \<noteq> 0 then
        rbind (tcp_send_from pf fuel 0 tcp 0 None len d) (\<lambda>(_, tcp, d). tcp_recv_again pf fuel tcp to d)
      else tcp_recv_again pf fuel tcp to d)"
| "tcp_recv_again pf 0 tcp to d = Inl OutOfFuel"
| "tcp_recv_again pf (Suc fuel) tcp to d =
     rbind (recv_packet pf fuel (tcp_pkt tcp) (sint (pkt_size (tcp_ip tcp))) to d) (\<lambda>(len, p, d).
     rbind (tcp_input pf (set_pkt p tcp) len) (\<lambda>(act, tcp).
       case act of
         Done rc \<Rightarrow> Inr (rc, tcp, d)
       | Again \<Rightarrow> tcp_recv_again pf fuel tcp to d
       | AckSyn \<Rightarrow> rbind (tcp_send_from pf fuel 0 tcp 0 None 0 d) (\<lambda>(_, tcp, d). Inr (0, tcp, d))
       | AckData \<Rightarrow> rbind (tcp_send_from pf fuel 0 tcp 0 None 0 d)
           (\<lambda>(_, tcp, d). Inr (len - 20 - int (unat (tcp_ths tcp)), tcp, d))))"
  by pat_completeness simp_all
termination
  by (relation "measure (\<lambda>x. case x of Inl (pf, fuel, _) \<Rightarrow> fuel | Inr (Inl (pf, fuel, _)) \<Rightarrow> fuel | Inr (Inr (pf, fuel, _)) \<Rightarrow> fuel)") simp_all

definition tcp_send ::
  "'d platform \<Rightarrow> nat \<Rightarrow> tcp_context \<Rightarrow> nat \<Rightarrow> bytes option \<Rightarrow> u16 \<Rightarrow> 'd \<Rightarrow> (int \<times> tcp_context \<times> 'd) res" where
  "tcp_send pf fuel tcp len data window d = tcp_send_from pf fuel 0 tcp len data window d"

definition tcp_recv ::
  "'d platform \<Rightarrow> nat \<Rightarrow> tcp_context \<Rightarrow> u16 \<Rightarrow> 'd \<Rightarrow> (int \<times> tcp_context \<times> 'd) res" where
  "tcp_recv pf fuel tcp len d = tcp_recv_timeout pf fuel tcp len RS232_TPS d"

section \<open>Connecting\<close>

text \<open>\<^verbatim>\<open>get_r_register\<close>: \<^verbatim>\<open>ld h,0 ; ld a,r ; ld l,a\<close>.\<close>

definition get_r_register :: "'d platform \<Rightarrow> 'd \<Rightarrow> u16 \<times> 'd" where
  "get_r_register pf d = (let (r, d) = r_register pf d in (ucast r, d))"

text \<open>The loop of \<^verbatim>\<open>tcp_connect\<close>; \<open>left\<close> is how many times it may still run.\<close>

fun tcp_connect_loop :: "'d platform \<Rightarrow> nat \<Rightarrow> nat \<Rightarrow> tcp_context \<Rightarrow> 'd \<Rightarrow> (int \<times> tcp_context \<times> 'd) res" where
  "tcp_connect_loop pf fuel 0 tcp d = Inr (- 1, tcp, d)"
| "tcp_connect_loop pf fuel (Suc left) tcp d =
     rbind (tcp_send pf fuel (tcp\<lparr>tcp_seq := 1, tcp_ack := 0\<rparr>) 0 None 1 d) (\<lambda>(rc, tcp, d).
       if rc \<ge> 0 then Inr (rc, tcp, d)
       else rbind (rd_u16 (tcp_pkt tcp) (20 + 16)) (\<lambda>cs.
         let tcp = tcp\<lparr>src_port := src_port tcp + cs\<rparr>;
             (r, d) = get_r_register pf d
         in tcp_connect_loop pf fuel left (tcp\<lparr>src_port := src_port tcp + r\<rparr>) d))"

definition tcp_connect :: "'d platform \<Rightarrow> nat \<Rightarrow> tcp_context \<Rightarrow> 'd \<Rightarrow> (int \<times> tcp_context \<times> 'd) res" where
  "tcp_connect pf fuel tcp d = tcp_connect_loop pf fuel 5 (tcp\<lparr>tcp_ths := 0\<rparr>) d"

text \<open>\<^verbatim>\<open>tcp_rx_buffer\<close> and \<^verbatim>\<open>tcp_tx_buffer\<close>: the packet from these offsets on.\<close>

definition tcp_rx_offset :: "tcp_context \<Rightarrow> nat" where
  "tcp_rx_offset tcp = 20 + unat (tcp_ths tcp)"

definition tcp_rx_buffer :: "tcp_context \<Rightarrow> bytes" where
  "tcp_rx_buffer tcp = drop (tcp_rx_offset tcp) (ip_buffer (tcp_ip tcp) 0)"

definition tcp_tx_buffer :: "tcp_context \<Rightarrow> bytes" where
  "tcp_tx_buffer tcp = drop (20 + 20) (ip_buffer (tcp_ip tcp) 0)"

section \<open>The segment on the wire\<close>

text \<open>
  The TCP segment of the specification: the header up to the checksum field, the pseudo
  header the checksum covers, and the whole segment.
\<close>

definition tcp_head :: "tcp_context \<Rightarrow> nat \<Rightarrow> u16 \<Rightarrow> bytes" where
  "tcp_head tcp len window =
     le16 (src_port tcp) @ le16 (dst_port tcp) @ be32 (tcp_seq tcp) @ be32 (tcp_ack tcp) @
     [0x50, tcp_out_flags tcp len] @ be16 window"

definition tcp_pseudo :: "tcp_context \<Rightarrow> nat \<Rightarrow> bytes" where
  "tcp_pseudo tcp len = ip_addrs (tcp_ip tcp) @ [0, IP_TCP] @ be16 (word_of_nat (20 + len))"

definition tcp_seg :: "tcp_context \<Rightarrow> u16 \<Rightarrow> bytes \<Rightarrow> bytes" where
  "tcp_seg tcp window payload =
     (let h = tcp_head tcp (length payload) window; q = tcp_pseudo tcp (length payload)
      in h @ le16 (inet_csum (q @ h @ [0, 0] @ [0, 0] @ payload)) @ [0, 0] @ payload)"

lemma length_tcp_head [simp]: "length (tcp_head tcp len w) = 16"
  by (simp add: tcp_head_def)

lemma length_tcp_pseudo [simp]: "length (tcp_pseudo tcp len) = 12"
  by (simp add: tcp_pseudo_def)

lemma length_tcp_seg [simp]: "length (tcp_seg tcp w payload) = 20 + length payload"
  by (simp add: tcp_seg_def Let_def)

lemma tcp_seg_verifies: "inet_csum (tcp_pseudo tcp (length payload) @ tcp_seg tcp w payload) = 0"
  using inet.ck_verify [of "tcp_pseudo tcp (length payload) @ tcp_head tcp (length payload) w" "[0, 0] @ payload"]
  by (simp add: tcp_seg_def Let_def)

text \<open>The payload of a transmission: the caller's data, or what is in the transmit buffer.\<close>

definition tcp_payload :: "tcp_context \<Rightarrow> nat \<Rightarrow> bytes option \<Rightarrow> bytes" where
  "tcp_payload tcp len data =
     (case data of None \<Rightarrow> take len (drop 40 (tcp_pkt tcp)) | Some m \<Rightarrow> take len m)"

definition data_ok :: "nat \<Rightarrow> bytes option \<Rightarrow> bool" where
  "data_ok len data = (case data of None \<Rightarrow> True | Some m \<Rightarrow> len \<le> length m)"

lemma length_tcp_payload:
  "len + 40 \<le> length (tcp_pkt tcp) \<Longrightarrow> data_ok len data \<Longrightarrow> length (tcp_payload tcp len data) = len"
  by (auto simp: tcp_payload_def data_ok_def split: option.splits)

lemma length_20_explicit:
  "length xs = 20 \<Longrightarrow> \<exists>a b c d e f g h i j k l m n o' p q r s t.
     xs = [a, b, c, d, e, f, g, h, i, j, k, l, m, n, o', p, q, r, s, t]"
  by (auto simp: numeral_eq_Suc length_Suc_conv)

lemma tcp_build_head:
  assumes "length hd20 = 20"
  shows "rbind (memcpy (hd20 @ replicate 20 0 @ tail) (20 + 0) (le16 (src_port tcp))) (\<lambda>p.
     rbind (memcpy p (20 + 2) (le16 (dst_port tcp))) (\<lambda>p.
     rbind (memcpy p (20 + 4) (be32 (tcp_seq tcp))) (\<lambda>p.
     rbind (memcpy p (20 + 8) (be32 (tcp_ack tcp))) (\<lambda>p.
     rbind (memcpy p (20 + 12) [0x50]) (\<lambda>p.
     rbind (memcpy p (20 + 13) [tcp_out_flags tcp len]) (\<lambda>p.
     rbind (memcpy p (20 - 12) (le32 (saddr (tcp_ip tcp)))) (\<lambda>p.
     rbind (memcpy p (20 - 8) (le32 (daddr (tcp_ip tcp)))) (\<lambda>p.
     rbind (memcpy p (20 - 4) [0]) (\<lambda>p.
     rbind (memcpy p (20 - 3) [IP_TCP]) (\<lambda>p.
     rbind (memcpy p (20 - 2) (be16 (word_of_nat (20 + len)))) (\<lambda>p.
     memcpy p (20 + 14) (be16 window)))))))))))) =
     Inr (take 8 hd20 @ tcp_pseudo tcp len @ tcp_head tcp len window @ [0, 0] @ [0, 0] @ tail)"
proof -
  have z: "replicate 20 (0 :: u8) = [0, 0, 0, 0, 0, 0, 0, 0, 0, 0, 0, 0, 0, 0, 0, 0, 0, 0, 0, 0]"
    by (simp add: numeral_eq_Suc)
  from length_20_explicit [OF assms(1)] show ?thesis
    by (elim exE) (simp add: z memcpy_def tcp_pseudo_def tcp_head_def ip_addrs_def
        be16_def le16_def le32_def be32_def)
qed

lemma tcp_build_ok:
  assumes "len + 40 \<le> length (tcp_pkt tcp)" and "length (tcp_pkt tcp) < 65536" and "data_ok len data"
  shows "tcp_build tcp len data window =
    Inr (take 8 (tcp_pkt tcp) @ tcp_pseudo tcp len @ tcp_seg tcp window (tcp_payload tcp len data) @
         drop (40 + len) (tcp_pkt tcp))"
proof -
  let ?p = "tcp_pkt tcp" and ?pl = "tcp_payload tcp len data"
  let ?tail = "?pl @ drop (40 + len) ?p"
  let ?m = "take 8 ?p @ tcp_pseudo tcp len @ tcp_head tcp len window @ [0, 0] @ [0, 0] @ ?tail"
  let ?cs = "inet_csum (tcp_pseudo tcp len @ tcp_head tcp len window @ [0, 0] @ [0, 0] @ ?pl)"
  have len: "length ?pl = len" using assms by (simp add: length_tcp_payload)
  have s1: "memset ?p 20 0 20 = Inr (take 20 ?p @ replicate 20 0 @ drop 40 ?p)"
    using assms by (simp add: memset_ok)
  have s2: "(case data of None \<Rightarrow> Inr (take 20 ?p @ replicate 20 0 @ drop 40 ?p)
      | Some m \<Rightarrow> rbind (rd_bytes m 0 len) (memcpy (take 20 ?p @ replicate 20 0 @ drop 40 ?p) (20 + 20))) =
      Inr (take 20 ?p @ replicate 20 0 @ ?tail)"
  proof (cases data)
    case None
    have "take len (drop 40 ?p) @ drop (40 + len) ?p = drop 40 ?p"
      by (metis append_take_drop_id drop_drop add.commute)
    then show ?thesis using None by (simp add: tcp_payload_def)
  next
    case (Some m)
    then show ?thesis
      using assms by (simp add: tcp_payload_def data_ok_def rd_bytes_def memcpy_def add.commute)
  qed
  let ?x = "tcp_pseudo tcp len @ tcp_head tcp len window @ [0, 0] @ [0, 0] @ ?pl"
  have "drop (20 - 12) ?m = ?x @ drop (40 + len) ?p" and x: "12 + 20 + len = length ?x"
    using assms len by simp_all
  then have s3: "csum (drop (20 - 12) ?m) (12 + 20 + len) = Inr ?cs"
    using assms len csum_prefix [OF _ x, of "drop (40 + len) ?p"] by simp
  have s4: "memcpy ?m (20 + 16) (le16 ?cs) =
      Inr (take 8 ?p @ tcp_pseudo tcp len @ tcp_seg tcp window ?pl @ drop (40 + len) ?p)"
    using assms len by (simp add: memcpy_def tcp_seg_def Let_def)
  have "take 8 (take 20 ?p) = take 8 ?p" "length (take 20 ?p) = 20" using assms by simp_all
  with tcp_build_head [of "take 20 ?p" ?tail tcp len window] s3 s4 show ?thesis
    unfolding tcp_build_def s1 s2 rbind_Inr wire_simps wr_memcpy
    by (simp only: rbind_assoc [symmetric] rbind_Inr)
qed

text \<open>
  The buffer the stack works in: as large as its size says, with room for two headers (the
  largest receive window is the size less 44), and a size that is a C int.
\<close>

definition tcp_wf :: "tcp_context \<Rightarrow> bool" where
  "tcp_wf tcp \<longleftrightarrow> length (tcp_pkt tcp) = unat (pkt_size (tcp_ip tcp)) \<and>
     44 \<le> unat (pkt_size (tcp_ip tcp)) \<and> unat (pkt_size (tcp_ip tcp)) < 32768"

text \<open>The packet of one transmission, and the context after it.\<close>

definition tcp_packet :: "tcp_context \<Rightarrow> u16 \<Rightarrow> bytes \<Rightarrow> bytes" where
  "tcp_packet tcp window payload =
     ip_header (tcp_ip tcp) (word_of_nat (40 + length payload)) IP_TCP @ tcp_seg tcp window payload"

definition tcp_sent :: "tcp_context \<Rightarrow> u16 \<Rightarrow> bytes \<Rightarrow> tcp_context" where
  "tcp_sent tcp window payload =
     tcp\<lparr>tcp_ip := (tcp_ip tcp)\<lparr>ip_id := ip_id (tcp_ip tcp) + 1,
       pkt := tcp_packet tcp window payload @ drop (40 + length payload) (tcp_pkt tcp)\<rparr>\<rparr>"

lemma length_tcp_packet [simp]: "length (tcp_packet tcp w payload) = 40 + length payload"
  by (simp add: tcp_packet_def)

lemma tcp_sent_sel [simp]:
  "tcp_seq (tcp_sent tcp w pl) = tcp_seq tcp" "tcp_ack (tcp_sent tcp w pl) = tcp_ack tcp"
  "tcp_ths (tcp_sent tcp w pl) = tcp_ths tcp" "src_port (tcp_sent tcp w pl) = src_port tcp"
  "dst_port (tcp_sent tcp w pl) = dst_port tcp"
  "pkt_size (tcp_ip (tcp_sent tcp w pl)) = pkt_size (tcp_ip tcp)"
  by (simp_all add: tcp_sent_def)

lemma tcp_wf_sent: "tcp_wf tcp \<Longrightarrow> length pl + 40 \<le> length (tcp_pkt tcp) \<Longrightarrow> tcp_wf (tcp_sent tcp w pl)"
  by (simp add: tcp_wf_def tcp_sent_def)

lemma tcp_xmit_ok:
  assumes "tcp_wf tcp" and "len + 40 \<le> length (tcp_pkt tcp)" and "data_ok len data"
  defines "pl \<equiv> tcp_payload tcp len data"
  shows "tcp_xmit pf tcp len data window d =
    Inr (tcp_sent tcp window pl, puts pf (slip_frame esc_byte (tcp_packet tcp window pl)) d)"
proof -
  have lp: "length (tcp_pkt tcp) < 32768" using assms(1) by (simp add: tcp_wf_def)
  have len: "length pl = len" unfolding pl_def using assms(2,3) by (rule length_tcp_payload)
  have u: "unat (word_of_nat (20 + 20 + len) :: u16) = 40 + len"
    using assms(2) lp by (simp only: unat_of_nat) simp
  let ?p = "take 8 (tcp_pkt tcp) @ tcp_pseudo tcp len @ tcp_seg tcp window pl @ drop (40 + len) (tcp_pkt tcp)"
  have d20: "drop 20 ?p = tcp_seg tcp window pl @ drop (40 + len) (tcp_pkt tcp)" "length ?p = length (tcp_pkt tcp)"
    using assms(2) len by simp_all
  have "ip_build_and_send pf ((tcp_ip tcp)\<lparr>pkt := ?p\<rparr>) (word_of_nat (20 + 20 + len)) IP_TCP d =
      Inr (tcp_ip (tcp_sent tcp window pl), puts pf (slip_frame esc_byte (tcp_packet tcp window pl)) d)"
    using assms(2) len u d20
    by (subst ip_build_and_send_ok) (simp_all add: tcp_sent_def tcp_packet_def ip_packet_def)
  then show ?thesis
    using tcp_build_ok [OF assms(2) _ assms(3), of window] lp
    by (simp add: tcp_xmit_def pl_def [symmetric] tcp_sent_def)
qed

section \<open>An arriving segment\<close>

text \<open>
  The fields of the segment in the packet buffer, read in network order, and the code's
  decision as a function of them.
\<close>

definition be32_at :: "bytes \<Rightarrow> nat \<Rightarrow> u32" where
  "be32_at p i = of_le32 (p ! (i + 3)) (p ! (i + 2)) (p ! (i + 1)) (p ! i)"

definition seg_seq :: "bytes \<Rightarrow> u32" where "seg_seq p = be32_at p 24"
definition seg_ack :: "bytes \<Rightarrow> u32" where "seg_ack p = be32_at p 28"
definition seg_ths :: "bytes \<Rightarrow> u8" where "seg_ths p = drop_bit 2 (p ! 32)"
definition seg_flags :: "bytes \<Rightarrow> u8" where "seg_flags p = p ! 33"

text \<open>The amount of data of a packet of \<open>len\<close> bytes, negative for a header that claims more than there is.\<close>

definition seg_data :: "bytes \<Rightarrow> int \<Rightarrow> int" where
  "seg_data p len = len - 20 - int (unat (seg_ths p))"

text \<open>A packet of this session.\<close>

definition for_us :: "tcp_context \<Rightarrow> int \<Rightarrow> bool" where
  "for_us tcp len \<longleftrightarrow> (let p = tcp_pkt tcp in
     40 \<le> len \<and> p ! 0 = 0x45 \<and> p ! 9 = IP_TCP \<and>
     take 4 (drop 20 p) = le16 (dst_port tcp) @ le16 (src_port tcp))"

lemma u8_no_bit: "8 \<le> n \<Longrightarrow> \<not> bit (a :: u8) n"
  by (auto dest: bit_imp_le_length)

lemma htonl_of_le32: "htonl (of_le32 a b c d) = of_le32 d c b a"
proof -
  have "le32 (htonl (of_le32 a b c d)) = be32 (of_le32 a b c d)" by (simp add: wire_simps)
  also have "be32 (of_le32 a b c d) = [d, c, b, a]"
  proof -
    have "(ucast (of_le32 a b c d) :: u8) = a" "(ucast (drop_bit 8 (of_le32 a b c d)) :: u8) = b"
      "(ucast (drop_bit 16 (of_le32 a b c d)) :: u8) = c" "(ucast (drop_bit 24 (of_le32 a b c d)) :: u8) = d"
      by (auto simp: of_le32_def bit_simps u8_no_bit intro!: bit_word_eqI)
    then show ?thesis by (simp add: be32_def)
  qed
  finally have "le32 (htonl (of_le32 a b c d)) = [d, c, b, a]" .
  then show ?thesis using of_le32_le32 [of "htonl (of_le32 a b c d)"] by (simp add: le32_def)
qed

lemma rd_u32_ok:
  "i + 3 < length p \<Longrightarrow> rd_u32 p i = Inr (of_le32 (p ! i) (p ! (i + 1)) (p ! (i + 2)) (p ! (i + 3)))"
  by (simp add: rd_u32_def rd_def)

definition tcp_step :: "tcp_context \<Rightarrow> int \<Rightarrow> tcp_action \<times> tcp_context" where
  "tcp_step tcp0 len =
     (let p = tcp_pkt tcp0; tcp = tcp0\<lparr>tcp_ths := seg_ths p\<rparr> in
      if tcp_seq tcp = 1 then
        (if seg_ack p \<noteq> 2 then (Done (- ERESET), tcp)
         else if seg_flags p AND TCP_SYN \<noteq> 0 then (AckSyn, tcp\<lparr>tcp_seq := 2, tcp_ack := seg_seq p + 1\<rparr>)
         else (Done (- 1), tcp))
      else if seg_seq p + 1 = tcp_ack tcp \<and> seg_data p len = 0 then (Again, tcp)
      else
        let tcp = tcp\<lparr>tcp_seq := max (tcp_seq tcp) (seg_ack p)\<rparr> in
        if seg_data p len > 0 then
          (if seg_seq p < tcp_ack tcp then (Done 0, tcp)
           else (AckData, tcp\<lparr>tcp_ack :=
             seg_seq p + (if len > 40 then word_of_int (seg_data p len) else 0)\<rparr>))
        else (Done (seg_data p len), tcp))"

lemma htonl_htonl: "htonl (htonl w) = w"
  by (metis htonl_of_le32 of_le32_le32)

lemma seq_max: "(if tcp_seq t < a then t\<lparr>tcp_seq := a\<rparr> else t) = t\<lparr>tcp_seq := max (tcp_seq t) a\<rparr>"
  by (cases t) (auto simp: max_def)

lemma tcp_segment_eq:
  assumes "40 \<le> length (tcp_pkt tcp)"
  shows "tcp_segment tcp len = Inr (tcp_step tcp len)"
proof -
  have "24 + 3 < length (tcp_pkt tcp)" "28 + 3 < length (tcp_pkt tcp)"
    "32 < length (tcp_pkt tcp)" "33 < length (tcp_pkt tcp)"
    using assms by simp_all
  then have r: "rd (tcp_pkt tcp) (20 + 12) = Inr (tcp_pkt tcp ! 32)"
    "rd (tcp_pkt tcp) (20 + 13) = Inr (tcp_pkt tcp ! 33)"
    "rd_u32 (tcp_pkt tcp) (20 + 4) = Inr (htonl (seg_seq (tcp_pkt tcp)))"
    "rd_u32 (tcp_pkt tcp) (20 + 8) = Inr (htonl (seg_ack (tcp_pkt tcp)))"
    by (simp_all add: rd_ok rd_u32_ok seg_seq_def seg_ack_def be32_at_def htonl_of_le32)
  define ths where "ths = seg_ths (tcp_pkt tcp)"
  have ths: "drop_bit 2 (tcp_pkt tcp ! 32) = ths" by (simp add: ths_def seg_ths_def)
  show ?thesis
    unfolding tcp_segment_def tcp_step_def Let_def r rbind_Inr htonl_htonl seq_max
      seg_flags_def seg_data_def ths_def [symmetric] ths
    by (cases "tcp_seq tcp = 1"; cases "20 + int (unat ths) < len") simp_all
qed

text \<open>The whole input path, checks included.\<close>

lemma tcp_input_eq:
  assumes "40 \<le> length (tcp_pkt tcp)"
  shows "tcp_input pf tcp len = Inr (
    if len < 0 then (Done len, tcp)
    else if \<not> for_us tcp len then (Done (- EAGAIN pf), tcp)
    else if seg_flags (tcp_pkt tcp) AND TCP_RST \<noteq> 0 then (Done (- ERESET), tcp)
    else tcp_step tcp len)"
proof -
  have "0 < length (tcp_pkt tcp)" "9 < length (tcp_pkt tcp)" "33 < length (tcp_pkt tcp)"
    using assms by linarith+
  then have r: "rd (tcp_pkt tcp) 0 = Inr (tcp_pkt tcp ! 0)" "rd (tcp_pkt tcp) 9 = Inr (tcp_pkt tcp ! 9)"
    "rd (tcp_pkt tcp) (20 + 13) = Inr (seg_flags (tcp_pkt tcp))"
    "rd_bytes (tcp_pkt tcp) 20 4 = Inr (take 4 (drop 20 (tcp_pkt tcp)))"
    using assms by (simp_all add: rd_def rd_bytes_def seg_flags_def)
  show ?thesis
    unfolding tcp_input_def tcp_sanity_def Let_def r rbind_Inr
    by (simp add: for_us_def Let_def tcp_segment_eq [OF assms])
qed

lemma tcp_step_sel:
  assumes "tcp_step tcp len = (act, tcp')"
  shows "tcp_ip tcp' = tcp_ip tcp" "dst_port tcp' = dst_port tcp" "src_port tcp' = src_port tcp"
    "tcp_ths tcp' = seg_ths (tcp_pkt tcp)"
  using assms by (auto simp: tcp_step_def Let_def split: if_splits)

lemma tcp_step_seq: "tcp_step tcp len = (act, tcp') \<Longrightarrow> tcp_seq tcp \<le> tcp_seq tcp'"
  by (auto simp: tcp_step_def Let_def split: if_splits)

lemma tcp_wf_ip: "tcp_ip tcp' = tcp_ip tcp \<Longrightarrow> tcp_wf tcp \<Longrightarrow> tcp_wf tcp'"
  by (simp add: tcp_wf_def)

lemma tcp_wf_set_pkt: "tcp_wf tcp \<Longrightarrow> length p = length (tcp_pkt tcp) \<Longrightarrow> tcp_wf (set_pkt p tcp)"
  by (simp add: tcp_wf_def set_pkt_def)

lemma tcp_wf_room: "tcp_wf tcp \<Longrightarrow> 44 \<le> length (tcp_pkt tcp)"
  by (simp add: tcp_wf_def)

section \<open>Safety\<close>

text \<open>
  \<open>tcp_kept tcp tcp'\<close>: what every operation keeps of the context: a well-formed buffer of the
  same size, the ports and the addresses; the sequence number never goes back; and a header
  length that fits the six bits of \<^verbatim>\<open>ptr[20 + 12] >> 2\<close> stays one.
\<close>

definition tcp_kept :: "tcp_context \<Rightarrow> tcp_context \<Rightarrow> bool" where
  "tcp_kept tcp tcp' \<longleftrightarrow> tcp_wf tcp' \<and> length (tcp_pkt tcp') = length (tcp_pkt tcp) \<and>
     pkt_size (tcp_ip tcp') = pkt_size (tcp_ip tcp) \<and>
     saddr (tcp_ip tcp') = saddr (tcp_ip tcp) \<and> daddr (tcp_ip tcp') = daddr (tcp_ip tcp) \<and>
     dst_port tcp' = dst_port tcp \<and> src_port tcp' = src_port tcp \<and> tcp_seq tcp \<le> tcp_seq tcp' \<and>
     (tcp_ths tcp \<le> 63 \<longrightarrow> tcp_ths tcp' \<le> 63)"

lemma tcp_kept_trans: "tcp_kept a b \<Longrightarrow> tcp_kept b c \<Longrightarrow> tcp_kept a c"
  by (auto simp: tcp_kept_def)

lemma tcp_kept_wf: "tcp_kept a b \<Longrightarrow> tcp_wf b"
  by (simp add: tcp_kept_def)

lemma tcp_kept_sent:
  "tcp_wf tcp \<Longrightarrow> length pl + 40 \<le> length (tcp_pkt tcp) \<Longrightarrow> tcp_kept tcp (tcp_sent tcp w pl)"
  by (simp add: tcp_kept_def tcp_wf_def tcp_sent_def)

lemma seg_ths_le: "seg_ths p \<le> 63"
proof -
  have "unat (drop_bit 2 b) \<le> 63" for b :: u8
  proof -
    have "unat b < 256" using unsigned_less [of b] by simp
    then have "unat b div 4 < 64" by (simp add: div_less_iff_less_mult)
    then show ?thesis by (simp add: drop_bit_eq_div unat_div)
  qed
  then show ?thesis by (simp add: seg_ths_def word_le_nat_alt)
qed

lemma tcp_kept_step:
  "tcp_wf tcp \<Longrightarrow> tcp_step tcp len = (act, tcp') \<Longrightarrow> tcp_kept tcp tcp'"
  by (simp add: tcp_kept_def tcp_step_sel tcp_step_seq seg_ths_le tcp_wf_ip [of tcp'])

lemma tcp_kept_set_pkt:
  "tcp_wf tcp \<Longrightarrow> length p = length (tcp_pkt tcp) \<Longrightarrow> tcp_kept tcp (set_pkt p tcp)"
  by (simp add: tcp_kept_def tcp_wf_set_pkt) (simp add: set_pkt_def)

lemma holds_tcp_xmit:
  assumes "tcp_wf tcp" and "len + 40 \<le> length (tcp_pkt tcp)" and "data_ok len data"
  shows "holds_res (\<lambda>(tcp', d'). tcp_kept tcp tcp') (tcp_xmit pf tcp len data window d)"
  using assms length_tcp_payload [of len tcp data]
  by (simp add: tcp_xmit_ok tcp_kept_sent)

lemma holds_tcp_input:
  assumes "tcp_wf tcp"
  shows "holds_res (\<lambda>(act, tcp'). tcp_kept tcp tcp') (tcp_input pf tcp len)"
proof -
  have "tcp_kept tcp tcp" using assms by (simp add: tcp_kept_def)
  moreover have "40 \<le> length (tcp_pkt tcp)" using tcp_wf_room [OF assms] by simp
  ultimately show ?thesis
    using tcp_kept_step [OF assms] by (auto simp: tcp_input_eq split: prod.splits)
qed

lemma holds_recv_packet:
  assumes "tcp_wf tcp"
  shows "holds_res (\<lambda>(len, p, d'). length p = length (tcp_pkt tcp) \<and> len \<le> max (- EAGAIN pf) (int (length p)))
    (recv_packet pf fuel (tcp_pkt tcp) (sint (pkt_size (tcp_ip tcp))) to d)"
proof -
  have "sint (pkt_size (tcp_ip tcp)) = int (length (tcp_pkt tcp))"
    using assms by (simp add: tcp_wf_def sint_small)
  then show ?thesis
    using recv_packet_safe [of "length (tcp_pkt tcp)" "tcp_pkt tcp" pf fuel to d]
    by (auto elim!: holds_res_mono simp: recv_safe_def)
qed

lemma tcp_group_safe:
  shows tcp_send_from_safe: "tcp_wf tcp \<Longrightarrow> len + 40 \<le> length (tcp_pkt tcp) \<Longrightarrow> data_ok len data \<Longrightarrow>
      holds_res (\<lambda>(rc, tcp', d'). tcp_kept tcp tcp') (tcp_send_from pf fuel retries tcp len data window d)"
    and tcp_recv_timeout_safe: "tcp_wf tcp \<Longrightarrow>
      holds_res (\<lambda>(rc, tcp', d'). tcp_kept tcp tcp') (tcp_recv_timeout pf fuel tcp rlen to d)"
    and tcp_recv_again_safe: "tcp_wf tcp \<Longrightarrow>
      holds_res (\<lambda>(rc, tcp', d'). tcp_kept tcp tcp') (tcp_recv_again pf fuel tcp to d)"
proof (induction fuel arbitrary: tcp len data retries window d rlen to)
  case (Suc fuel)
  have keep: "holds_res (\<lambda>(rc, t', d'). tcp_kept tcp t') m"
    if "tcp_kept tcp t" "holds_res (\<lambda>(rc, t', d'). tcp_kept t t') m"
    for t tcp and m :: "(int \<times> tcp_context \<times> 'a) res"
    using that by (auto elim!: holds_res_mono intro: tcp_kept_trans)
  have send: "holds_res (\<lambda>(rc, t', d'). tcp_kept tcp t') (tcp_send_from pf fuel r t len data w d)"
    if "tcp_kept tcp t" "len + 40 \<le> length (tcp_pkt tcp)" "data_ok len data" for tcp t len data r w d
    using that by (intro keep [OF that(1)] Suc.IH(1)) (auto simp: tcp_kept_def)
  have ack: "holds_res (\<lambda>(rc, t', d'). tcp_kept tcp t') (tcp_send_from pf fuel r t 0 None w d)"
    if "tcp_kept tcp t" for tcp t r w d
    using that tcp_wf_room [OF tcp_kept_wf [OF that]]
    by (intro send) (auto simp: tcp_kept_def data_ok_def)
  have again: "holds_res (\<lambda>(rc, t', d'). tcp_kept tcp t') (tcp_recv_again pf fuel t to d)"
    if "tcp_kept tcp t" for tcp t to d
    using that by (intro keep [OF that] Suc.IH(3)) (rule tcp_kept_wf)
  {
    case 1
    then show ?case
      unfolding tcp_send_from.simps
      by (intro holds_res_rbindI [OF holds_tcp_xmit])
        (auto intro!: holds_res_rbindI [OF keep [OF _ Suc.IH(2)]] send dest: tcp_kept_wf)
  next
    case 2
    then have "tcp_kept tcp tcp" by (simp add: tcp_kept_def)
    then show ?case
      by (auto simp: Let_def intro!: holds_res_rbindI [OF ack] again)
  next
    case 3
    have input: "holds_res (\<lambda>(act, t'). tcp_kept tcp t') (tcp_input pf (set_pkt p tcp) len)"
      if "length p = length (tcp_pkt tcp)" for p len
      using tcp_kept_set_pkt [OF 3 that] holds_tcp_input [OF tcp_wf_set_pkt [OF 3 that], of pf len]
      by (auto elim!: holds_res_mono intro: tcp_kept_trans)
    show ?case
      unfolding tcp_recv_again.simps
      by (rule holds_res_rbindI [OF holds_recv_packet [OF 3]])
        (auto intro!: holds_res_rbindI [OF input] holds_res_rbindI [OF ack] again split: tcp_action.splits)
  }
qed simp_all

section \<open>Fuel\<close>

text \<open>More fuel never changes a result of the group.\<close>

lemma tcp_group_le:
  assumes "f \<le> g"
  shows tcp_send_from_le: "le_res (tcp_send_from pf f retries tcp len data window d)
      (tcp_send_from pf g retries tcp len data window d)"
    and tcp_recv_timeout_le: "le_res (tcp_recv_timeout pf f tcp rlen to d) (tcp_recv_timeout pf g tcp rlen to d)"
    and tcp_recv_again_le: "le_res (tcp_recv_again pf f tcp to d) (tcp_recv_again pf g tcp to d)"
  using assms
proof (induction f arbitrary: g tcp len data retries window d rlen to)
  case (Suc f)
  note IH = Suc.IH
  {
    case 1
    then obtain g' where "g = Suc g'" "f \<le> g'" by (cases g) auto
    with IH show ?case by (auto intro!: le_res_rbind split: prod.splits)
  next
    case 2
    then obtain g' where "g = Suc g'" "f \<le> g'" by (cases g) auto
    with IH show ?case by (auto simp: Let_def intro!: le_res_rbind split: prod.splits)
  next
    case 3
    then obtain g' where "g = Suc g'" "f \<le> g'" by (cases g) auto
    with IH show ?case
      by (auto intro!: le_res_rbind recv_packet_le split: prod.splits tcp_action.splits)
  }
qed simp_all

section \<open>What the group does\<close>

text \<open>A pure ACK is sent and not waited for.\<close>

lemma tcp_send_ack:
  assumes "tcp_wf tcp" and "1 < tcp_seq tcp"
  shows "tcp_send_from pf (Suc fuel) retries tcp 0 data w d =
    Inr (0, tcp_sent tcp w [], puts pf (slip_frame esc_byte (tcp_packet tcp w [])) d)"
proof -
  have "tcp_payload tcp 0 data = []" by (cases data) (simp_all add: tcp_payload_def)
  moreover have "data_ok 0 data" by (cases data) (simp_all add: data_ok_def)
  ultimately show ?thesis
    using assms tcp_wf_room [OF assms(1)] by (simp add: tcp_xmit_ok)
qed

text \<open>One turn of the receive loop, from what \<^verbatim>\<open>recv_packet\<close> returned.\<close>

lemma tcp_recv_again_step:
  assumes "tcp_wf tcp" and "length p = length (tcp_pkt tcp)"
    and "recv_packet pf fuel (tcp_pkt tcp) (sint (pkt_size (tcp_ip tcp))) to d = Inr (len, p, d')"
    and "tcp1 = set_pkt p tcp" and "for_us tcp1 len" and "seg_flags p AND TCP_RST = 0"
  shows "tcp_recv_again pf (Suc fuel) tcp to d =
    (let (act, tcp2) = tcp_step tcp1 len in
       case act of
         Done rc \<Rightarrow> Inr (rc, tcp2, d')
       | Again \<Rightarrow> tcp_recv_again pf fuel tcp2 to d'
       | AckSyn \<Rightarrow> rbind (tcp_send_from pf fuel 0 tcp2 0 None 0 d') (\<lambda>(_, tcp, d). Inr (0, tcp, d))
       | AckData \<Rightarrow> rbind (tcp_send_from pf fuel 0 tcp2 0 None 0 d')
           (\<lambda>(_, tcp, d). Inr (len - 20 - int (unat (tcp_ths tcp)), tcp, d)))"
proof -
  have "40 \<le> length (tcp_pkt tcp1)" "\<not> len < 0"
    using assms(2,4,5) tcp_wf_room [OF assms(1)] by (auto simp: set_pkt_def for_us_def Let_def)
  then show ?thesis
    using assms by (simp add: tcp_input_eq Let_def set_pkt_def split: prod.splits)
qed

text \<open>
  \<open>arrives pf to m d d'\<close>: from the device state \<open>d\<close> on, the line brings the packet \<open>m\<close> in a frame,
  after noise without an END that is shorter than the timeout.
\<close>

definition arrives :: "'d platform \<Rightarrow> u16 \<Rightarrow> bytes \<Rightarrow> 'd \<Rightarrow> 'd \<Rightarrow> bool" where
  "arrives pf to m d d' \<longleftrightarrow> (\<exists>noise. reads pf (noise @ map Some (slip_frame esc_byte m)) d d' \<and>
     Some END \<notin> set noise \<and> length noise < unat (to - 1))"

lemma arrives_script: "1 < unat to \<Longrightarrow> arrives script_line to m (map Some (slip_frame esc_byte m) @ rx, tx) (rx, tx)"
  unfolding arrives_def
  by (rule exI [of _ "[]"]) (auto simp: reads_script unat_gt_0)

text \<open>A complete packet of the session of \<open>tcp\<close> that is not a reset, and fits the buffer.\<close>

definition packet_for :: "tcp_context \<Rightarrow> bytes \<Rightarrow> bool" where
  "packet_for tcp m \<longleftrightarrow> 40 \<le> length m \<and> length m \<le> length (tcp_pkt tcp) \<and> m ! 0 = 0x45 \<and>
     m ! 9 = IP_TCP \<and> take 4 (drop 20 m) = le16 (dst_port tcp) @ le16 (src_port tcp)"

text \<open>The context when \<open>m\<close> is in its buffer.\<close>

definition loaded :: "bytes \<Rightarrow> tcp_context \<Rightarrow> tcp_context" where
  "loaded m tcp = set_pkt (m @ drop (length m) (tcp_pkt tcp)) tcp"

lemma loaded_sel [simp]:
  "tcp_seq (loaded m tcp) = tcp_seq tcp" "tcp_ack (loaded m tcp) = tcp_ack tcp"
  "src_port (loaded m tcp) = src_port tcp" "dst_port (loaded m tcp) = dst_port tcp"
  "tcp_pkt (loaded m tcp) = m @ drop (length m) (tcp_pkt tcp)"
  "pkt_size (tcp_ip (loaded m tcp)) = pkt_size (tcp_ip tcp)"
  by (simp_all add: loaded_def set_pkt_def)

lemma tcp_wf_loaded: "tcp_wf tcp \<Longrightarrow> length m \<le> length (tcp_pkt tcp) \<Longrightarrow> tcp_wf (loaded m tcp)"
  by (simp add: loaded_def tcp_wf_set_pkt)

lemma seg_fields_append [simp]:
  "40 \<le> length m \<Longrightarrow> seg_seq (m @ r) = seg_seq m" "40 \<le> length m \<Longrightarrow> seg_ack (m @ r) = seg_ack m"
  "40 \<le> length m \<Longrightarrow> seg_ths (m @ r) = seg_ths m" "40 \<le> length m \<Longrightarrow> seg_flags (m @ r) = seg_flags m"
  "40 \<le> length m \<Longrightarrow> seg_data (m @ r) len = seg_data m len"
  by (simp_all add: seg_seq_def seg_ack_def seg_ths_def seg_flags_def seg_data_def be32_at_def nth_append)

lemma for_us_loaded: "packet_for tcp m \<Longrightarrow> for_us (loaded m tcp) (int (length m))"
  by (auto simp: packet_for_def for_us_def Let_def nth_append)

lemma recv_packet_arrives:
  assumes "tcp_wf tcp" and "arrives pf to m d d'" and "m \<noteq> []" and "length m \<le> length (tcp_pkt tcp)"
    and "length m < fuel"
  shows "recv_packet pf fuel (tcp_pkt tcp) (sint (pkt_size (tcp_ip tcp))) to d =
    Inr (int (length m), tcp_pkt (loaded m tcp), d')"
proof -
  have size: "sint (pkt_size (tcp_ip tcp)) = int (length (tcp_pkt tcp))" "0 < length (tcp_pkt tcp)"
    using assms(1) tcp_wf_room [OF assms(1)] by (simp_all add: tcp_wf_def sint_small)
  from assms(2) obtain noise where "reads pf (noise @ map Some (slip_frame esc_byte m)) d d'"
    "Some END \<notin> set noise" "length noise < unat (to - 1)" by (auto simp: arrives_def)
  from recv_packet_frame [OF this assms(3) size(2), of "tcp_pkt tcp" fuel] assms(4,5) show ?thesis
    by (simp add: size min.absorb2)
qed

lemma tcp_recv_arrives:
  assumes "tcp_wf tcp" and "arrives pf to m d d'" and "packet_for tcp m" and "seg_flags m AND TCP_RST = 0"
    and "length m < fuel"
  shows "tcp_recv_again pf (Suc fuel) tcp to d =
    (let (act, tcp2) = tcp_step (loaded m tcp) (int (length m)) in
       case act of
         Done rc \<Rightarrow> Inr (rc, tcp2, d')
       | Again \<Rightarrow> tcp_recv_again pf fuel tcp2 to d'
       | AckSyn \<Rightarrow> rbind (tcp_send_from pf fuel 0 tcp2 0 None 0 d') (\<lambda>(_, tcp, d). Inr (0, tcp, d))
       | AckData \<Rightarrow> rbind (tcp_send_from pf fuel 0 tcp2 0 None 0 d')
           (\<lambda>(_, tcp, d). Inr (int (length m) - 20 - int (unat (tcp_ths tcp)), tcp, d)))"
proof (rule tcp_recv_again_step [OF assms(1)])
  have m: "m \<noteq> []" "40 \<le> length m" "length m \<le> length (tcp_pkt tcp)"
    using assms(3) by (auto simp: packet_for_def)
  show "recv_packet pf fuel (tcp_pkt tcp) (sint (pkt_size (tcp_ip tcp))) to d =
      Inr (int (length m), tcp_pkt (loaded m tcp), d')"
    using m assms by (intro recv_packet_arrives) auto
  show "length (tcp_pkt (loaded m tcp)) = length (tcp_pkt tcp)" "seg_flags (tcp_pkt (loaded m tcp)) AND TCP_RST = 0"
    using m assms(4) by simp_all
  show "loaded m tcp = set_pkt (tcp_pkt (loaded m tcp)) tcp" by (simp add: loaded_def set_pkt_def)
qed (rule for_us_loaded [OF assms(3)])

lemma tcp_recv_timeout_0: "tcp_recv_timeout pf (Suc fuel) tcp 0 to d = tcp_recv_again pf fuel tcp to d"
  by (simp add: Let_def)

declare tcp_send_from.simps [simp del] tcp_recv_timeout.simps [simp del] tcp_recv_again.simps [simp del]

end
