(* ===== verification/Tcp_Session.thy ===== *)
theory Tcp_Session
  imports Tcp
begin

text \<open>
  The properties of the transport layer: what a segment looks like on the wire, memory
  safety on every line, which data is delivered and acknowledged, the handshake, and
  retransmission. The lemmas of \<open>Tcp\<close> carry the proofs; the facts of this theory are about
  whole calls of \<^verbatim>\<open>tcp_send\<close>, \<^verbatim>\<open>tcp_recv_timeout\<close> and \<^verbatim>\<open>tcp_connect\<close>.
\<close>

section \<open>The fields of a segment we build\<close>

lemma be32_at_append: "i = length xs \<Longrightarrow> be32_at (xs @ be32 w @ ys) i = w"
  by (simp add: be32_at_def be32_def nth_append)

lemma tcp_packet_split:
  "tcp_packet tcp w pl =
     (ip_header (tcp_ip tcp) (word_of_nat (40 + length pl)) IP_TCP @ le16 (src_port tcp) @ le16 (dst_port tcp)) @
     be32 (tcp_seq tcp) @ be32 (tcp_ack tcp) @ [0x50, tcp_out_flags tcp (length pl)] @ be16 w @
     drop 16 (tcp_seg tcp w pl)"
  by (simp add: tcp_packet_def tcp_seg_def tcp_head_def Let_def)

lemma seg_seq_tcp_packet [simp]: "seg_seq (tcp_packet tcp w pl) = tcp_seq tcp"
  unfolding seg_seq_def tcp_packet_split by (rule be32_at_append) simp

lemma seg_ack_tcp_packet [simp]: "seg_ack (tcp_packet tcp w pl) = tcp_ack tcp"
proof -
  have "tcp_packet tcp w pl =
     (ip_header (tcp_ip tcp) (word_of_nat (40 + length pl)) IP_TCP @ le16 (src_port tcp) @ le16 (dst_port tcp) @
      be32 (tcp_seq tcp)) @ be32 (tcp_ack tcp) @ [0x50, tcp_out_flags tcp (length pl)] @ be16 w @
     drop 16 (tcp_seg tcp w pl)"
    by (simp add: tcp_packet_split)
  then show ?thesis by (simp only: seg_ack_def) (rule be32_at_append, simp)
qed

lemma seg_flags_tcp_packet [simp]: "seg_flags (tcp_packet tcp w pl) = tcp_out_flags tcp (length pl)"
  by (simp add: seg_flags_def tcp_packet_split nth_append)

lemma seg_ths_tcp_packet [simp]: "seg_ths (tcp_packet tcp w pl) = 20"
  by (simp add: seg_ths_def tcp_packet_split nth_append)

lemma drop_tcp_packet [simp]: "drop 20 (tcp_packet tcp w pl) = tcp_seg tcp w pl"
  "drop 40 (tcp_packet tcp w pl) = pl" "take 20 (tcp_packet tcp w pl) = ip_header (tcp_ip tcp) (word_of_nat (40 + length pl)) IP_TCP"
  by (simp_all add: tcp_packet_def tcp_seg_def Let_def)

text \<open>A session for concrete runs: the buffer of \<^verbatim>\<open>tcp_chat.c\<close>, port 80 of 192.0.2.1.\<close>

definition demo_tcp :: "u32 \<Rightarrow> u32 \<Rightarrow> tcp_context" where
  "demo_tcp seq ack = \<lparr>tcp_ip = \<lparr>saddr = 0x020200c0, daddr = 0x010200c0, pkt_size = 552, ip_id = 0,
     pkt = replicate 552 0\<rparr>, dst_port = 0x5000, src_port = 0x0080, tcp_seq = seq, tcp_ack = ack, tcp_ths = 0\<rparr>"

text \<open>A segment of the peer in that session.\<close>

definition demo_seg :: "u32 \<Rightarrow> u32 \<Rightarrow> u8 \<Rightarrow> bytes \<Rightarrow> bytes" where
  "demo_seg seq ack flags payload =
     [0x45, 0, 0, 0, 0, 0, 0, 0, 64, IP_TCP, 0, 0, 192, 0, 2, 1, 192, 0, 2, 2] @
     le16 0x5000 @ le16 0x0080 @ be32 seq @ be32 ack @ [0x50, flags, 0, 0, 0, 0, 0, 0] @ payload"

lemma demo_tcp_sel [simp]:
  "tcp_seq (demo_tcp s a) = s" "tcp_ack (demo_tcp s a) = a" "tcp_pkt (demo_tcp s a) = replicate 552 0"
  "dst_port (demo_tcp s a) = 0x5000" "src_port (demo_tcp s a) = 0x0080"
  by (simp_all add: demo_tcp_def)

lemma tcp_wf_demo [simp]: "tcp_wf (demo_tcp s a)"
  by (simp add: tcp_wf_def demo_tcp_def)

lemma demo_seg_fields [simp]:
  "seg_seq (demo_seg s a fl pl) = s" "seg_ack (demo_seg s a fl pl) = a"
  "seg_flags (demo_seg s a fl pl) = fl" "seg_ths (demo_seg s a fl pl) = 20"
  "length (demo_seg s a fl pl) = 40 + length pl"
proof -
  have eq: "demo_seg s a fl pl = ([0x45, 0, 0, 0, 0, 0, 0, 0, 64, IP_TCP, 0, 0, 192, 0, 2, 1, 192, 0, 2, 2] @
     le16 0x5000 @ le16 0x0080) @ be32 s @ be32 a @ [0x50, fl, 0, 0, 0, 0, 0, 0] @ pl"
    by (simp add: demo_seg_def)
  show "seg_seq (demo_seg s a fl pl) = s"
    unfolding eq seg_seq_def by (rule be32_at_append) simp
  have eq': "demo_seg s a fl pl = ([0x45, 0, 0, 0, 0, 0, 0, 0, 64, IP_TCP, 0, 0, 192, 0, 2, 1, 192, 0, 2, 2] @
     le16 0x5000 @ le16 0x0080 @ be32 s) @ be32 a @ [0x50, fl, 0, 0, 0, 0, 0, 0] @ pl"
    by (simp add: demo_seg_def)
  show "seg_ack (demo_seg s a fl pl) = a"
    unfolding eq' seg_ack_def by (rule be32_at_append) simp
  show "seg_flags (demo_seg s a fl pl) = fl" "seg_ths (demo_seg s a fl pl) = 20"
    "length (demo_seg s a fl pl) = 40 + length pl"
    by (simp_all add: eq seg_flags_def seg_ths_def nth_append)
qed

lemma demo_seg_payload [simp]: "drop 40 (demo_seg s a fl pl) = pl"
proof -
  have "demo_seg s a fl pl = take 40 (demo_seg s a fl []) @ pl" by (simp add: demo_seg_def)
  then show ?thesis by (metis demo_seg_fields(5) append_eq_conv_conj drop_append drop_all length_take min.idem list.size(3)
      add_0_right diff_self_eq_0 drop_0 append_Nil order_refl)
qed

lemma packet_for_demo [simp]: "length pl \<le> 512 \<Longrightarrow> packet_for (demo_tcp x y) (demo_seg s a fl pl)"
  unfolding packet_for_def by (simp add: demo_seg_def)

lemma seg_data_demo [simp]: "seg_data (demo_seg s a fl pl) (int (40 + length pl)) = int (length pl)"
  by (simp add: seg_data_def)

section \<open>The interface the applications use\<close>

text \<open>
  What an application relies on of the transport: every call keeps the context well-formed
  and of the same session, never leaves the buffer, and a positive result of a receive is an
  amount of data that is in the buffer. The clients prove their own safety from this alone.
\<close>

definition rx_bound :: "int \<Rightarrow> tcp_context \<Rightarrow> bool" where
  "rx_bound rc tcp \<longleftrightarrow> nat rc \<le> length (tcp_rx_buffer tcp)"

lemma rx_bound_nonpos: "rc \<le> 0 \<Longrightarrow> rx_bound rc tcp"
  by (simp add: rx_bound_def)

lemma rx_bound_data: "len \<le> int (length (tcp_pkt tcp)) \<Longrightarrow> rx_bound (len - 20 - int (unat (tcp_ths tcp))) tcp"
proof -
  have "len \<le> int L \<Longrightarrow> nat (len - 20 - int u) \<le> L - (20 + u)" for L u by arith
  then show "len \<le> int (length (tcp_pkt tcp)) \<Longrightarrow> ?thesis"
    unfolding rx_bound_def tcp_rx_buffer_def tcp_rx_offset_def ip_buffer_def by (simp del: int_nat_eq of_nat_unat)
qed

lemma rx_bound_data_uint: "len \<le> int (length (tcp_pkt tcp)) \<Longrightarrow> rx_bound (len - 20 - uint (tcp_ths tcp)) tcp"
  using rx_bound_data by simp

locale tcp_service =
  fixes send :: "'d platform \<Rightarrow> nat \<Rightarrow> tcp_context \<Rightarrow> nat \<Rightarrow> bytes option \<Rightarrow> u16 \<Rightarrow> 'd \<Rightarrow> (int \<times> tcp_context \<times> 'd) res"
    and recv :: "'d platform \<Rightarrow> nat \<Rightarrow> tcp_context \<Rightarrow> u16 \<Rightarrow> u16 \<Rightarrow> 'd \<Rightarrow> (int \<times> tcp_context \<times> 'd) res"
  assumes send_safe: "tcp_wf tcp \<Longrightarrow> len + 40 \<le> length (tcp_pkt tcp) \<Longrightarrow> data_ok len data \<Longrightarrow>
      holds_res (\<lambda>(rc, tcp', d'). tcp_kept tcp tcp') (send pf fuel tcp len data window d)"
    and recv_safe: "tcp_wf tcp \<Longrightarrow> 0 \<le> EAGAIN pf \<Longrightarrow>
      holds_res (\<lambda>(rc, tcp', d'). tcp_kept tcp tcp' \<and> rx_bound rc tcp') (recv pf fuel tcp rlen to d)"
begin

text \<open>A whole poll: open the window with a pure ACK, then receive.\<close>

lemma open_and_recv_safe:
  assumes "tcp_wf tcp" and "0 \<le> EAGAIN pf"
  shows "holds_res (\<lambda>(rc, tcp', d'). tcp_kept tcp tcp' \<and> rx_bound rc tcp')
    (rbind (send pf fuel tcp 0 None window d) (\<lambda>(_, tcp, d). recv pf fuel tcp rlen to d))"
  using assms tcp_wf_room [OF assms(1)]
  by (intro holds_res_rbindI [OF send_safe])
    (auto simp: data_ok_def intro!: holds_res_mono [OF recv_safe] dest: tcp_kept_wf intro: tcp_kept_trans)

end

text \<open>An early return is never positive.\<close>

lemma tcp_step_Done: "tcp_step tcp len = (Done rc, tcp') \<Longrightarrow> rc \<le> 0"
  by (auto simp: tcp_step_def Let_def split: if_splits)

lemma holds_tcp_input_Done:
  assumes "tcp_wf tcp" and "0 \<le> EAGAIN pf"
  shows "holds_res (\<lambda>(act, tcp'). tcp_kept tcp tcp' \<and> (\<forall>rc. act = Done rc \<longrightarrow> rc \<le> 0)) (tcp_input pf tcp len)"
proof -
  have "40 \<le> length (tcp_pkt tcp)" using tcp_wf_room [OF assms(1)] by simp
  then have "holds_res (\<lambda>(act, tcp'). \<forall>rc. act = Done rc \<longrightarrow> rc \<le> 0) (tcp_input pf tcp len)"
    using assms(2) by (auto simp: tcp_input_eq dest: tcp_step_Done split: prod.splits)
  from holds_res_conj [OF holds_tcp_input [OF assms(1)] this] show ?thesis
    by (rule holds_res_mono) auto
qed

lemma tcp_recv_again_bound:
  "tcp_wf tcp \<Longrightarrow> 0 \<le> EAGAIN pf \<Longrightarrow>
   holds_res (\<lambda>(rc, tcp', d'). tcp_kept tcp tcp' \<and> rx_bound rc tcp') (tcp_recv_again pf fuel tcp to d)"
proof (induction fuel arbitrary: tcp d)
  case (Suc fuel)
  let ?Q = "\<lambda>(rc, t', d'). tcp_kept tcp t' \<and> rx_bound rc t'"
  have ack: "holds_res (\<lambda>(rc, t', d'). tcp_kept tcp t') (tcp_send_from pf fuel 0 t 0 None 0 d)"
    if "tcp_kept tcp t" for t d
    using that tcp_wf_room [OF tcp_kept_wf [OF that]]
    by (intro holds_res_mono [OF tcp_send_from_safe])
      (auto simp: data_ok_def dest: tcp_kept_wf intro: tcp_kept_trans)
  have again: "holds_res ?Q (tcp_recv_again pf fuel t to d)" if "tcp_kept tcp t" for t d
    using that Suc.prems(2)
    by (intro holds_res_mono [OF Suc.IH]) (auto dest: tcp_kept_wf intro: tcp_kept_trans)
  have input: "holds_res (\<lambda>(act, t'). tcp_kept tcp t' \<and> (\<forall>rc. act = Done rc \<longrightarrow> rc \<le> 0))
      (tcp_input pf (set_pkt p tcp) len)" if "length p = length (tcp_pkt tcp)" for p len
    using tcp_kept_set_pkt [OF Suc.prems(1) that]
    by (intro holds_res_mono [OF holds_tcp_input_Done])
      (auto dest: tcp_kept_wf intro: tcp_kept_trans Suc.prems)
  have act: "holds_res ?Q (case act of Done rc \<Rightarrow> Inr (rc, t, d) | Again \<Rightarrow> tcp_recv_again pf fuel t to d
      | AckSyn \<Rightarrow> rbind (tcp_send_from pf fuel 0 t 0 None 0 d) (\<lambda>(_, tcp, d). Inr (0, tcp, d))
      | AckData \<Rightarrow> rbind (tcp_send_from pf fuel 0 t 0 None 0 d)
          (\<lambda>(_, tcp, d). Inr (len - 20 - int (unat (tcp_ths tcp)), tcp, d)))"
    if t: "tcp_kept tcp t" and rc: "\<forall>rc. act = Done rc \<longrightarrow> rc \<le> 0" and len: "len \<le> int (length (tcp_pkt tcp))"
    for act t d len
  proof (cases act)
    case AckData
    show ?thesis unfolding AckData tcp_action.case
      by (rule holds_res_rbindI [OF ack [OF t]])
        (use len in \<open>auto simp: tcp_kept_def intro!: rx_bound_data_uint\<close>)
  qed (use rc again [OF t] in \<open>auto simp: t rx_bound_nonpos intro!: holds_res_rbindI [OF ack [OF t]]\<close>)
  show ?case
    unfolding tcp_recv_again.simps
    by (rule holds_res_rbindI [OF holds_recv_packet [OF Suc.prems(1)]])
      (use Suc.prems(2) in \<open>auto intro!: holds_res_rbindI [OF input] act\<close>)
qed (simp add: tcp_recv_again.simps)

lemma tcp_recv_timeout_bound:
  assumes "tcp_wf tcp" and "0 \<le> EAGAIN pf"
  shows "holds_res (\<lambda>(rc, tcp', d'). tcp_kept tcp tcp' \<and> rx_bound rc tcp') (tcp_recv_timeout pf fuel tcp rlen to d)"
proof (cases fuel)
  case (Suc f)
  have "holds_res (\<lambda>(rc, tcp', d'). tcp_kept tcp tcp' \<and> rx_bound rc tcp')
      (rbind (tcp_send_from pf f 0 tcp 0 None w d) (\<lambda>(_, tcp, d). tcp_recv_again pf f tcp to d))" for w
    using assms tcp_wf_room [OF assms(1)]
    by (intro holds_res_rbindI [OF tcp_send_from_safe])
      (auto simp: data_ok_def intro!: holds_res_mono [OF tcp_recv_again_bound] dest: tcp_kept_wf
        intro: tcp_kept_trans)
  with tcp_recv_again_bound [OF assms] show ?thesis
    by (simp add: Suc tcp_recv_timeout.simps Let_def)
qed (simp add: tcp_recv_timeout.simps)

interpretation stack: tcp_service tcp_send tcp_recv_timeout
  by unfold_locales (auto simp: tcp_send_def intro!: tcp_send_from_safe tcp_recv_timeout_bound)

section \<open>Properties: sending and safety\<close>

text \<open>
  C5: what one transmission of \<^verbatim>\<open>tcp_send\<close> puts on the line. One frame with an IPv4 packet: every
  field of its header is the one it has to be (version and length, the total length in network
  order, the identification, no fragment, TTL 64, protocol TCP, source and destination address)
  and the header checksum verifies; the identification counts up. In it a TCP segment whose checksum verifies together with the
  pseudo header (addresses, protocol, length), with the ports, sequence and acknowledgement
  numbers of the context in network order, a header of 20 bytes, the SYN flag exactly for the
  initial sequence number, PSH exactly with data, the window that was asked for, and the
  payload.
\<close>

theorem tcp_segment_on_wire:
  assumes "tcp_wf tcp" and "len + 40 \<le> length (tcp_pkt tcp)" and "data_ok len data"
  shows "\<exists>m tcp'. tcp_xmit pf tcp len data window d = Inr (tcp', puts pf (slip_frame esc_byte m) d) \<and>
    length m = 40 + len \<and> length m < 2 ^ 16 \<and> ip_id (tcp_ip tcp') = ip_id (tcp_ip tcp) + 1 \<and>
    take 20 m = [0x45, 0] @ be16 (word_of_nat (length m)) @ le16 (ip_id (tcp_ip tcp)) @ [0, 0, 64, IP_TCP] @
      take 2 (drop 10 m) @ le32 (saddr (tcp_ip tcp)) @ le32 (daddr (tcp_ip tcp)) \<and>
    csum m 20 = Inr 0 \<and>
    csum (le32 (saddr (tcp_ip tcp)) @ le32 (daddr (tcp_ip tcp)) @ [0, IP_TCP] @ be16 (word_of_nat (20 + len)) @ drop 20 m)
      (32 + len) = Inr 0 \<and>
    take 4 (drop 20 m) = le16 (src_port tcp) @ le16 (dst_port tcp) \<and>
    seg_seq m = tcp_seq tcp \<and> seg_ack m = tcp_ack tcp \<and> seg_ths m = 20 \<and>
    seg_flags m = (if tcp_seq tcp = 1 then TCP_SYN else if len \<noteq> 0 then TCP_ACK OR TCP_PSH else TCP_ACK) \<and>
    take 2 (drop 34 m) = be16 window \<and>
    drop 40 m = (case data of None \<Rightarrow> take len (drop 40 (tcp_pkt tcp)) | Some b \<Rightarrow> take len b)"
proof (intro exI conjI)
  let ?pl = "tcp_payload tcp len data"
  let ?m = "tcp_packet tcp window ?pl"
  have len: "length ?pl = len" using assms(2,3) by (rule length_tcp_payload)
  have lt: "length (tcp_pkt tcp) < 32768" using assms(1) by (simp add: tcp_wf_def)
  show "tcp_xmit pf tcp len data window d = Inr (tcp_sent tcp window ?pl, puts pf (slip_frame esc_byte ?m) d)"
    using assms by (rule tcp_xmit_ok)
  show "length ?m < 2 ^ 16" using len lt assms(2) by simp
  show "ip_id (tcp_ip (tcp_sent tcp window ?pl)) = ip_id (tcp_ip tcp) + 1" by (simp add: tcp_sent_def)
  show "take 20 ?m = [0x45, 0] @ be16 (word_of_nat (length ?m)) @ le16 (ip_id (tcp_ip tcp)) @ [0, 0, 64, IP_TCP] @
      take 2 (drop 10 ?m) @ le32 (saddr (tcp_ip tcp)) @ le32 (daddr (tcp_ip tcp))"
    using ip_header_fields [of "tcp_ip tcp" "word_of_nat (40 + len)" IP_TCP "tcp_seg tcp window ?pl"] len by (simp add: tcp_packet_def)
  show "csum ?m 20 = Inr 0"
    unfolding tcp_packet_def by (subst csum_prefix) (simp_all add: ip_header_verifies)
  show "csum (le32 (saddr (tcp_ip tcp)) @ le32 (daddr (tcp_ip tcp)) @ [0, IP_TCP] @
      be16 (word_of_nat (20 + len)) @ drop 20 ?m) (32 + len) = Inr 0"
  proof -
    have "csum ((tcp_pseudo tcp len @ tcp_seg tcp window ?pl) @ []) (32 + len) = Inr 0"
      using tcp_seg_verifies [of tcp ?pl window] len lt assms(2) by (subst csum_prefix) simp_all
    then show ?thesis
      by (simp only: tcp_pseudo_def ip_addrs_def append_assoc append_Nil2 drop_tcp_packet)
  qed
  show "take 2 (drop 34 ?m) = be16 window"
    by (simp add: tcp_packet_split)
  show "drop 40 ?m = (case data of None \<Rightarrow> take len (drop 40 (tcp_pkt tcp)) | Some b \<Rightarrow> take len b)"
    by (simp add: tcp_payload_def)
  show "take 4 (drop 20 ?m) = le16 (src_port tcp) @ le16 (dst_port tcp)"
    by (simp add: tcp_packet_split)
  show "seg_flags ?m = (if tcp_seq tcp = 1 then TCP_SYN else if len \<noteq> 0 then TCP_ACK OR TCP_PSH else TCP_ACK)"
    by (simp add: len tcp_out_flags_def)
qed (simp_all add: length_tcp_payload [OF assms(2,3)])

theorem tcp_segment_on_wire_witness:
  "\<exists>m tcp'. tcp_xmit script_line (demo_tcp 7 9) 3 (Some [104, 105, 10]) 256 ([], []) =
      Inr (tcp', puts script_line (slip_frame esc_byte m) ([], [])) \<and>
    length m = 40 + 3 \<and> length m < 2 ^ 16 \<and> ip_id (tcp_ip tcp') = ip_id (tcp_ip (demo_tcp 7 9)) + 1 \<and>
    take 20 m = [0x45, 0] @ be16 (word_of_nat (length m)) @ le16 (ip_id (tcp_ip (demo_tcp 7 9))) @ [0, 0, 64, IP_TCP] @
      take 2 (drop 10 m) @ le32 (saddr (tcp_ip (demo_tcp 7 9))) @ le32 (daddr (tcp_ip (demo_tcp 7 9))) \<and>
    csum m 20 = Inr 0 \<and>
    csum (le32 (saddr (tcp_ip (demo_tcp 7 9))) @ le32 (daddr (tcp_ip (demo_tcp 7 9))) @ [0, IP_TCP] @
      be16 (word_of_nat (20 + 3)) @ drop 20 m) (32 + 3) = Inr 0 \<and>
    take 4 (drop 20 m) = le16 (src_port (demo_tcp 7 9)) @ le16 (dst_port (demo_tcp 7 9)) \<and>
    seg_seq m = tcp_seq (demo_tcp 7 9) \<and> seg_ack m = tcp_ack (demo_tcp 7 9) \<and> seg_ths m = 20 \<and>
    seg_flags m = (if tcp_seq (demo_tcp 7 9) = 1 then TCP_SYN else if (3 :: nat) \<noteq> 0 then TCP_ACK OR TCP_PSH else TCP_ACK) \<and>
    take 2 (drop 34 m) = be16 256 \<and>
    drop 40 m = (case Some [104, 105, 10] of None \<Rightarrow> take 3 (drop 40 (tcp_pkt (demo_tcp 7 9))) | Some b \<Rightarrow> take 3 b)"
  by (rule tcp_segment_on_wire) (simp_all add: data_ok_def)

text \<open>
  C7: the transport is memory safe, whatever the line brings. From a well-formed context,
  \<^verbatim>\<open>tcp_send\<close> with a payload that fits behind the headers and \<^verbatim>\<open>tcp_recv_timeout\<close> with any length
  never touch memory outside the buffer, keep it well-formed, keep the addresses and the
  ports, never move the sequence number back, and a positive result of a receive is an amount
  of data that lies inside the receive buffer.
\<close>

theorem tcp_memory_safe:
  assumes "tcp_wf tcp" and "len + 40 \<le> length (tcp_pkt tcp)" and "data_ok len data" and "0 \<le> EAGAIN pf"
  shows "holds_res (\<lambda>(rc, tcp', d'). tcp_kept tcp tcp') (tcp_send pf fuel tcp len data window d) \<and>
    holds_res (\<lambda>(rc, tcp', d'). tcp_kept tcp tcp' \<and> nat rc \<le> length (tcp_rx_buffer tcp'))
      (tcp_recv_timeout pf fuel tcp rlen to d)"
  using stack.send_safe [OF assms(1-3)] stack.recv_safe [OF assms(1,4)] by (simp add: rx_bound_def)

theorem tcp_memory_safe_witness:
  "holds_res (\<lambda>(rc, tcp', d'). tcp_kept (demo_tcp 7 9) tcp')
      (tcp_send script_line 9 (demo_tcp 7 9) 2 (Some [1, 2]) 0 ([Some END, Some 1, Some END], [])) \<and>
    holds_res (\<lambda>(rc, tcp', d'). tcp_kept (demo_tcp 7 9) tcp' \<and> nat rc \<le> length (tcp_rx_buffer tcp'))
      (tcp_recv_timeout script_line 9 (demo_tcp 7 9) 600 80 ([Some END, Some 1, Some END], []))"
  by (rule tcp_memory_safe) (simp_all add: data_ok_def)

section \<open>Receiving in a session\<close>

text \<open>A data segment that the code takes: its context when the ACK is due.\<close>

definition taken :: "bytes \<Rightarrow> tcp_context \<Rightarrow> tcp_context" where
  "taken m tcp = (loaded m tcp)\<lparr>tcp_ths := seg_ths m, tcp_seq := max (tcp_seq tcp) (seg_ack m),
     tcp_ack := seg_seq m + word_of_nat (length m - 20 - unat (seg_ths m))\<rparr>"

lemma taken_sel [simp]:
  "tcp_seq (taken m tcp) = max (tcp_seq tcp) (seg_ack m)" "tcp_ths (taken m tcp) = seg_ths m"
  "tcp_ack (taken m tcp) = seg_seq m + word_of_nat (length m - 20 - unat (seg_ths m))"
  "tcp_pkt (taken m tcp) = m @ drop (length m) (tcp_pkt tcp)"
  by (simp_all add: taken_def)

text \<open>The header of a data segment that was built by the rules: at least 20 bytes, and data behind it.\<close>

definition data_segment :: "bytes \<Rightarrow> bool" where
  "data_segment m \<longleftrightarrow> 20 \<le> unat (seg_ths m) \<and> 20 + unat (seg_ths m) < length m"

lemma seg_data_nat:
  "data_segment m \<Longrightarrow> seg_data m (int (length m)) = int (length m - 20 - unat (seg_ths m))"
  by (simp add: data_segment_def seg_data_def of_nat_diff del: of_nat_unat)

lemma tcp_step_taken:
  assumes "packet_for tcp m" and "data_segment m" and "tcp_seq tcp \<noteq> 1" and "tcp_ack tcp \<le> seg_seq m"
  shows "tcp_step (loaded m tcp) (int (length m)) = (AckData, taken m tcp)"
proof -
  define n where "n = length m - 20 - unat (seg_ths m)"
  have "40 < length m" "40 \<le> length m" "0 < n" "seg_data m (int (length m)) = int n"
    using assms(2) seg_data_nat [OF assms(2)] by (auto simp: data_segment_def n_def)
  then show ?thesis
    unfolding taken_def n_def [symmetric] using assms(3,4) by (simp add: tcp_step_def Let_def leD)
qed

lemma tcp_recv_taken:
  assumes "tcp_wf tcp" and "1 < tcp_seq tcp" and "packet_for tcp m" and "seg_flags m AND TCP_RST = 0"
    and "data_segment m" and "tcp_ack tcp \<le> seg_seq m" and "arrives pf to m d d1" and "length m + 2 < fuel"
  shows "tcp_recv_timeout pf fuel tcp 0 to d =
    Inr (int (length m - 20 - unat (seg_ths m)), tcp_sent (taken m tcp) 0 [],
         puts pf (slip_frame esc_byte (tcp_packet (taken m tcp) 0 [])) d1)"
proof -
  define f where "f = fuel - 3"
  have "40 \<le> length m" using assms(3) by (simp add: packet_for_def)
  with assms(8) have f: "fuel = Suc (Suc (Suc f))" "length m < Suc f"
    unfolding f_def by arith+
  have wf: "tcp_wf (taken m tcp)" "1 < tcp_seq (taken m tcp)"
    using tcp_wf_loaded [of tcp m] assms(1-3) by (auto simp: packet_for_def tcp_wf_def taken_def less_max_iff_disj)
  have "tcp_recv_again pf (Suc (Suc f)) tcp to d =
      rbind (tcp_send_from pf (Suc f) 0 (taken m tcp) 0 None 0 d1)
        (\<lambda>(_, tcp, d). Inr (int (length m) - 20 - int (unat (tcp_ths tcp)), tcp, d))"
    using tcp_recv_arrives [OF assms(1,7,3,4) f(2)] tcp_step_taken [OF assms(3,5) _ assms(6)] assms(2)
    by auto
  then show ?thesis
    using seg_data_nat [OF assms(5)]
    by (simp add: f tcp_recv_timeout_0 tcp_send_ack [OF wf] seg_data_def)
qed

text \<open>The bytes of the payload are still in the receive buffer when the ACK has been built over the header.\<close>

lemma rx_buffer_taken:
  assumes "data_segment m" and "length m \<le> length (tcp_pkt tcp)"
  shows "take (length m - 20 - unat (seg_ths m)) (tcp_rx_buffer (tcp_sent (taken m tcp) 0 [])) =
    drop (20 + unat (seg_ths m)) m"
proof -
  have "40 \<le> 20 + unat (seg_ths m)" "20 + unat (seg_ths m) \<le> length m" using assms(1) by (auto simp: data_segment_def)
  then have "drop (20 + unat (seg_ths m)) (tcp_packet (taken m tcp) 0 [] @ drop 40 (tcp_pkt (taken m tcp))) =
      drop (20 + unat (seg_ths m)) m @ drop (length m) (tcp_pkt tcp)"
    by simp
  then show ?thesis
    by (simp add: tcp_rx_buffer_def tcp_rx_offset_def ip_buffer_def) (simp add: tcp_sent_def)
qed

text \<open>
  C15: data that arrives in order is delivered and acknowledged, once. \<^verbatim>\<open>tcp_recv_timeout\<close> returns
  its amount, the receive buffer holds exactly the payload although the ACK has been built in
  the same buffer, the acknowledgement number has advanced by that amount, and one frame
  went out: a pure ACK of this data with the window closed.
\<close>

theorem tcp_recv_in_order:
  assumes "tcp_wf tcp" and "1 < tcp_seq tcp" and "packet_for tcp m" and "seg_flags m AND TCP_RST = 0"
    and "data_segment m" and "seg_seq m = tcp_ack tcp" and "arrives pf to m d d1" and "length m + 2 < fuel"
  defines "n \<equiv> length m - 20 - unat (seg_ths m)"
  shows "\<exists>tcp' a. tcp_recv_timeout pf fuel tcp 0 to d = Inr (int n, tcp', puts pf (slip_frame esc_byte a) d1) \<and>
    0 < n \<and> take n (tcp_rx_buffer tcp') = drop (20 + unat (seg_ths m)) m \<and>
    tcp_ack tcp' = tcp_ack tcp + word_of_nat n \<and> tcp_seq tcp' = max (tcp_seq tcp) (seg_ack m) \<and>
    length a = 40 \<and> seg_ack a = tcp_ack tcp' \<and> seg_flags a = TCP_ACK \<and> take 2 (drop 34 a) = be16 0"
proof (intro exI conjI)
  show "tcp_recv_timeout pf fuel tcp 0 to d = Inr (int n, tcp_sent (taken m tcp) 0 [],
      puts pf (slip_frame esc_byte (tcp_packet (taken m tcp) 0 [])) d1)"
    unfolding n_def using assms by (intro tcp_recv_taken) simp_all
  show "take n (tcp_rx_buffer (tcp_sent (taken m tcp) 0 [])) = drop (20 + unat (seg_ths m)) m"
    unfolding n_def using assms(3,5) by (intro rx_buffer_taken) (simp_all add: packet_for_def)
  show "0 < n" using assms(5) by (auto simp: n_def data_segment_def)
  show "seg_flags (tcp_packet (taken m tcp) 0 []) = TCP_ACK"
    using assms(2) by (auto simp: tcp_out_flags_def max_def)
  show "take 2 (drop 34 (tcp_packet (taken m tcp) 0 [])) = be16 0"
    by (simp add: tcp_packet_split)
qed (simp_all add: assms(6) n_def)

theorem tcp_recv_in_order_witness:
  "\<exists>tcp' a. tcp_recv_timeout script_line 60 (demo_tcp 7 100) 0 3
      (map Some (slip_frame esc_byte (demo_seg 100 7 TCP_ACK [104, 105])) @ [], []) =
      Inr (int (length (demo_seg 100 7 TCP_ACK [104, 105]) - 20 - unat (seg_ths (demo_seg 100 7 TCP_ACK [104, 105]))), tcp',
        puts script_line (slip_frame esc_byte a) ([], [])) \<and>
    0 < length (demo_seg 100 7 TCP_ACK [104, 105]) - 20 - unat (seg_ths (demo_seg 100 7 TCP_ACK [104, 105])) \<and>
    take (length (demo_seg 100 7 TCP_ACK [104, 105]) - 20 - unat (seg_ths (demo_seg 100 7 TCP_ACK [104, 105])))
      (tcp_rx_buffer tcp') = drop (20 + unat (seg_ths (demo_seg 100 7 TCP_ACK [104, 105]))) (demo_seg 100 7 TCP_ACK [104, 105]) \<and>
    tcp_ack tcp' = tcp_ack (demo_tcp 7 100) +
      word_of_nat (length (demo_seg 100 7 TCP_ACK [104, 105]) - 20 - unat (seg_ths (demo_seg 100 7 TCP_ACK [104, 105]))) \<and>
    tcp_seq tcp' = max (tcp_seq (demo_tcp 7 100)) (seg_ack (demo_seg 100 7 TCP_ACK [104, 105])) \<and>
    length a = 40 \<and> seg_ack a = tcp_ack tcp' \<and> seg_flags a = TCP_ACK \<and> take 2 (drop 34 a) = be16 0"
  by (rule tcp_recv_in_order) (simp_all add: data_segment_def arrives_script del: append_Nil2)

text \<open>The facts about arriving segments that the next properties share.\<close>

lemma tcp_recv_done:
  assumes "tcp_wf tcp" and "packet_for tcp m" and "seg_flags m AND TCP_RST = 0" and "arrives pf to m d d1"
    and "length m + 2 < fuel" and "tcp_step (loaded m tcp) (int (length m)) = (Done rc, tcp')"
  shows "tcp_recv_timeout pf fuel tcp 0 to d = Inr (rc, tcp', d1)"
proof -
  define f where "f = fuel - 2"
  with assms(5) have f: "fuel = Suc (Suc f)" "length m < f" by arith+
  show ?thesis
    using tcp_recv_arrives [OF assms(1,4,2,3) f(2)] assms(6) by (simp add: f(1) tcp_recv_timeout_0)
qed

text \<open>
  A retransmission: data that starts before the acknowledgement number is not delivered, and
  nothing is sent.
\<close>

definition ignored :: "bytes \<Rightarrow> tcp_context \<Rightarrow> tcp_context" where
  "ignored m tcp = (loaded m tcp)\<lparr>tcp_ths := seg_ths m, tcp_seq := max (tcp_seq tcp) (seg_ack m)\<rparr>"

lemma ignored_sel [simp]:
  "tcp_seq (ignored m tcp) = max (tcp_seq tcp) (seg_ack m)" "tcp_ack (ignored m tcp) = tcp_ack tcp"
  "tcp_pkt (ignored m tcp) = m @ drop (length m) (tcp_pkt tcp)"
  by (simp_all add: ignored_def)

lemma tcp_recv_old:
  assumes "tcp_wf tcp" and "1 < tcp_seq tcp" and "packet_for tcp m" and "seg_flags m AND TCP_RST = 0"
    and "data_segment m" and "seg_seq m < tcp_ack tcp" and "arrives pf to m d d1" and "length m + 2 < fuel"
  shows "tcp_recv_timeout pf fuel tcp 0 to d = Inr (0, ignored m tcp, d1)"
proof -
  define n where "n = length m - 20 - unat (seg_ths m)"
  have "40 \<le> length m" "0 < n" "seg_data m (int (length m)) = int n"
    using assms(5) seg_data_nat [OF assms(5)] by (auto simp: data_segment_def n_def)
  then have "tcp_step (loaded m tcp) (int (length m)) = (Done 0, ignored m tcp)"
    using assms(2,6) by (auto simp: tcp_step_def Let_def ignored_def)
  from tcp_recv_done [OF assms(1,3,4,7) _ this, of fuel] assms(8) show ?thesis by simp
qed

text \<open>
  C23: a hole in the stream is acknowledged. When a segment is lost on the line and the next
  one arrives, the code takes it and acknowledges everything up to its end, so that the peer
  never sends the lost bytes again. (The comments of \<^verbatim>\<open>tcp_chat.c\<close> rely on the peer's
  retransmission of what was lost.)
\<close>

theorem tcp_recv_acks_hole:
  assumes "tcp_wf tcp" and "1 < tcp_seq tcp" and "packet_for tcp m" and "seg_flags m AND TCP_RST = 0"
    and "data_segment m" and "tcp_ack tcp < seg_seq m" and "arrives pf to m d d1" and "length m + 2 < fuel"
  shows "\<exists>tcp' a. tcp_recv_timeout pf fuel tcp 0 to d =
      Inr (int (length m - 20 - unat (seg_ths m)), tcp', puts pf (slip_frame esc_byte a) d1) \<and>
    seg_ack a = seg_seq m + word_of_nat (length m - 20 - unat (seg_ths m)) \<and> tcp_ack tcp' = seg_ack a"
  using tcp_recv_taken [OF assms(1-5) less_imp_le [OF assms(6)] assms(7,8)] by auto

theorem tcp_recv_acks_hole_witness:
  "\<exists>tcp' a. tcp_recv_timeout script_line 60 (demo_tcp 7 100) 0 3
      (map Some (slip_frame esc_byte (demo_seg 150 7 TCP_ACK [104, 105])) @ [], []) =
      Inr (int (length (demo_seg 150 7 TCP_ACK [104, 105]) - 20 - unat (seg_ths (demo_seg 150 7 TCP_ACK [104, 105]))),
        tcp', puts script_line (slip_frame esc_byte a) ([], [])) \<and>
    seg_ack a = seg_seq (demo_seg 150 7 TCP_ACK [104, 105]) +
      word_of_nat (length (demo_seg 150 7 TCP_ACK [104, 105]) - 20 - unat (seg_ths (demo_seg 150 7 TCP_ACK [104, 105]))) \<and>
    tcp_ack tcp' = seg_ack a"
  by (rule tcp_recv_acks_hole) (simp_all add: data_segment_def arrives_script del: append_Nil2)

text \<open>
  C24: the comparison of sequence numbers does not wrap. When the peer's sequence number passes
  2 to the 32 inside a segment, a retransmission of that segment is taken for new data and
  delivered a second time.
\<close>

theorem tcp_recv_wrap_duplicate:
  assumes "tcp_wf tcp" and "1 < tcp_seq tcp" and "packet_for tcp m" and "seg_flags m AND TCP_RST = 0"
    and "data_segment m" and "seg_seq m = tcp_ack tcp"
    and "2 ^ 32 \<le> unat (seg_seq m) + (length m - 20 - unat (seg_ths m))"
    and "arrives pf to m d d1"
    and "arrives pf to m (puts pf (slip_frame esc_byte (tcp_packet (taken m tcp) 0 [])) d1) d2"
    and "length m + 2 < fuel"
  shows "\<exists>tcp1 tcp2 e1 e2.
    tcp_recv_timeout pf fuel tcp 0 to d = Inr (int (length m - 20 - unat (seg_ths m)), tcp1, e1) \<and>
    tcp_recv_timeout pf fuel tcp1 0 to e1 = Inr (int (length m - 20 - unat (seg_ths m)), tcp2, e2)"
proof -
  let ?t = "tcp_sent (taken m tcp) 0 []"
  define n where "n = length m - 20 - unat (seg_ths m)"
  have first: "tcp_recv_timeout pf fuel tcp 0 to d = Inr (int n, ?t, puts pf (slip_frame esc_byte (tcp_packet (taken m tcp) 0 [])) d1)"
    unfolding n_def using assms by (intro tcp_recv_taken) simp_all
  have "n < 2 ^ 32"
    using assms(1,3) by (auto simp: n_def packet_for_def tcp_wf_def)
  then have "unat (seg_seq m + word_of_nat n) = unat (seg_seq m) + n - 2 ^ 32"
    using assms(7) unsigned_less [of "seg_seq m", where ?'a = nat]
    by (fold n_def) (simp add: unat_word_ariths unat_of_nat mod_if)
  with \<open>n < 2 ^ 32\<close> have "unat (seg_seq m + word_of_nat n) \<le> unat (seg_seq m)" by linarith
  then have le: "tcp_ack ?t \<le> seg_seq m"
    by (simp add: n_def word_le_nat_alt)
  have wf: "tcp_wf ?t" "packet_for ?t m" "1 < tcp_seq ?t"
  proof -
    have room: "length m \<le> length (tcp_pkt tcp)" "44 \<le> length (tcp_pkt tcp)"
      using assms(1,3) tcp_wf_room by (auto simp: packet_for_def)
    have "tcp_wf (taken m tcp)"
      using tcp_wf_loaded [OF assms(1) room(1)] by (simp add: tcp_wf_def taken_def)
    then show "tcp_wf ?t" using room by (intro tcp_wf_sent) simp_all
    show "packet_for ?t m"
      using assms(3) room by (simp add: packet_for_def tcp_sent_def taken_def)
    show "1 < tcp_seq ?t" using assms(2) by (simp add: less_max_iff_disj)
  qed
  from tcp_recv_taken [OF wf(1,3,2) assms(4,5) le assms(9,10)] first show ?thesis
    unfolding n_def by blast
qed

theorem tcp_recv_wrap_duplicate_witness:
  "\<exists>tcp1 tcp2 e1 e2.
    tcp_recv_timeout script_line 60 (demo_tcp 7 0xffffffff) 0 3
      (map Some (slip_frame esc_byte (demo_seg 0xffffffff 7 TCP_ACK [104, 105])) @
       map Some (slip_frame esc_byte (demo_seg 0xffffffff 7 TCP_ACK [104, 105])) @ [], []) =
      Inr (int (length (demo_seg 0xffffffff 7 TCP_ACK [104, 105]) - 20 - unat (seg_ths (demo_seg 0xffffffff 7 TCP_ACK [104, 105]))), tcp1, e1) \<and>
    tcp_recv_timeout script_line 60 tcp1 0 3 e1 =
      Inr (int (length (demo_seg 0xffffffff 7 TCP_ACK [104, 105]) - 20 - unat (seg_ths (demo_seg 0xffffffff 7 TCP_ACK [104, 105]))), tcp2, e2)"
proof (rule tcp_recv_wrap_duplicate [OF _ _ _ _ _ _ _ arrives_script])
  show "arrives script_line 3 (demo_seg 0xffffffff 7 TCP_ACK [104, 105])
      (puts script_line (slip_frame esc_byte (tcp_packet (taken (demo_seg 0xffffffff 7 TCP_ACK [104, 105])
          (demo_tcp 7 0xffffffff)) 0 []))
        (map Some (slip_frame esc_byte (demo_seg 0xffffffff 7 TCP_ACK [104, 105])) @ [], []))
      ([], [] @ slip_frame esc_byte (tcp_packet (taken (demo_seg 0xffffffff 7 TCP_ACK [104, 105])
          (demo_tcp 7 0xffffffff)) 0 []))"
    unfolding puts_script by (rule arrives_script) simp
qed (simp_all add: data_segment_def)

section \<open>Zero window probes and resets\<close>

text \<open>A probe of the peer: no data, one before the acknowledgement number.\<close>

definition probe :: "tcp_context \<Rightarrow> bytes \<Rightarrow> bool" where
  "probe tcp m \<longleftrightarrow> packet_for tcp m \<and> seg_flags m AND TCP_RST = 0 \<and> seg_seq m + 1 = tcp_ack tcp \<and>
     length m = 20 + unat (seg_ths m)"

text \<open>Packets one after the other, with nothing sent in between.\<close>

fun arrive_all :: "'d platform \<Rightarrow> u16 \<Rightarrow> bytes list \<Rightarrow> 'd \<Rightarrow> 'd \<Rightarrow> bool" where
  "arrive_all pf to [] d d' \<longleftrightarrow> d' = d"
| "arrive_all pf to (m # ms) d d' \<longleftrightarrow> (\<exists>d1. arrives pf to m d d1 \<and> arrive_all pf to ms d1 d')"

text \<open>Contexts of one session that differ in nothing but what the last packet left behind.\<close>

definition same_session :: "tcp_context \<Rightarrow> tcp_context \<Rightarrow> bool" where
  "same_session tcp tcp' \<longleftrightarrow> tcp_wf tcp' \<and> tcp_seq tcp' = tcp_seq tcp \<and> tcp_ack tcp' = tcp_ack tcp \<and>
     dst_port tcp' = dst_port tcp \<and> src_port tcp' = src_port tcp \<and> ip_id (tcp_ip tcp') = ip_id (tcp_ip tcp) \<and>
     length (tcp_pkt tcp') = length (tcp_pkt tcp)"

lemma same_session_probe: "same_session tcp tcp' \<Longrightarrow> probe tcp m \<Longrightarrow> probe tcp' m"
  by (simp add: same_session_def probe_def packet_for_def)

lemma same_session_loaded:
  "tcp_wf tcp \<Longrightarrow> length m \<le> length (tcp_pkt tcp) \<Longrightarrow> same_session tcp ((loaded m tcp)\<lparr>tcp_ths := h\<rparr>)"
  using tcp_wf_loaded [of tcp m] by (simp add: same_session_def tcp_wf_def) (simp add: loaded_def set_pkt_def)

lemma tcp_recv_probe:
  assumes "tcp_wf tcp" and "tcp_seq tcp \<noteq> 1" and "probe tcp m" and "arrives pf to m d d1" and "length m < fuel"
  shows "tcp_recv_again pf (Suc fuel) tcp to d = tcp_recv_again pf fuel ((loaded m tcp)\<lparr>tcp_ths := seg_ths m\<rparr>) to d1"
proof -
  have m: "40 \<le> length m" using assms(3) by (simp add: probe_def packet_for_def)
  have "seg_data m (int (length m)) = 0"
    using assms(3) by (simp add: probe_def seg_data_def)
  then have "tcp_step (loaded m tcp) (int (length m)) = (Again, (loaded m tcp)\<lparr>tcp_ths := seg_ths m\<rparr>)"
    using assms(2,3) m by (simp add: tcp_step_def probe_def Let_def)
  then show ?thesis
    using tcp_recv_arrives [OF assms(1,4) _ _ assms(5)] assms(3) by (simp add: probe_def)
qed

lemma tcp_recv_probes:
  assumes "tcp_wf tcp" and "tcp_seq tcp \<noteq> 1" and "\<forall>m \<in> set ms. probe tcp m" and "arrive_all pf to ms d d1"
    and "length (tcp_pkt tcp) < fuel"
  shows "\<exists>tcp'. same_session tcp tcp' \<and>
    tcp_recv_again pf (length ms + fuel) tcp to d = tcp_recv_again pf fuel tcp' to d1"
  using assms
proof (induction ms arbitrary: tcp d)
  case Nil
  then show ?case by (auto simp: same_session_def)
next
  case (Cons m ms)
  let ?t = "(loaded m tcp)\<lparr>tcp_ths := seg_ths m\<rparr>"
  from Cons.prems(4) obtain d2 where d2: "arrives pf to m d d2" "arrive_all pf to ms d2 d1" by auto
  have lm: "length m \<le> length (tcp_pkt tcp)" using Cons.prems(3) by (auto simp: probe_def packet_for_def)
  have ss: "same_session tcp ?t" using Cons.prems(1) lm by (rule same_session_loaded)
  then have "\<exists>tcp'. same_session ?t tcp' \<and>
      tcp_recv_again pf (length ms + fuel) ?t to d2 = tcp_recv_again pf fuel tcp' to d1"
    using Cons.prems d2(2) same_session_probe [OF ss]
    by (intro Cons.IH) (auto simp: same_session_def)
  moreover have "tcp_recv_again pf (length (m # ms) + fuel) tcp to d = tcp_recv_again pf (length ms + fuel) ?t to d2"
    using tcp_recv_probe [OF Cons.prems(1,2) _ d2(1), of "length ms + fuel"] Cons.prems lm by simp
  ultimately show ?case
    using ss by (auto simp: same_session_def)
qed

text \<open>
  C18: zero window probes are ignored. After any number of them the receive goes on as if they
  had not arrived: nothing was sent, and the sequence and acknowledgement numbers, the ports
  and the identification are as before.
\<close>

theorem tcp_recv_ignores_probes:
  assumes "tcp_wf tcp" and "1 < tcp_seq tcp" and "\<forall>m \<in> set ms. probe tcp m" and "arrive_all pf to ms d d1"
    and "length (tcp_pkt tcp) < fuel"
  shows "\<exists>tcp'. tcp_wf tcp' \<and> tcp_seq tcp' = tcp_seq tcp \<and> tcp_ack tcp' = tcp_ack tcp \<and>
    dst_port tcp' = dst_port tcp \<and> src_port tcp' = src_port tcp \<and> ip_id (tcp_ip tcp') = ip_id (tcp_ip tcp) \<and>
    tcp_recv_timeout pf (Suc (length ms + fuel)) tcp 0 to d = tcp_recv_timeout pf (Suc fuel) tcp' 0 to d1"
proof -
  from assms(2) have "tcp_seq tcp \<noteq> 1" by auto
  from tcp_recv_probes [OF assms(1) this assms(3-5)] show ?thesis
    unfolding tcp_recv_timeout_0 same_session_def by blast
qed

theorem tcp_recv_ignores_probes_witness:
  "\<exists>tcp'. tcp_wf tcp' \<and> tcp_seq tcp' = tcp_seq (demo_tcp 7 100) \<and> tcp_ack tcp' = tcp_ack (demo_tcp 7 100) \<and>
    dst_port tcp' = dst_port (demo_tcp 7 100) \<and> src_port tcp' = src_port (demo_tcp 7 100) \<and>
    ip_id (tcp_ip tcp') = ip_id (tcp_ip (demo_tcp 7 100)) \<and>
    tcp_recv_timeout script_line (Suc (length [demo_seg 99 7 TCP_ACK []] + 600)) (demo_tcp 7 100) 0 3
      (map Some (slip_frame esc_byte (demo_seg 99 7 TCP_ACK [])) @ [], []) =
    tcp_recv_timeout script_line (Suc 600) tcp' 0 3 ([], [])"
proof (rule tcp_recv_ignores_probes)
  show "arrive_all script_line 3 [demo_seg 99 7 TCP_ACK []]
     (map Some (slip_frame esc_byte (demo_seg 99 7 TCP_ACK [])) @ [], []) ([], [])"
    using arrives_script [of 3 "demo_seg 99 7 TCP_ACK []" "[]" "[]"] by simp
qed (simp_all add: probe_def)

text \<open>
  A reset ends the session for the caller. A packet of the session with RST makes
  \<^verbatim>\<open>tcp_recv_timeout\<close> return \<^verbatim>\<open>-ERESET\<close> at once: nothing is sent, and of the context only the
  packet buffer has changed.
\<close>

lemma tcp_recv_rst:
  assumes "tcp_wf tcp" and "packet_for tcp m" and "seg_flags m AND TCP_RST \<noteq> 0" and "arrives pf to m d d1"
    and "length m + 2 < fuel"
  shows "tcp_recv_timeout pf fuel tcp 0 to d = Inr (- ERESET, loaded m tcp, d1)"
proof -
  define f where "f = fuel - 2"
  with assms(5) have f: "fuel = Suc (Suc f)" "length m < f" by arith+
  have m: "m \<noteq> []" "40 \<le> length m" "length m \<le> length (tcp_pkt tcp)"
    using assms(2) by (auto simp: packet_for_def)
  have "recv_packet pf f (tcp_pkt tcp) (sint (pkt_size (tcp_ip tcp))) to d =
      Inr (int (length m), tcp_pkt (loaded m tcp), d1)"
    using assms(1,4) m f(2) by (intro recv_packet_arrives)
  moreover have "set_pkt (tcp_pkt (loaded m tcp)) tcp = loaded m tcp" by (simp add: loaded_def set_pkt_def)
  moreover have "tcp_input pf (loaded m tcp) (int (length m)) = Inr (Done (- ERESET), loaded m tcp)"
    using m for_us_loaded [OF assms(2)] assms(3) by (subst tcp_input_eq) simp_all
  ultimately show ?thesis by (simp add: f(1) tcp_recv_timeout_0 tcp_recv_again.simps)
qed

end
