(* ===== verification/Tcp_Connect.thy ===== *)
theory Tcp_Connect
  imports Tcp_Session
begin

text \<open>
  Whole calls of \<^verbatim>\<open>tcp_send\<close> and \<^verbatim>\<open>tcp_connect\<close>: the acknowledged transmission, the
  retransmissions on a line where nobody answers, the handshake and its failure. The facts of
  one transmission and of one arriving segment come from \<open>Tcp\<close> and \<open>Tcp_Session\<close>.
\<close>

section \<open>One transmission that waits for its answer\<close>

lemma tcp_send_waits:
  assumes "tcp_wf tcp" and "len + 40 \<le> length (tcp_pkt tcp)" and "data_ok len data" and "tcp_seq tcp = 1 \<or> len \<noteq> 0"
  defines "pl \<equiv> tcp_payload tcp len data"
  shows "tcp_send_from pf (Suc fuel) retries tcp len data w d =
    rbind (tcp_recv_timeout pf fuel (tcp_sent tcp w pl) 0 RS232_TPS (puts pf (slip_frame esc_byte (tcp_packet tcp w pl)) d))
      (\<lambda>(rc, tcp, d).
         if rc = - EAGAIN pf then
           (if retries < 5 then tcp_send_from pf fuel (Suc retries) tcp len data w d else Inr (- 1, tcp, d))
         else if rc < 0 then Inr (rc, tcp, d)
         else Inr (0, tcp, d))"
  using assms(4) by (auto simp: tcp_send_from.simps tcp_xmit_ok [OF assms(1-3)] pl_def)

lemma packet_for_sent [simp]:
  "length pl + 40 \<le> length (tcp_pkt tcp) \<Longrightarrow> packet_for (tcp_sent tcp w pl) m = packet_for tcp m"
  by (simp add: packet_for_def tcp_sent_def)

lemma length_pkt_sent [simp]:
  "length pl + 40 \<le> length (tcp_pkt tcp) \<Longrightarrow> length (tcp_pkt (tcp_sent tcp w pl)) = length (tcp_pkt tcp)"
  by (simp add: tcp_sent_def)

text \<open>A segment without data that is no zero window probe.\<close>

definition bare_segment :: "tcp_context \<Rightarrow> bytes \<Rightarrow> bool" where
  "bare_segment tcp m \<longleftrightarrow> packet_for tcp m \<and> seg_flags m AND TCP_RST = 0 \<and>
     length m = 20 + unat (seg_ths m) \<and> seg_seq m + 1 \<noteq> tcp_ack tcp"

text \<open>
  A call of \<^verbatim>\<open>tcp_send\<close> that is answered by such a segment: it returns 0, whatever the segment
  acknowledges.
\<close>

lemma tcp_send_answered:
  assumes "tcp_wf tcp" and "1 < tcp_seq tcp" and "0 < len" and "len + 40 \<le> length (tcp_pkt tcp)"
    and "data_ok len data" and "bare_segment tcp m"
    and "arrives pf RS232_TPS m (puts pf (slip_frame esc_byte (tcp_packet tcp w (tcp_payload tcp len data))) d) d1"
    and "length m + 3 < fuel" and "0 < EAGAIN pf"
  shows "\<exists>tcp'. tcp_send_from pf fuel retries tcp len data w d = Inr (0, tcp', d1) \<and>
    tcp_seq tcp' = max (tcp_seq tcp) (seg_ack m) \<and> tcp_ack tcp' = tcp_ack tcp \<and> tcp_wf tcp' \<and>
    ip_id (tcp_ip tcp') = ip_id (tcp_ip tcp) + 1"
proof -
  let ?pl = "tcp_payload tcp len data"
  let ?s = "tcp_sent tcp w ?pl"
  let ?t = "(loaded m ?s)\<lparr>tcp_ths := seg_ths m, tcp_seq := max (tcp_seq tcp) (seg_ack m)\<rparr>"
  obtain f where f: "fuel = Suc f" "length m + 2 < f" using assms(8) by (cases fuel) auto
  have len: "length ?pl = len" using assms(4,5) by (rule length_tcp_payload)
  have m: "packet_for ?s m" "seg_flags m AND TCP_RST = 0" "40 \<le> length m" "length m \<le> length (tcp_pkt tcp)"
    using assms(4,6) len by (auto simp: bare_segment_def packet_for_def tcp_sent_def)
  have wf: "tcp_wf ?s" using assms(1,4) len by (intro tcp_wf_sent) simp_all
  have data0: "seg_data m (int (length m)) = 0" "seg_seq m + 1 \<noteq> tcp_ack tcp" "tcp_seq tcp \<noteq> 1"
    using assms(2,6) by (auto simp: bare_segment_def seg_data_def)
  have "tcp_step (loaded m ?s) (int (length m)) = (Done 0, ?t)"
    using data0 m(3) by (simp add: tcp_step_def Let_def)
  then have "tcp_recv_timeout pf f ?s 0 RS232_TPS (puts pf (slip_frame esc_byte (tcp_packet tcp w ?pl)) d) =
      Inr (0, ?t, d1)"
    by (intro tcp_recv_done [OF wf m(1,2) assms(7) f(2)])
  then have "tcp_send_from pf fuel retries tcp len data w d = Inr (0, ?t, d1)"
    using assms(3,9) unfolding f(1) by (subst tcp_send_waits [OF assms(1,4,5)]) simp_all
  moreover have "tcp_wf ?t" "ip_id (tcp_ip ?t) = ip_id (tcp_ip tcp) + 1"
    using tcp_wf_loaded [OF wf, of m] m(4) len assms(4) by (simp_all add: tcp_wf_def)
      (simp add: loaded_def set_pkt_def tcp_sent_def)
  ultimately show ?thesis by simp
qed

text \<open>With an ACK of all the data the sequence number is the one the ACK carries.\<close>

lemma tcp_send_acked:
  assumes "tcp_wf tcp" and "1 < tcp_seq tcp" and "0 < len" and "len + 40 \<le> length (tcp_pkt tcp)"
    and "data_ok len data" and "bare_segment tcp m" and "seg_ack m = tcp_seq tcp + word_of_nat len"
    and "unat (tcp_seq tcp) + len < 2 ^ 32"
    and "arrives pf RS232_TPS m (puts pf (slip_frame esc_byte (tcp_packet tcp w (tcp_payload tcp len data))) d) d1"
    and "length m + 3 < fuel" and "0 < EAGAIN pf"
  shows "\<exists>tcp'. tcp_send_from pf fuel retries tcp len data w d = Inr (0, tcp', d1) \<and> tcp_wf tcp' \<and>
    tcp_seq tcp' = tcp_seq tcp + word_of_nat len \<and> tcp_ack tcp' = tcp_ack tcp"
proof -
  have "unat (tcp_seq tcp + word_of_nat len) = unat (tcp_seq tcp) + len"
    using assms(8) by (simp add: unat_word_ariths unat_of_nat)
  then have "max (tcp_seq tcp) (seg_ack m) = tcp_seq tcp + word_of_nat len"
    using assms(7) by (simp add: max_def word_le_nat_alt)
  then show ?thesis
    using tcp_send_answered [OF assms(1-6,9-11), of retries] by auto
qed

section \<open>Properties of sending\<close>

text \<open>
  Success without an acknowledgement. When the answer acknowledges nothing of the data (for
  instance an update of the peer's window), \<^verbatim>\<open>tcp_send\<close> also returns 0 and does not send the data
  again; the sequence number stays. (The README says that 0 means that all data was sent and
  acknowledged.)
\<close>

theorem tcp_send_unacked:
  assumes "tcp_wf tcp" and "1 < tcp_seq tcp" and "0 < len" and "len + 40 \<le> length (tcp_pkt tcp)"
    and "data_ok len data" and "bare_segment tcp m" and "seg_ack m = tcp_seq tcp"
    and "arrives pf RS232_TPS m (puts pf (slip_frame esc_byte (tcp_packet tcp w (tcp_payload tcp len data))) d) d1"
    and "length m + 3 < fuel" and "0 < EAGAIN pf"
  shows "\<exists>tcp'. tcp_send pf fuel tcp len data w d = Inr (0, tcp', d1) \<and> tcp_seq tcp' = tcp_seq tcp"
  using tcp_send_answered [OF assms(1-6,8-10), of 0] assms(7) by (auto simp: tcp_send_def)

theorem tcp_send_unacked_witness:
  "\<exists>tcp'. tcp_send script_line 60 (demo_tcp 7 100) 2 (Some [104, 105]) 0
      (map Some (slip_frame esc_byte (demo_seg 100 7 TCP_ACK [])) @ [], []) =
      Inr (0, tcp', ([], [] @ slip_frame esc_byte (tcp_packet (demo_tcp 7 100) 0 (tcp_payload (demo_tcp 7 100) 2 (Some [104, 105]))))) \<and>
    tcp_seq tcp' = tcp_seq (demo_tcp 7 100)"
  by (rule tcp_send_unacked [where m = "demo_seg 100 7 TCP_ACK []"])
    (simp_all add: data_ok_def bare_segment_def puts_script arrives_script del: append_Nil append_Nil2)

section \<open>Retransmission\<close>

text \<open>The context of the i-th transmission: only the identification of the IP header counts up.\<close>

definition bump_id :: "nat \<Rightarrow> tcp_context \<Rightarrow> tcp_context" where
  "bump_id i tcp = tcp\<lparr>tcp_ip := (tcp_ip tcp)\<lparr>ip_id := ip_id (tcp_ip tcp) + of_nat i\<rparr>\<rparr>"

definition transmissions :: "nat \<Rightarrow> tcp_context \<Rightarrow> u16 \<Rightarrow> bytes \<Rightarrow> bytes list" where
  "transmissions n tcp w pl = map (\<lambda>i. tcp_packet (bump_id i tcp) w pl) [0..<n]"

lemma tcp_packet_bump_sent:
  "tcp_packet (bump_id i (tcp_sent tcp w pl)) w' pl' = tcp_packet (bump_id (Suc i) tcp) w' pl'"
  by (simp add: tcp_packet_def bump_id_def tcp_sent_def tcp_seg_def tcp_head_def tcp_pseudo_def
      tcp_out_flags_def ip_header_def ip_addrs_def Let_def add.assoc)

lemma bump_id_0 [simp]: "bump_id 0 tcp = tcp"
  by (simp add: bump_id_def)

lemma transmissions_Suc:
  "transmissions (Suc n) tcp w pl = tcp_packet tcp w pl # transmissions n (tcp_sent tcp w pl) w pl"
proof -
  have "[0..<Suc n] = 0 # map Suc [0..<n]" by (simp only: map_Suc_upt upt_conv_Cons zero_less_Suc)
  then show ?thesis
    by (simp only: transmissions_def list.map map_map comp_def tcp_packet_bump_sent bump_id_0)
qed

lemma tcp_payload_sent:
  "len + 40 \<le> length (tcp_pkt tcp) \<Longrightarrow> data_ok len data \<Longrightarrow>
   tcp_payload (tcp_sent tcp w (tcp_payload tcp len data)) len data = tcp_payload tcp len data"
  using length_tcp_payload [of len tcp data]
  by (auto simp: tcp_payload_def tcp_sent_def split: option.splits)

text \<open>A call on a line on which the wait for a frame ends without one.\<close>

lemma tcp_recv_no_end:
  assumes "wait_end pf (unat (to - 1)) 0 d = (False, 0, d')" and "tcp_wf tcp" and "0 < EAGAIN pf"
  shows "tcp_recv_timeout pf (Suc (Suc fuel)) tcp 0 to d = Inr (- EAGAIN pf, tcp, d')"
proof -
  have "40 \<le> length (tcp_pkt tcp)" using tcp_wf_room [OF assms(2)] by simp
  moreover have "set_pkt (tcp_pkt tcp) tcp = tcp" by (simp add: set_pkt_def)
  ultimately show ?thesis
    using assms(1,3) by (auto simp: recv_packet_def tcp_recv_timeout_0 tcp_recv_again.simps tcp_input_eq)
qed

lemma tcp_recv_idle:
  assumes "reads pf es d d'" and "Some END \<notin> set es" and "length es = unat (to - 1)" and "tcp_wf tcp" and "0 < EAGAIN pf"
  shows "tcp_recv_timeout pf (Suc (Suc fuel)) tcp 0 to d = Inr (- EAGAIN pf, tcp, d')"
proof -
  have "40 \<le> length (tcp_pkt tcp)" using tcp_wf_room [OF assms(4)] by simp
  moreover have "set_pkt (tcp_pkt tcp) tcp = tcp" by (simp add: set_pkt_def)
  ultimately show ?thesis
    using recv_packet_idle [OF assms(1-3), of fuel "tcp_pkt tcp" "sint (pkt_size (tcp_ip tcp))"] assms(5)
    by (auto simp: tcp_recv_timeout_0 tcp_recv_again.simps tcp_input_eq)
qed

text \<open>
  A line that is silent for \<open>n\<close> more timeouts: \<open>P n\<close> is a family of predicates of it, and a frame that is
  sent and waited for in vain uses up one.
\<close>

definition silences :: "'d platform \<Rightarrow> (nat \<Rightarrow> 'd \<Rightarrow> bool) \<Rightarrow> ('d \<Rightarrow> bytes) \<Rightarrow> bool" where
  "silences pf P tx \<longleftrightarrow> (\<forall>n d bs. P (Suc n) d \<longrightarrow> (\<exists>d'. P n d' \<and> tx d' = tx d @ bs \<and>
     (\<forall>fuel tcp. tcp_wf tcp \<longrightarrow> tcp_recv_timeout pf (Suc (Suc fuel)) tcp 0 RS232_TPS (puts pf bs d) = Inr (- EAGAIN pf, tcp, d'))))"

lemma tcp_send_silent:
  assumes "silences pf P tx" and "0 < EAGAIN pf" and "data_ok len data" and "left \<le> 5"
    and "P (Suc left) d" and "tcp_wf tcp" and "len + 40 \<le> length (tcp_pkt tcp)" and "tcp_seq tcp = 1 \<or> len \<noteq> 0"
  shows "\<exists>tcp' d'. tcp_send_from pf (left + 3 + fuel) (5 - left) tcp len data w d = Inr (- 1, tcp', d') \<and> P 0 d' \<and>
    tx d' = tx d @ concat (map (slip_frame esc_byte) (transmissions (Suc left) tcp w (tcp_payload tcp len data))) \<and>
    tcp_kept tcp tcp' \<and> tcp_seq tcp' = tcp_seq tcp \<and> tcp_ack tcp' = tcp_ack tcp"
  using assms(4-8)
proof (induction left arbitrary: tcp d)
  case 0
  let ?pl = "tcp_payload tcp len data"
  have len: "length ?pl = len" using 0(4) assms(3) by (rule length_tcp_payload)
  have wf: "tcp_wf (tcp_sent tcp w ?pl)" using 0 len by (intro tcp_wf_sent) simp_all
  from assms(1) 0(2) wf obtain d' where "tcp_recv_timeout pf (Suc (Suc fuel)) (tcp_sent tcp w ?pl) 0 RS232_TPS
      (puts pf (slip_frame esc_byte (tcp_packet tcp w ?pl)) d) = Inr (- EAGAIN pf, tcp_sent tcp w ?pl, d')"
    "P 0 d'" "tx d' = tx d @ slip_frame esc_byte (tcp_packet tcp w ?pl)" unfolding silences_def by metis
  moreover have "0 + 3 + fuel = Suc (Suc (Suc fuel))" "\<not> 5 - 0 < (5 :: nat)" by simp_all
  moreover have "tcp_kept tcp (tcp_sent tcp w ?pl)" using 0 len by (intro tcp_kept_sent) simp_all
  ultimately show ?case
    by (simp only: tcp_send_waits [OF 0(3,4) assms(3) 0(5)] rbind_Inr) (simp add: transmissions_def)
next
  case (Suc left)
  let ?pl = "tcp_payload tcp len data"
  let ?s = "tcp_sent tcp w ?pl"
  have len: "length ?pl = len" using Suc.prems(4) assms(3) by (rule length_tcp_payload)
  have wf: "tcp_wf ?s" using Suc.prems len by (intro tcp_wf_sent) simp_all
  have kept: "tcp_kept tcp ?s" using Suc.prems len by (intro tcp_kept_sent) simp_all
  have eq: "Suc left + 3 + fuel = Suc (left + 3 + fuel)" "left + 3 + fuel = Suc (Suc (left + 1 + fuel))"
    "Suc (5 - Suc left) = 5 - left" "5 - Suc left < 5" using Suc.prems(1) by auto
  from assms(1) Suc.prems(2) wf obtain d1 where r: "tcp_recv_timeout pf (Suc (Suc (left + 1 + fuel))) ?s 0 RS232_TPS
      (puts pf (slip_frame esc_byte (tcp_packet tcp w ?pl)) d) = Inr (- EAGAIN pf, ?s, d1)"
    and d1: "P (Suc left) d1" "tx d1 = tx d @ slip_frame esc_byte (tcp_packet tcp w ?pl)" unfolding silences_def by metis
  have s: "len + 40 \<le> length (tcp_pkt ?s)" "tcp_seq ?s = 1 \<or> len \<noteq> 0" "left \<le> 5"
    using Suc.prems len by simp_all
  have "tcp_send_from pf (Suc left + 3 + fuel) (5 - Suc left) tcp len data w d =
      tcp_send_from pf (left + 3 + fuel) (5 - left) ?s len data w d1"
    unfolding eq(1) tcp_send_waits [OF Suc.prems(3,4) assms(3) Suc.prems(5)]
    by (simp only: eq(2-4) r rbind_Inr prod.case if_True refl)
  with Suc.IH [OF s(3) d1(1) wf s(1,2)] show ?case
    using d1(2) kept tcp_payload_sent [OF Suc.prems(4) assms(3), of w]
    by (auto simp: transmissions_Suc [of "Suc left"] intro: tcp_kept_trans)
qed

text \<open>A line where nobody answers at all, and a scripted one with so many timeouts of silence.\<close>

lemma silences_quiet:
  assumes "quiet_line pf I tx" and "0 < EAGAIN pf"
  shows "silences pf (\<lambda>_. I) tx"
  unfolding silences_def
proof (intro allI impI)
  fix d and bs :: bytes
  assume "I d"
  with quiet_line_puts [OF assms(1)] have "I (puts pf bs d)" "tx (puts pf bs d) = tx d @ bs" by auto
  from quiet_line_wait_end [OF assms(1) this(1), of 0 "unat (RS232_TPS - 1)"] obtain d' where
    d': "wait_end pf (unat (RS232_TPS - 1)) 0 (puts pf bs d) = (False, 0, d')" "I d'" "tx d' = tx d @ bs"
    using \<open>tx (puts pf bs d) = tx d @ bs\<close> by auto
  have "tcp_recv_timeout pf (Suc (Suc fuel)) tcp 0 RS232_TPS (puts pf bs d) = Inr (- EAGAIN pf, tcp, d')" if "tcp_wf tcp" for fuel tcp
    by (rule tcp_recv_no_end [OF d'(1) that assms(2)])
  with d' show "\<exists>d'. I d' \<and> tx d' = tx d @ bs \<and> (\<forall>fuel tcp. tcp_wf tcp \<longrightarrow>
      tcp_recv_timeout pf (Suc (Suc fuel)) tcp 0 RS232_TPS (puts pf bs d) = Inr (- EAGAIN pf, tcp, d'))" by blast
qed

lemma silences_script:
  "silences script_line (\<lambda>n d. fst d = replicate (n * unat (RS232_TPS - 1)) None @ rx) snd"
  unfolding silences_def
proof (intro allI impI)
  fix n and d :: "u8 option list \<times> bytes" and bs :: bytes
  let ?n = "unat (RS232_TPS - 1)"
  let ?d = "(replicate (n * ?n) None @ rx, snd d @ bs)"
  assume "fst d = replicate (Suc n * ?n) None @ rx"
  then have "puts script_line bs d = (replicate ?n None @ replicate (n * ?n) None @ rx, snd d @ bs)"
    by (cases d) (simp add: puts_script replicate_add)
  then have "reads script_line (replicate ?n None) (puts script_line bs d) ?d" using reads_script by metis
  then have "tcp_recv_timeout script_line (Suc (Suc fuel)) tcp 0 RS232_TPS (puts script_line bs d) =
      Inr (- EAGAIN script_line, tcp, ?d)" if "tcp_wf tcp" for fuel tcp
    using that by (intro tcp_recv_idle) auto
  then show "\<exists>d'. fst d' = replicate (n * ?n) None @ rx \<and> snd d' = snd d @ bs \<and> (\<forall>fuel tcp. tcp_wf tcp \<longrightarrow>
      tcp_recv_timeout script_line (Suc (Suc fuel)) tcp 0 RS232_TPS (puts script_line bs d) = Inr (- EAGAIN script_line, tcp, d'))"
    by (intro exI [of _ ?d]) simp
qed

text \<open>
  Unanswered data is sent six times. On a line where nobody answers, \<^verbatim>\<open>tcp_send\<close> returns -1,
  and what it has put on the line is the same segment six times, with the same payload even
  when it is only in the transmit buffer, in IP packets whose identifications count up.
\<close>

lemma tcp_send_gives_up:
  assumes "quiet_line pf I tx" and "0 < EAGAIN pf" and "data_ok len data" and "I d" and "tcp_wf tcp"
    and "len + 40 \<le> length (tcp_pkt tcp)" and "1 < tcp_seq tcp" and "0 < len" and "8 \<le> fuel"
  shows "\<exists>tcp' d'. tcp_send pf fuel tcp len data w d = Inr (- 1, tcp', d') \<and> tcp_wf tcp' \<and>
    tcp_seq tcp' = tcp_seq tcp \<and>
    tx d' = tx d @ concat (map (\<lambda>i. slip_frame esc_byte (tcp_packet (bump_id i tcp) w (tcp_payload tcp len data))) [0..<6])"
proof -
  from assms(8) have "tcp_seq tcp = 1 \<or> len \<noteq> 0" by simp
  from tcp_send_silent [OF silences_quiet [OF assms(1,2)] assms(2,3) order_refl assms(4-6) this, of "fuel - 8" w] assms(9) show ?thesis
    by (auto simp: tcp_send_def transmissions_def tcp_kept_def comp_def)
qed

lemma tcp_send_gives_up_witness:
  "\<exists>tcp' d'. tcp_send script_line 8 (demo_tcp 7 9) 2 (Some [104, 105]) 0 ([], []) = Inr (- 1, tcp', d') \<and> tcp_wf tcp' \<and>
    tcp_seq tcp' = tcp_seq (demo_tcp 7 9) \<and>
    snd d' = snd ([] :: u8 option list, []) @ concat (map (\<lambda>i. slip_frame esc_byte
      (tcp_packet (bump_id i (demo_tcp 7 9)) 0 (tcp_payload (demo_tcp 7 9) 2 (Some [104, 105])))) [0..<6])"
  by (rule tcp_send_gives_up [OF quiet_script]) (simp_all add: data_ok_def)

text \<open>
  A packet that is not for this session, such as an ICMP message, is \<^verbatim>\<open>-EAGAIN\<close> to the caller,
  and stays in the packet buffer.
\<close>

lemma tcp_recv_foreign:
  assumes "tcp_wf tcp" and "m \<noteq> []" and "length m \<le> length (tcp_pkt tcp)" and "\<not> for_us (loaded m tcp) (int (length m))"
    and "arrives pf to m d d1" and "length m + 2 < fuel"
  shows "tcp_recv_timeout pf fuel tcp 0 to d = Inr (- EAGAIN pf, loaded m tcp, d1)"
proof -
  define f where "f = fuel - 2"
  with assms(6) have f: "fuel = Suc (Suc f)" "length m < f" by arith+
  have "recv_packet pf f (tcp_pkt tcp) (sint (pkt_size (tcp_ip tcp))) to d =
      Inr (int (length m), tcp_pkt (loaded m tcp), d1)"
    by (rule recv_packet_arrives [OF assms(1,5,2,3) f(2)])
  moreover have "set_pkt (tcp_pkt (loaded m tcp)) tcp = loaded m tcp" by (simp add: loaded_def set_pkt_def)
  moreover have "tcp_input pf (loaded m tcp) (int (length m)) = Inr (Done (- EAGAIN pf), loaded m tcp)"
    using assms(3,4) tcp_wf_room [OF assms(1)] by (subst tcp_input_eq) simp_all
  ultimately show ?thesis by (simp add: f(1) tcp_recv_timeout_0 tcp_recv_again.simps)
qed

text \<open>
  C26: data that is only in the transmit buffer is not safe there. \<^verbatim>\<open>tcp_send\<close> with a null pointer
  sends what the application has written to the packet buffer; when the answer is a packet
  that is not for this session, that packet overwrites the data, and the retransmission
  carries bytes of the foreign packet as the data of the session. (The comment of \<^verbatim>\<open>tcp_send\<close>
  allows a null pointer and promises retransmission.)
\<close>

theorem tcp_send_null_resends_foreign:
  assumes "tcp_wf tcp" and "1 < tcp_seq tcp" and "0 < len" and "length m \<le> length (tcp_pkt tcp)"
    and "40 + len \<le> length m" and "m ! 9 \<noteq> IP_TCP" and "bare_segment tcp a"
    and "length m + 4 < fuel" and "length a + 4 < fuel"
  shows "\<exists>tcp' p q. tcp_send script_line fuel tcp len None w
      (map Some (slip_frame esc_byte m) @ map Some (slip_frame esc_byte a) @ rx, tx) =
      Inr (0, tcp', (rx, tx @ slip_frame esc_byte p @ slip_frame esc_byte q)) \<and>
    seg_seq p = tcp_seq tcp \<and> seg_seq q = tcp_seq tcp \<and>
    drop 40 p = take len (drop 40 (tcp_pkt tcp)) \<and> drop 40 q = take len (drop 40 m)"
proof -
  obtain f where f: "fuel = Suc f" "length m + 2 < f" "length a + 3 < f" using assms(8,9) by (cases fuel) auto
  let ?pl = "tcp_payload tcp len None"
  let ?p = "tcp_packet tcp w ?pl" and ?s = "tcp_sent tcp w ?pl"
  let ?t = "loaded m ?s"
  let ?q = "tcp_packet ?t w (tcp_payload ?t len None)"
  have fit: "len + 40 \<le> length (tcp_pkt tcp)" "data_ok len None" using assms(4,5) by (simp_all add: data_ok_def)
  have len: "length ?pl = len" using fit by (rule length_tcp_payload)
  have wf: "tcp_wf ?s" using assms(1) fit len by (intro tcp_wf_sent) simp_all
  have t: "tcp_wf ?t" "len + 40 \<le> length (tcp_pkt ?t)" "1 < tcp_seq ?t" "bare_segment ?t a"
    using tcp_wf_loaded [OF wf, of m] assms fit len by (simp_all add: bare_segment_def packet_for_def)
  have first: "tcp_recv_timeout script_line f ?s 0 RS232_TPS
      (map Some (slip_frame esc_byte m) @ map Some (slip_frame esc_byte a) @ rx, tx @ slip_frame esc_byte ?p) =
      Inr (- 11, ?t, (map Some (slip_frame esc_byte a) @ rx, tx @ slip_frame esc_byte ?p))"
    using assms(4-6) fit len
    by (subst tcp_recv_foreign [OF wf _ _ _ arrives_script f(2)]) (auto simp: for_us_def Let_def nth_append)
  have "arrives script_line RS232_TPS a (puts script_line (slip_frame esc_byte ?q)
      (map Some (slip_frame esc_byte a) @ rx, tx @ slip_frame esc_byte ?p))
      (rx, tx @ slip_frame esc_byte ?p @ slip_frame esc_byte ?q)"
    unfolding puts_script append_assoc by (rule arrives_script) simp
  from tcp_send_answered [OF t(1,3) assms(3) t(2) fit(2) t(4) this f(3), of 1] obtain tcp' where
    "tcp_send_from script_line f 1 ?t len None w (map Some (slip_frame esc_byte a) @ rx, tx @ slip_frame esc_byte ?p) =
      Inr (0, tcp', (rx, tx @ slip_frame esc_byte ?p @ slip_frame esc_byte ?q))" by auto
  with first have "tcp_send script_line fuel tcp len None w
      (map Some (slip_frame esc_byte m) @ map Some (slip_frame esc_byte a) @ rx, tx) =
      Inr (0, tcp', (rx, tx @ slip_frame esc_byte ?p @ slip_frame esc_byte ?q))"
    using assms(3) by (simp add: tcp_send_def f(1) tcp_send_waits [OF assms(1) fit] puts_script)
  moreover have "drop 40 ?p = take len (drop 40 (tcp_pkt tcp))" "drop 40 ?q = take len (drop 40 m)"
    using assms(5) by (simp_all add: tcp_payload_def)
  ultimately show ?thesis
    by (intro exI [of _ tcp'] exI [of _ ?p] exI [of _ ?q]) simp
qed

theorem tcp_send_null_resends_foreign_witness:
  "\<exists>tcp' p q. tcp_send script_line 99 (demo_tcp 7 100) 2 None 0
      (map Some (slip_frame esc_byte (replicate 64 5)) @ map Some (slip_frame esc_byte (demo_seg 100 9 TCP_ACK [])) @ [], []) =
      Inr (0, tcp', ([], [] @ slip_frame esc_byte p @ slip_frame esc_byte q)) \<and>
    seg_seq p = tcp_seq (demo_tcp 7 100) \<and> seg_seq q = tcp_seq (demo_tcp 7 100) \<and>
    drop 40 p = take 2 (drop 40 (tcp_pkt (demo_tcp 7 100))) \<and> drop 40 q = take 2 (drop 40 (replicate 64 5))"
  by (rule tcp_send_null_resends_foreign) (simp_all add: bare_segment_def)

section \<open>Connecting\<close>

text \<open>The context in which \<^verbatim>\<open>tcp_connect\<close> sends its SYN.\<close>

definition syn_ctx :: "tcp_context \<Rightarrow> tcp_context" where
  "syn_ctx tcp = tcp\<lparr>tcp_ths := 0, tcp_seq := 1, tcp_ack := 0\<rparr>"

lemma syn_ctx_sel [simp]:
  "tcp_seq (syn_ctx tcp) = 1" "tcp_ack (syn_ctx tcp) = 0" "tcp_ip (syn_ctx tcp) = tcp_ip tcp"
  "src_port (syn_ctx tcp) = src_port tcp" "dst_port (syn_ctx tcp) = dst_port tcp"
  by (simp_all add: syn_ctx_def)

lemma syn_ctx_wf [simp]: "tcp_wf (syn_ctx tcp) = tcp_wf tcp" "packet_for (syn_ctx tcp) m = packet_for tcp m"
  by (simp_all add: tcp_wf_def packet_for_def)

lemma tcp_connect_first:
  "tcp_connect pf fuel tcp d =
     rbind (tcp_send pf fuel (syn_ctx tcp) 0 None 1 d) (\<lambda>(rc, tcp, d).
       if rc \<ge> 0 then Inr (rc, tcp, d)
       else rbind (rd_u16 (tcp_pkt tcp) (20 + 16)) (\<lambda>cs.
         let tcp = tcp\<lparr>src_port := src_port tcp + cs\<rparr>; (r, d) = get_r_register pf d
         in tcp_connect_loop pf fuel 4 (tcp\<lparr>src_port := src_port tcp + r\<rparr>) d))"
proof -
  have "(5 :: nat) = Suc 4" by simp
  then show ?thesis by (simp only: tcp_connect_def tcp_connect_loop.simps syn_ctx_def)
qed

lemma tcp_payload_0 [simp]: "tcp_payload tcp 0 data = []"
  by (cases data) (simp_all add: tcp_payload_def)

text \<open>A SYN-ACK of the session.\<close>

definition syn_ack :: "tcp_context \<Rightarrow> bytes \<Rightarrow> bool" where
  "syn_ack tcp m \<longleftrightarrow> packet_for tcp m \<and> seg_flags m AND TCP_RST = 0 \<and> seg_flags m AND TCP_SYN \<noteq> 0 \<and> seg_ack m = 2"

lemma tcp_send_syn:
  assumes "tcp_wf tcp" and "tcp_seq tcp = 1" and "syn_ack tcp m"
    and "arrives pf RS232_TPS m (puts pf (slip_frame esc_byte (tcp_packet tcp w [])) d) d1"
    and "length m + 4 < fuel" and "0 < EAGAIN pf"
  defines "t \<equiv> (loaded m (tcp_sent tcp w []))\<lparr>tcp_ths := seg_ths m, tcp_seq := 2, tcp_ack := seg_seq m + 1\<rparr>"
  shows "tcp_send pf fuel tcp 0 None w d = Inr (0, tcp_sent t 0 [], puts pf (slip_frame esc_byte (tcp_packet t 0 [])) d1)"
proof -
  define f where "f = fuel - 4"
  with assms(5) have f: "fuel = Suc (Suc (Suc (Suc f)))" "length m < Suc f" by arith+
  have room: "44 \<le> length (tcp_pkt tcp)" using tcp_wf_room [OF assms(1)] .
  let ?s = "tcp_sent tcp w []"
  have m: "packet_for ?s m" "seg_flags m AND TCP_RST = 0" "40 \<le> length m" "length m \<le> length (tcp_pkt ?s)"
    using assms(3) room by (auto simp: syn_ack_def) (auto simp: packet_for_def)
  have wf: "tcp_wf ?s" using assms(1) room by (intro tcp_wf_sent) simp_all
  then have wft: "tcp_wf t" "1 < tcp_seq t"
    using tcp_wf_loaded [OF wf m(4)] by (simp_all add: t_def tcp_wf_def)
  have "tcp_step (loaded m ?s) (int (length m)) = (AckSyn, t)"
    using assms(2,3) m(3) by (simp add: tcp_step_def Let_def syn_ack_def t_def)
  then have "tcp_recv_timeout pf (Suc (Suc (Suc f))) ?s 0 RS232_TPS (puts pf (slip_frame esc_byte (tcp_packet tcp w [])) d) =
      Inr (0, tcp_sent t 0 [], puts pf (slip_frame esc_byte (tcp_packet t 0 [])) d1)"
    using tcp_recv_arrives [OF wf assms(4) m(1,2) f(2)] by (simp add: tcp_recv_timeout_0 tcp_send_ack [OF wft])
  moreover have "0 + 40 \<le> length (tcp_pkt tcp)" "data_ok 0 None" using room by (simp_all add: data_ok_def)
  ultimately show ?thesis
    using assms(2,6) by (simp add: tcp_send_def f(1) tcp_send_waits [OF assms(1)])
qed

text \<open>
  The context after the SYN-ACK \<open>m\<close> of the context's peer, in which the ACK is sent, and the one
  after the ACK, which is the established session.
\<close>

definition syn_acked :: "tcp_context \<Rightarrow> bytes \<Rightarrow> tcp_context" where
  "syn_acked tcp m = (loaded m (tcp_sent (syn_ctx tcp) 1 []))\<lparr>tcp_ths := seg_ths m, tcp_seq := 2, tcp_ack := seg_seq m + 1\<rparr>"

definition established :: "tcp_context \<Rightarrow> bytes \<Rightarrow> tcp_context" where
  "established tcp m = tcp_sent (syn_acked tcp m) 0 []"

lemma syn_acked_sel [simp]:
  "tcp_seq (syn_acked tcp m) = 2" "tcp_ack (syn_acked tcp m) = seg_seq m + 1"
  "src_port (syn_acked tcp m) = src_port tcp" "dst_port (syn_acked tcp m) = dst_port tcp"
  "daddr (tcp_ip (syn_acked tcp m)) = daddr (tcp_ip tcp)"
  by (simp_all add: syn_acked_def loaded_def set_pkt_def tcp_sent_def)

lemma established_sel [simp]:
  "tcp_seq (established tcp m) = 2" "tcp_ack (established tcp m) = seg_seq m + 1"
  "src_port (established tcp m) = src_port tcp" "dst_port (established tcp m) = dst_port tcp"
  "daddr (tcp_ip (established tcp m)) = daddr (tcp_ip tcp)"
  by (simp_all add: established_def) (simp add: tcp_sent_def)

lemma established_wf:
  assumes "tcp_wf tcp" and "syn_ack tcp m"
  shows "tcp_wf (established tcp m)" and "length (tcp_pkt (established tcp m)) = length (tcp_pkt tcp)"
proof -
  let ?s = "tcp_sent (syn_ctx tcp) 1 []"
  have room: "44 \<le> length (tcp_pkt tcp)" "length m \<le> length (tcp_pkt tcp)"
    using tcp_wf_room [OF assms(1)] assms(2) by (simp_all add: syn_ack_def packet_for_def)
  have len: "length (tcp_pkt ?s) = length (tcp_pkt tcp)" using room by (simp add: syn_ctx_def)
  have wf: "tcp_wf ?s" using assms(1) room by (intro tcp_wf_sent) simp_all
  have "length m \<le> length (tcp_pkt ?s)" using room(2) len by simp
  from tcp_wf_loaded [OF wf this] have t: "tcp_wf (syn_acked tcp m)" by (simp add: syn_acked_def tcp_wf_def)
  have tl: "length (tcp_pkt (syn_acked tcp m)) = length (tcp_pkt tcp)"
    using room(2) len by (simp add: syn_acked_def loaded_def set_pkt_def)
  show "tcp_wf (established tcp m)" "length (tcp_pkt (established tcp m)) = length (tcp_pkt tcp)"
    unfolding established_def using t tl room by (auto intro: tcp_wf_sent)
qed

lemma tcp_connect_established:
  assumes "tcp_wf tcp" and "syn_ack tcp m"
    and "arrives pf RS232_TPS m (puts pf (slip_frame esc_byte (tcp_packet (syn_ctx tcp) 1 [])) d) d1"
    and "length m + 4 < fuel" and "0 < EAGAIN pf"
  shows "tcp_connect pf fuel tcp d =
    Inr (0, established tcp m, puts pf (slip_frame esc_byte (tcp_packet (syn_acked tcp m) 0 [])) d1)"
proof -
  have "tcp_wf (syn_ctx tcp)" "syn_ack (syn_ctx tcp) m"
    using assms(1,2) by (simp_all add: syn_ack_def)
  from tcp_send_syn [OF this(1) _ this(2) assms(3-5)] show ?thesis
    by (simp add: tcp_connect_first established_def syn_acked_def)
qed

text \<open>
  C25: the three way handshake. \<^verbatim>\<open>tcp_connect\<close> sends a SYN with sequence number 1; when the peer
  answers with a SYN-ACK of it, \<^verbatim>\<open>tcp_connect\<close> sends exactly one more packet, the ACK of the
  peer's SYN, and returns 0 with the session established: the next sequence number is 2, the
  acknowledgement number is one past the peer's, and the ports are the ones it was given.
\<close>

theorem tcp_connect_handshake:
  assumes "tcp_wf tcp" and "syn_ack tcp m" and "syn = tcp_packet (syn_ctx tcp) 1 []"
    and "arrives pf RS232_TPS m (puts pf (slip_frame esc_byte syn) d) d1"
    and "length m + 4 < fuel" and "0 < EAGAIN pf"
  shows "\<exists>tcp' a. tcp_connect pf fuel tcp d = Inr (0, tcp', puts pf (slip_frame esc_byte a) d1) \<and>
    seg_flags syn = TCP_SYN \<and> seg_seq syn = 1 \<and> length syn = 40 \<and>
    seg_flags a = TCP_ACK \<and> seg_seq a = 2 \<and> seg_ack a = seg_seq m + 1 \<and> length a = 40 \<and>
    tcp_seq tcp' = 2 \<and> tcp_ack tcp' = seg_seq m + 1 \<and>
    src_port tcp' = src_port tcp \<and> dst_port tcp' = dst_port tcp"
  using tcp_connect_established [OF assms(1,2) assms(4) [unfolded assms(3)] assms(5,6)]
  by (auto simp: assms(3) tcp_out_flags_def)

theorem tcp_connect_handshake_witness:
  "\<exists>tcp' a. tcp_connect script_line 60 (demo_tcp 0 0)
      (map Some (slip_frame esc_byte (demo_seg 99 2 0x12 [])) @ [], []) = Inr (0, tcp', puts script_line (slip_frame esc_byte a)
        ([], [] @ slip_frame esc_byte (tcp_packet (syn_ctx (demo_tcp 0 0)) 1 []))) \<and>
    seg_flags (tcp_packet (syn_ctx (demo_tcp 0 0)) 1 []) = TCP_SYN \<and>
    seg_seq (tcp_packet (syn_ctx (demo_tcp 0 0)) 1 []) = 1 \<and> length (tcp_packet (syn_ctx (demo_tcp 0 0)) 1 []) = 40 \<and>
    seg_flags a = TCP_ACK \<and> seg_seq a = 2 \<and> seg_ack a = seg_seq (demo_seg 99 2 0x12 []) + 1 \<and> length a = 40 \<and>
    tcp_seq tcp' = 2 \<and> tcp_ack tcp' = seg_seq (demo_seg 99 2 0x12 []) + 1 \<and>
    src_port tcp' = src_port (demo_tcp 0 0) \<and> dst_port tcp' = dst_port (demo_tcp 0 0)"
  by (rule tcp_connect_handshake [where m = "demo_seg 99 2 0x12 []"])
    (simp_all add: syn_ack_def puts_script arrives_script del: append_Nil append_Nil2)

text \<open>
  What \<^verbatim>\<open>tcp_connect\<close> keeps: everything a session keeps but the source port, which changes with
  every try.
\<close>

definition same_peer :: "tcp_context \<Rightarrow> tcp_context \<Rightarrow> bool" where
  "same_peer tcp tcp' \<longleftrightarrow> tcp_wf tcp' \<and> length (tcp_pkt tcp') = length (tcp_pkt tcp) \<and>
     pkt_size (tcp_ip tcp') = pkt_size (tcp_ip tcp) \<and> saddr (tcp_ip tcp') = saddr (tcp_ip tcp) \<and>
     daddr (tcp_ip tcp') = daddr (tcp_ip tcp) \<and> dst_port tcp' = dst_port tcp"

lemma same_peer_trans: "same_peer a b \<Longrightarrow> same_peer b c \<Longrightarrow> same_peer a c"
  by (simp add: same_peer_def)

lemma same_peer_wf: "same_peer a b \<Longrightarrow> tcp_wf b"
  by (simp add: same_peer_def)

text \<open>While the SYN is out, a result that is no error means that the SYN-ACK has been taken.\<close>

definition syn_result :: "int \<Rightarrow> tcp_context \<Rightarrow> bool" where
  "syn_result rc tcp \<longleftrightarrow> rc \<le> 0 \<and> (if rc < 0 then tcp_seq tcp = 1 else tcp_seq tcp = 2)"

lemma syn_result_iff:
  "syn_result rc t \<longleftrightarrow> rc < 0 \<and> tcp_seq t = 1 \<or> rc = 0 \<and> tcp_seq t = 2"
  by (auto simp: syn_result_def)

lemma tcp_step_syn:
  assumes "tcp_seq tcp = 1" and "tcp_step tcp len = (act, tcp')"
  shows "act = AckSyn \<and> tcp_seq tcp' = 2 \<or> (\<exists>rc < 0. act = Done rc \<and> tcp_seq tcp' = 1)"
  using assms by (auto simp: tcp_step_def Let_def split: if_splits)

lemma tcp_input_syn:
  assumes "tcp_wf tcp" and "tcp_seq tcp = 1" and "0 < EAGAIN pf"
  shows "holds_res (\<lambda>(act, t). tcp_kept tcp t \<and>
    (act = AckSyn \<and> tcp_seq t = 2 \<or> (\<exists>rc < 0. act = Done rc \<and> tcp_seq t = 1))) (tcp_input pf tcp len)"
proof -
  have "40 \<le> length (tcp_pkt tcp)" using tcp_wf_room [OF assms(1)] by simp
  then have "holds_res (\<lambda>(act, t). act = AckSyn \<and> tcp_seq t = 2 \<or> (\<exists>rc < 0. act = Done rc \<and> tcp_seq t = 1))
      (tcp_input pf tcp len)"
    using assms(2,3) tcp_step_syn [OF assms(2)] by (auto simp: tcp_input_eq split: prod.splits)
  from holds_res_conj [OF holds_tcp_input [OF assms(1)] this] show ?thesis
    by (rule holds_res_mono) auto
qed

lemma holds_ack_syn:
  assumes "tcp_wf t" and "tcp_seq t = 2"
  shows "holds_res (\<lambda>(rc, t', d'). tcp_kept t t' \<and> tcp_seq t' = 2) (tcp_send_from pf fuel 0 t 0 None 0 d)"
proof (cases fuel)
  case (Suc f)
  have "tcp_kept t (tcp_sent t 0 [])" using assms tcp_wf_room [OF assms(1)] by (intro tcp_kept_sent) simp_all
  then show ?thesis using assms by (simp add: Suc tcp_send_ack)
qed (simp add: tcp_send_from.simps)

lemma tcp_recv_syn:
  assumes "tcp_wf tcp" and "tcp_seq tcp = 1" and "0 < EAGAIN pf"
  shows "holds_res (\<lambda>(rc, t, d'). tcp_kept tcp t \<and> syn_result rc t) (tcp_recv_timeout pf fuel tcp 0 to d)"
proof (cases fuel)
  case (Suc f)
  have input: "holds_res (\<lambda>(act, t). tcp_kept tcp t \<and>
      (act = AckSyn \<and> tcp_seq t = 2 \<or> (\<exists>rc < 0. act = Done rc \<and> tcp_seq t = 1))) (tcp_input pf (set_pkt p tcp) len)"
    if "length p = length (tcp_pkt tcp)" for p len
    using tcp_kept_set_pkt [OF assms(1) that] assms(2)
    by (intro holds_res_mono [OF tcp_input_syn [OF tcp_wf_set_pkt [OF assms(1) that] _ assms(3)]])
      (auto simp: set_pkt_def intro: tcp_kept_trans)
  have ack: "holds_res (\<lambda>(rc, t', d'). tcp_kept tcp t' \<and> tcp_seq t' = 2) (tcp_send_from pf g 0 t 0 None 0 d)"
    if "tcp_kept tcp t" "tcp_seq t = 2" for g t d
    using that by (intro holds_res_mono [OF holds_ack_syn]) (auto dest: tcp_kept_wf intro: tcp_kept_trans)
  have "holds_res (\<lambda>(rc, t, d'). tcp_kept tcp t \<and> syn_result rc t) (tcp_recv_again pf (Suc g) tcp to d)" for g
    unfolding tcp_recv_again.simps
    by (rule holds_res_rbindI [OF holds_recv_packet [OF assms(1)]])
      (auto simp: syn_result_iff intro!: holds_res_rbindI [OF input] holds_res_rbindI [OF ack])
  then show ?thesis
    unfolding Suc tcp_recv_timeout_0 by (cases f) (simp_all add: tcp_recv_again.simps(1))
qed (simp add: tcp_recv_timeout.simps)

lemma tcp_send_syn_sound:
  assumes "0 < EAGAIN pf" and "tcp_wf tcp" and "tcp_seq tcp = 1"
  shows "holds_res (\<lambda>(rc, t, d'). tcp_kept tcp t \<and> syn_result rc t) (tcp_send_from pf fuel retries tcp 0 None w d)"
  using assms(2,3)
proof (induction fuel arbitrary: tcp retries d)
  case (Suc fuel)
  have room: "0 + 40 \<le> length (tcp_pkt tcp)" "data_ok 0 None"
    using tcp_wf_room [OF Suc.prems(1)] by (simp_all add: data_ok_def)
  have s: "tcp_kept tcp (tcp_sent tcp w [])" "tcp_wf (tcp_sent tcp w [])"
    using Suc.prems room by (auto intro: tcp_kept_sent tcp_wf_sent)
  have recv: "holds_res (\<lambda>(rc, t, d'). tcp_kept tcp t \<and> syn_result rc t)
      (tcp_recv_timeout pf fuel (tcp_sent tcp w []) 0 RS232_TPS d)" for d
    using s Suc.prems(2) by (intro holds_res_mono [OF tcp_recv_syn [OF _ _ assms(1)]]) (auto intro: tcp_kept_trans)
  have again: "holds_res (\<lambda>(rc, t, d'). tcp_kept tcp t \<and> syn_result rc t) (tcp_send_from pf fuel r t 0 None w d)"
    if "tcp_kept tcp t" "tcp_seq t = 1" for t r d
    using that by (intro holds_res_mono [OF Suc.IH]) (auto dest: tcp_kept_wf intro: tcp_kept_trans)
  note again = again [unfolded syn_result_iff]
  show ?case
    unfolding tcp_send_waits [OF Suc.prems(1) room disjI1 [OF Suc.prems(2)]] tcp_payload_0
    by (rule holds_res_rbindI [OF recv]) (use assms(1) in \<open>auto intro!: again simp: syn_result_iff\<close>)
qed (simp add: tcp_send_from.simps)

lemma tcp_connect_loop_sound:
  assumes "0 < EAGAIN pf" and "tcp_wf tcp"
  shows "holds_res (\<lambda>(rc, t, d'). same_peer tcp t \<and> (rc = 0 \<or> rc = - 1) \<and> (rc = 0 \<longrightarrow> tcp_seq t = 2)) (tcp_connect_loop pf fuel left tcp d)"
  using assms(2)
proof (induction left arbitrary: tcp d)
  case (Suc left)
  have send: "holds_res (\<lambda>(rc, t, d'). same_peer tcp t \<and> syn_result rc t)
      (tcp_send pf fuel (tcp\<lparr>tcp_seq := 1, tcp_ack := 0\<rparr>) 0 None 1 d)" for d
    unfolding tcp_send_def using Suc.prems
    by (intro holds_res_mono [OF tcp_send_syn_sound [OF assms(1)]])
      (auto simp: tcp_wf_def tcp_kept_def same_peer_def)
  have next_try: "holds_res (\<lambda>(rc, t, d'). same_peer tcp t \<and> (rc = 0 \<or> rc = - 1) \<and> (rc = 0 \<longrightarrow> tcp_seq t = 2))
      (tcp_connect_loop pf fuel left (t\<lparr>src_port := p\<rparr>) d)" if "same_peer tcp t" for t p d
  proof -
    have "same_peer tcp (t\<lparr>src_port := p\<rparr>)" using that by (auto simp: same_peer_def tcp_wf_def)
    then show ?thesis
      by (intro holds_res_mono [OF Suc.IH]) (auto simp: same_peer_wf intro: same_peer_trans)
  qed
  have cs: "\<exists>v. rd_u16 (tcp_pkt t) (20 + 16) = Inr v" if "same_peer tcp t" for t
    using that tcp_wf_room [of t] by (auto simp: same_peer_def rd_u16_def rd_ok)
  show ?case
    unfolding tcp_connect_loop.simps
  proof (rule holds_res_rbindI [OF send], clarify)
    fix rc t d'
    assume t: "same_peer tcp t" "syn_result rc t"
    from cs [OF t(1)] obtain v where "rd_u16 (tcp_pkt t) (20 + 16) = Inr v" by blast
    then show "holds_res (\<lambda>(rc, t, d'). same_peer tcp t \<and> (rc = 0 \<or> rc = - 1) \<and> (rc = 0 \<longrightarrow> tcp_seq t = 2))
      (if 0 \<le> rc then Inr (rc, t, d') else rbind (rd_u16 (tcp_pkt t) (20 + 16)) (\<lambda>cs.
         let tcp = t\<lparr>src_port := src_port t + cs\<rparr>; (r, d) = get_r_register pf d'
         in tcp_connect_loop pf fuel left (tcp\<lparr>src_port := src_port tcp + r\<rparr>) d))"
      using t next_try [OF t(1)] by (auto simp: syn_result_def Let_def split: prod.splits if_splits)
  qed
qed (simp add: same_peer_def)

text \<open>
  \<^verbatim>\<open>tcp_connect\<close> is sound on every line. Whatever arrives, it never touches memory outside the
  packet buffer and keeps the context well-formed and for the same peer; its result is 0 or
  -1; and 0 is returned only when the SYN-ACK has been taken, so with the next sequence
  number 2.
\<close>

lemma tcp_connect_sound:
  assumes "tcp_wf tcp" and "0 < EAGAIN pf"
  shows "holds_res (\<lambda>(rc, tcp', d'). tcp_wf tcp' \<and> length (tcp_pkt tcp') = length (tcp_pkt tcp) \<and>
      saddr (tcp_ip tcp') = saddr (tcp_ip tcp) \<and> daddr (tcp_ip tcp') = daddr (tcp_ip tcp) \<and>
      dst_port tcp' = dst_port tcp \<and> (rc = 0 \<or> rc = - 1) \<and> (rc = 0 \<longrightarrow> tcp_seq tcp' = 2)) (tcp_connect pf fuel tcp d)"
proof -
  have "tcp_wf (tcp\<lparr>tcp_ths := 0\<rparr>)" using assms(1) by (simp add: tcp_wf_def)
  from tcp_connect_loop_sound [OF assms(2) this] show ?thesis
    unfolding tcp_connect_def by (rule holds_res_mono) (auto simp: same_peer_def)
qed

end
