(* ===== verification/Tcp_Stream.thy ===== *)
theory Tcp_Stream
  imports Tcp_Connect
begin

text \<open>
  Receiving as a stream of bytes. What the peer is allowed to do is part of the statement: it sends
  segments of one stream, repeats them as it likes and never skips data that has not been
  acknowledged. The code refines an abstract receiver that has only a position in the stream.
\<close>

section \<open>Receiving a stream\<close>

text \<open>What one call finds on the line: a segment, or nothing until its timeout.\<close>

datatype arrival = Segment bytes | Quiet

fun arrival_events :: "u16 \<Rightarrow> arrival \<Rightarrow> u8 option list" where
  "arrival_events to (Segment m) = map Some (slip_frame esc_byte m)"
| "arrival_events to Quiet = replicate (unat (to - 1)) None"

text \<open>An application that makes \<open>n\<close> calls and collects what they deliver.\<close>

fun receive_all :: "'d platform \<Rightarrow> nat \<Rightarrow> u16 \<Rightarrow> nat \<Rightarrow> tcp_context \<Rightarrow> 'd \<Rightarrow> (bytes \<times> tcp_context \<times> 'd) res" where
  "receive_all pf fuel to 0 tcp d = Inr ([], tcp, d)"
| "receive_all pf fuel to (Suc n) tcp d =
     rbind (tcp_recv_timeout pf fuel tcp 0 to d) (\<lambda>(rc, tcp, d).
     rbind (receive_all pf fuel to n tcp d) (\<lambda>(bs, tcp', d).
       Inr ((if rc > 0 then take (nat rc) (tcp_rx_buffer tcp) else []) @ bs, tcp', d)))"

text \<open>A segment with a part of the stream \<open>S\<close>, whose first byte has the sequence number \<open>s0\<close>.\<close>

abbreviation seg_len :: "bytes \<Rightarrow> nat" where
  "seg_len m \<equiv> length m - 20 - unat (seg_ths m)"

definition stream_segment :: "tcp_context \<Rightarrow> nat \<Rightarrow> bytes \<Rightarrow> bytes \<Rightarrow> bool" where
  "stream_segment tcp s0 S m \<longleftrightarrow> packet_for tcp m \<and> seg_flags m AND TCP_RST = 0 \<and> data_segment m \<and>
     s0 \<le> unat (seg_seq m) \<and> unat (seg_seq m) + seg_len m \<le> s0 + length S \<and>
     drop (20 + unat (seg_ths m)) m = take (seg_len m) (drop (unat (seg_seq m) - s0) S)"

text \<open>
  The abstract receiver: it has taken \<open>e\<close> bytes of the stream, takes a segment that starts there and
  ignores any other. \<open>no_holes\<close> says that the peer never skips data, \<open>ack_points\<close> are the positions
  after each segment that was taken.
\<close>

definition next_pos :: "nat \<Rightarrow> nat \<Rightarrow> bytes \<Rightarrow> nat" where
  "next_pos s0 e m = (if unat (seg_seq m) = s0 + e then e + seg_len m else e)"

fun advance :: "nat \<Rightarrow> nat \<Rightarrow> arrival list \<Rightarrow> nat" where
  "advance s0 e [] = e"
| "advance s0 e (Quiet # as) = advance s0 e as"
| "advance s0 e (Segment m # as) = advance s0 (next_pos s0 e m) as"

fun no_holes :: "nat \<Rightarrow> nat \<Rightarrow> arrival list \<Rightarrow> bool" where
  "no_holes s0 e [] \<longleftrightarrow> True"
| "no_holes s0 e (Quiet # as) \<longleftrightarrow> no_holes s0 e as"
| "no_holes s0 e (Segment m # as) \<longleftrightarrow> unat (seg_seq m) \<le> s0 + e \<and> no_holes s0 (next_pos s0 e m) as"

fun ack_points :: "nat \<Rightarrow> nat \<Rightarrow> arrival list \<Rightarrow> nat list" where
  "ack_points s0 e [] = []"
| "ack_points s0 e (Quiet # as) = ack_points s0 e as"
| "ack_points s0 e (Segment m # as) =
     (if unat (seg_seq m) = s0 + e then [next_pos s0 e m] else []) @ ack_points s0 (next_pos s0 e m) as"

lemma advance_bounds:
  assumes "\<And>m. Segment m \<in> set as \<Longrightarrow> stream_segment tcp s0 S m" and "e \<le> length S"
  shows "e \<le> advance s0 e as \<and> advance s0 e as \<le> length S"
  using assms
proof (induction s0 e as rule: advance.induct)
  case (3 s0 e m as)
  have "stream_segment tcp s0 S m" using "3.prems"(1) by simp
  then have "e \<le> next_pos s0 e m" "next_pos s0 e m \<le> length S"
    using "3.prems"(2) by (auto simp: next_pos_def stream_segment_def)
  then show ?case using "3.IH" "3.prems"(1) by (metis advance.simps(3) le_trans list.set_intros(2))
qed simp_all

text \<open>The context between two calls.\<close>

definition rx_ready :: "tcp_context \<Rightarrow> nat \<Rightarrow> tcp_context \<Rightarrow> bool" where
  "rx_ready tcp0 n tcp \<longleftrightarrow> tcp_wf tcp \<and> 1 < tcp_seq tcp \<and> tcp_ack tcp = word_of_nat n \<and>
     length (tcp_pkt tcp) = length (tcp_pkt tcp0) \<and> dst_port tcp = dst_port tcp0 \<and> src_port tcp = src_port tcp0"

lemma rx_ready_packet_for: "rx_ready tcp0 n tcp \<Longrightarrow> packet_for tcp m = packet_for tcp0 m"
  by (simp add: rx_ready_def packet_for_def)

lemma rx_ready_taken:
  assumes "rx_ready tcp0 n tcp" and "packet_for tcp0 m" and "data_segment m" and "unat (seg_seq m) = n"
  shows "rx_ready tcp0 (n + seg_len m) (tcp_sent (taken m tcp) 0 [])"
proof -
  have m: "packet_for tcp m" using assms(1,2) by (simp add: rx_ready_packet_for)
  then have "tcp_wf (taken m tcp)"
    using tcp_wf_loaded [of tcp m] assms(1) by (simp add: rx_ready_def packet_for_def tcp_wf_def taken_def)
  then have "tcp_wf (tcp_sent (taken m tcp) 0 [])" using tcp_wf_room by (intro tcp_wf_sent) fastforce+
  moreover have "seg_seq m = word_of_nat n" using assms(4) by (simp flip: assms(4))
  moreover have "dst_port (taken m tcp) = dst_port tcp" "src_port (taken m tcp) = src_port tcp" by (simp_all add: taken_def)
  ultimately show ?thesis
    using assms(1) m tcp_wf_room [of "taken m tcp"]
    by (auto simp: rx_ready_def packet_for_def less_max_iff_disj length_pkt_sent)
qed

lemma rx_ready_ignored:
  assumes "rx_ready tcp0 n tcp" and "packet_for tcp0 m"
  shows "rx_ready tcp0 n (ignored m tcp)"
  using assms tcp_wf_loaded [of tcp m]
  by (auto simp: rx_ready_def packet_for_def tcp_wf_def ignored_def less_max_iff_disj)

text \<open>One call.\<close>

lemma stream_segment_usable:
  assumes "rx_ready tcp0 n tcp" and "stream_segment tcp0 s0 S m" and "length (tcp_pkt tcp0) + 2 < fuel"
  shows "packet_for tcp m" "seg_flags m AND TCP_RST = 0" "data_segment m" "length m + 2 < fuel"
proof -
  have "packet_for tcp0 m" using assms(2) by (simp add: stream_segment_def)
  then show "packet_for tcp m" "length m + 2 < fuel"
    using assms(1,3) by (simp add: rx_ready_packet_for, simp add: packet_for_def)
qed (use assms(2) in \<open>simp_all add: stream_segment_def\<close>)

lemma receive_taken:
  assumes "rx_ready tcp0 (s0 + e) tcp" and "stream_segment tcp0 s0 S m" and "unat (seg_seq m) = s0 + e"
    and "1 < unat to" and "length (tcp_pkt tcp0) + 2 < fuel"
  shows "receive_all script_line fuel to (Suc n) tcp (arrival_events to (Segment m) @ rx, tx) =
    rbind (receive_all script_line fuel to n (tcp_sent (taken m tcp) 0 [])
        (rx, tx @ slip_frame esc_byte (tcp_packet (taken m tcp) 0 [])))
      (\<lambda>(bs, tcp', d). Inr (take (seg_len m) (drop e S) @ bs, tcp', d))"
proof -
  note m = stream_segment_usable [OF assms(1,2,5)]
  define k where "k = seg_len m"
  have "tcp_ack tcp = seg_seq m" "tcp_wf tcp" "1 < tcp_seq tcp"
    using assms(1) by (simp_all add: rx_ready_def flip: assms(3))
  then have "tcp_recv_timeout script_line fuel tcp 0 to (arrival_events to (Segment m) @ rx, tx) =
      Inr (int k, tcp_sent (taken m tcp) 0 [], (rx, tx @ slip_frame esc_byte (tcp_packet (taken m tcp) 0 [])))"
    unfolding k_def
    using tcp_recv_taken [OF _ _ m(1-3) _ arrives_script m(4), where to = to] assms(4) by (simp add: puts_script)
  moreover have "0 < k" using m(3) by (auto simp: data_segment_def k_def)
  moreover have "take k (tcp_rx_buffer (tcp_sent (taken m tcp) 0 [])) = take k (drop e S)"
    using rx_buffer_taken [OF m(3), of tcp] m(1) assms(2,3) by (simp add: packet_for_def stream_segment_def k_def)
  ultimately show ?thesis unfolding k_def [symmetric] by simp
qed

lemma receive_ignored:
  assumes "rx_ready tcp0 (s0 + e) tcp" and "stream_segment tcp0 s0 S m" and "unat (seg_seq m) < s0 + e"
    and "s0 + e < 2 ^ 32" and "1 < unat to" and "length (tcp_pkt tcp0) + 2 < fuel"
  shows "receive_all script_line fuel to (Suc n) tcp (arrival_events to (Segment m) @ rx, tx) =
    receive_all script_line fuel to n (ignored m tcp) (rx, tx)"
proof -
  note m = stream_segment_usable [OF assms(1,2,6)]
  have "unat (word_of_nat (s0 + e) :: u32) = s0 + e" using assms(4) by (simp only: unat_of_nat) simp
  then have "seg_seq m < tcp_ack tcp" "tcp_wf tcp" "1 < tcp_seq tcp"
    using assms(1,3) by (simp_all only: rx_ready_def word_less_nat_alt)
  from tcp_recv_old [OF this(2,3) m(1-3) this(1) arrives_script m(4)] assms(5) show ?thesis
    by (cases "receive_all script_line fuel to n (ignored m tcp) (rx, tx)") auto
qed

lemma receive_quiet:
  assumes "tcp_wf tcp" and "1 < unat to" and "2 \<le> fuel"
  shows "receive_all script_line fuel to (Suc n) tcp (arrival_events to Quiet @ rx, tx) =
    receive_all script_line fuel to n tcp (rx, tx)"
proof -
  obtain f where "fuel = Suc (Suc f)" using assms(3) by (metis add_2_eq_Suc le_Suc_ex)
  then have "tcp_recv_timeout script_line fuel tcp 0 to (arrival_events to Quiet @ rx, tx) = Inr (- 11, tcp, (rx, tx))"
    using tcp_recv_idle [OF reads_script, of "replicate (unat (to - 1)) None" to tcp f rx tx] assms(1) by simp
  then show ?thesis by (cases "receive_all script_line fuel to n tcp (rx, tx)") auto
qed

text \<open>
  Any number of calls: they deliver the part of the stream between the positions of the abstract
  receiver, and acknowledge each position it reaches.
\<close>

definition delivers :: "nat \<Rightarrow> u16 \<Rightarrow> tcp_context \<Rightarrow> nat \<Rightarrow> bytes \<Rightarrow> arrival list \<Rightarrow> nat \<Rightarrow> tcp_context \<Rightarrow> bool" where
  "delivers fuel to tcp0 s0 S as e tcp \<longleftrightarrow> (\<forall>rx tx. \<exists>tcp' ps.
     receive_all script_line fuel to (length as) tcp (concat (map (arrival_events to) as) @ rx, tx) =
       Inr (take (advance s0 e as - e) (drop e S), tcp', (rx, tx @ concat (map (slip_frame esc_byte) ps))) \<and>
     rx_ready tcp0 (s0 + advance s0 e as) tcp' \<and> map seg_ack ps = map (\<lambda>n. word_of_nat (s0 + n)) (ack_points s0 e as))"

lemma delivers_Nil: "rx_ready tcp0 (s0 + e) tcp \<Longrightarrow> delivers fuel to tcp0 s0 S [] e tcp"
  by (simp add: delivers_def)

lemma delivers_quiet:
  assumes "delivers fuel to tcp0 s0 S as e tcp" and "rx_ready tcp0 n tcp" and "1 < unat to" and "2 \<le> fuel"
  shows "delivers fuel to tcp0 s0 S (Quiet # as) e tcp"
  unfolding delivers_def
proof (intro allI)
  fix rx tx
  have "receive_all script_line fuel to (length (Quiet # as)) tcp (concat (map (arrival_events to) (Quiet # as)) @ rx, tx) =
      receive_all script_line fuel to (length as) tcp (concat (map (arrival_events to) as) @ rx, tx)"
    using receive_quiet [of tcp to fuel "length as"] assms(2-4) by (simp add: rx_ready_def)
  with assms(1) show "\<exists>tcp' ps. receive_all script_line fuel to (length (Quiet # as)) tcp (concat (map (arrival_events to) (Quiet # as)) @ rx, tx) =
       Inr (take (advance s0 e (Quiet # as) - e) (drop e S), tcp', (rx, tx @ concat (map (slip_frame esc_byte) ps))) \<and>
     rx_ready tcp0 (s0 + advance s0 e (Quiet # as)) tcp' \<and> map seg_ack ps = map (\<lambda>n. word_of_nat (s0 + n)) (ack_points s0 e (Quiet # as))"
    by (simp only: delivers_def advance.simps ack_points.simps)
qed

lemma delivers_taken:
  assumes "delivers fuel to tcp0 s0 S as (next_pos s0 e m) (tcp_sent (taken m tcp) 0 [])" and "next_pos s0 e m \<le> advance s0 (next_pos s0 e m) as"
    and "rx_ready tcp0 (s0 + e) tcp" and "stream_segment tcp0 s0 S m" and "unat (seg_seq m) = s0 + e"
    and "1 < unat to" and "length (tcp_pkt tcp0) + 2 < fuel"
  shows "delivers fuel to tcp0 s0 S (Segment m # as) e tcp"
  unfolding delivers_def
proof (intro allI)
  fix rx tx
  let ?e = "next_pos s0 e m" and ?ack = "tcp_packet (taken m tcp) 0 []"
  have e1: "?e = e + seg_len m" using assms(5) by (simp add: next_pos_def)
  from assms(1) [unfolded delivers_def, rule_format, of rx "tx @ slip_frame esc_byte ?ack"] obtain tcp' ps where
    IH: "receive_all script_line fuel to (length as) (tcp_sent (taken m tcp) 0 []) (concat (map (arrival_events to) as) @ rx, tx @ slip_frame esc_byte ?ack) =
      Inr (take (advance s0 ?e as - ?e) (drop ?e S), tcp', (rx, (tx @ slip_frame esc_byte ?ack) @ concat (map (slip_frame esc_byte) ps)))"
    "rx_ready tcp0 (s0 + advance s0 ?e as) tcp'" "map seg_ack ps = map (\<lambda>n. word_of_nat (s0 + n)) (ack_points s0 ?e as)"
    by blast
  have "advance s0 ?e as - e = seg_len m + (advance s0 ?e as - ?e)" using assms(2) by (simp add: e1)
  then have "take (seg_len m) (drop e S) @ take (advance s0 ?e as - ?e) (drop ?e S) = take (advance s0 ?e as - e) (drop e S)"
    by (simp add: take_add e1 add.commute)
  moreover have "seg_ack ?ack = word_of_nat (s0 + ?e)"
    by (simp add: e1 add.assoc [symmetric] flip: assms(5))
  ultimately show "\<exists>tcp' ps. receive_all script_line fuel to (length (Segment m # as)) tcp (concat (map (arrival_events to) (Segment m # as)) @ rx, tx) =
       Inr (take (advance s0 e (Segment m # as) - e) (drop e S), tcp', (rx, tx @ concat (map (slip_frame esc_byte) ps))) \<and>
     rx_ready tcp0 (s0 + advance s0 e (Segment m # as)) tcp' \<and>
     map seg_ack ps = map (\<lambda>n. word_of_nat (s0 + n)) (ack_points s0 e (Segment m # as))"
    using IH receive_taken [OF assms(3-7)] assms(5) by (intro exI [of _ tcp'] exI [of _ "?ack # ps"]) simp
qed

lemma delivers_ignored:
  assumes "delivers fuel to tcp0 s0 S as e (ignored m tcp)" and "rx_ready tcp0 (s0 + e) tcp" and "stream_segment tcp0 s0 S m"
    and "unat (seg_seq m) < s0 + e" and "s0 + e < 2 ^ 32" and "1 < unat to" and "length (tcp_pkt tcp0) + 2 < fuel"
  shows "delivers fuel to tcp0 s0 S (Segment m # as) e tcp"
  using assms(1,4) receive_ignored [OF assms(2-7), of "length as"] by (simp add: delivers_def next_pos_def)

lemma receive_stream:
  assumes "s0 + length S < 2 ^ 32" and "1 < unat to" and "length (tcp_pkt tcp0) + 2 < fuel"
    and "\<And>m. Segment m \<in> set as \<Longrightarrow> stream_segment tcp0 s0 S m"
    and "no_holes s0 e as" and "e \<le> length S" and "rx_ready tcp0 (s0 + e) tcp"
  shows "delivers fuel to tcp0 s0 S as e tcp"
  using assms(4-7)
proof (induction as arbitrary: e tcp)
  case (Cons a as)
  show ?case
  proof (cases a)
    case Quiet
    then show ?thesis using Cons delivers_quiet assms(2,3) by simp
  next
    case (Segment m)
    have m: "stream_segment tcp0 s0 S m" using Cons.prems(1) Segment by simp
    let ?e = "next_pos s0 e m"
    have e': "?e \<le> length S" "no_holes s0 ?e as"
      using m Cons.prems(2,3) Segment by (auto simp: next_pos_def stream_segment_def)
    note IH = Cons.IH [OF _ e'(2,1)]
    show ?thesis
    proof (cases "unat (seg_seq m) = s0 + e")
      case True
      then have "rx_ready tcp0 (s0 + ?e) (tcp_sent (taken m tcp) 0 [])"
        using rx_ready_taken [OF Cons.prems(4) _ _ True] m by (simp add: stream_segment_def next_pos_def add.assoc)
      moreover have "?e \<le> advance s0 ?e as" using advance_bounds [of as tcp0 s0 S ?e] Cons.prems(1) e'(1) by simp
      ultimately show ?thesis
        unfolding Segment using Cons.prems(1) by (intro delivers_taken [OF IH _ Cons.prems(4) m True assms(2,3)]) simp_all
    next
      case False
      then have old: "unat (seg_seq m) < s0 + e" "?e = e" using Cons.prems(2) Segment by (auto simp: next_pos_def)
      have "rx_ready tcp0 (s0 + e) (ignored m tcp)"
        using rx_ready_ignored [OF Cons.prems(4)] m by (simp add: stream_segment_def)
      then show ?thesis
        unfolding Segment using IH [unfolded old(2)] Cons.prems(1,3) assms(1)
        by (intro delivers_ignored [OF _ Cons.prems(4) m old(1) _ assms(2,3)]) simp_all
    qed
  qed
qed (rule delivers_Nil)

text \<open>
  C3: the stream of the peer is delivered in order, without gaps and without duplicates. Whatever
  segments of its stream the peer sends, of any size, repeated as often as it likes, with
  pauses in between, as long as it skips nothing and the sequence numbers do not wrap: the
  bytes that the calls of \<^verbatim>\<open>tcp_recv_timeout\<close> deliver are exactly the beginning of the stream up to the
  position the abstract receiver has reached, the acknowledgement number is this position, and
  one ACK went out for each segment that was taken, none for a repeated one.
\<close>

theorem tcp_stream_received:
  assumes "tcp_wf tcp" and "1 < tcp_seq tcp" and "tcp_ack tcp = word_of_nat s0" and "s0 + length S < 2 ^ 32"
    and "1 < unat to" and "length (tcp_pkt tcp) + 2 < fuel"
    and "\<forall>m. Segment m \<in> set as \<longrightarrow> stream_segment tcp s0 S m" and "no_holes s0 0 as"
  shows "\<exists>tcp' acks. receive_all script_line fuel to (length as) tcp (concat (map (arrival_events to) as) @ rx, tx) =
      Inr (take (advance s0 0 as) S, tcp', (rx, tx @ concat (map (slip_frame esc_byte) acks))) \<and>
    tcp_wf tcp' \<and> tcp_ack tcp' = word_of_nat (s0 + advance s0 0 as) \<and>
    map seg_ack acks = map (\<lambda>n. word_of_nat (s0 + n)) (ack_points s0 0 as)"
proof -
  have "rx_ready tcp (s0 + 0) tcp" using assms(1-3) by (simp add: rx_ready_def)
  from receive_stream [OF assms(4-6) _ assms(8) _ this] assms(7)
  have "delivers fuel to tcp s0 S as 0 tcp" by simp
  then show ?thesis by (force simp: delivers_def rx_ready_def)
qed

text \<open>A stream of three bytes in two segments, the first of which is repeated after a pause.\<close>

definition demo_arrivals :: "arrival list" where
  "demo_arrivals = [Segment (demo_seg 100 7 TCP_ACK [104, 105]), Quiet, Segment (demo_seg 100 7 TCP_ACK [104, 105]),
     Segment (demo_seg 102 7 TCP_ACK [106])]"

theorem tcp_stream_received_witness:
  "\<exists>tcp' acks. receive_all script_line 600 3 (length demo_arrivals) (demo_tcp 7 100)
      (concat (map (arrival_events 3) demo_arrivals) @ [], []) =
      Inr (take (advance 100 0 demo_arrivals) [104, 105, 106], tcp', ([], [] @ concat (map (slip_frame esc_byte) acks))) \<and>
    tcp_wf tcp' \<and> tcp_ack tcp' = word_of_nat (100 + advance 100 0 demo_arrivals) \<and>
    map seg_ack acks = map (\<lambda>n. word_of_nat (100 + n)) (ack_points 100 0 demo_arrivals)"
proof (rule tcp_stream_received)
  show "\<forall>m. Segment m \<in> set demo_arrivals \<longrightarrow> stream_segment (demo_tcp 7 100) 100 [104, 105, 106] m"
    by (auto simp: demo_arrivals_def stream_segment_def data_segment_def)
qed (simp_all add: demo_arrivals_def next_pos_def)

end
