(* ===== verification/Tcp_Lossy.thy ===== *)
theory Tcp_Lossy
  imports Tcp_Connect
begin

text \<open>
  Sending as a stream of bytes, over a line that loses packets: a device whose other end is a peer
  that takes the data it expects and acknowledges what it has, and how often a transmission or
  its answer is lost is up to the device.
\<close>

section \<open>Sending to a peer over a lossy line\<close>

text \<open>
  The other end of the line: it decodes the frames, takes a segment whose data starts where it
  expects it, and answers every data segment with the acknowledgement \<open>answer n\<close> of the number \<open>n\<close> it
  expects next. For each data segment \<open>l_luck\<close> says whether it reaches the peer and whether the answer
  comes back; when the list is used up nothing comes through any more.
\<close>

record lossy =
  l_frame :: bytes
  l_line :: bytes
  l_luck :: "(bool \<times> bool) list"
  l_next :: u32
  l_data :: bytes

definition l_take :: "bytes \<Rightarrow> lossy \<Rightarrow> lossy" where
  "l_take m d =
     (if seg_seq m = l_next d
      then d\<lparr>l_next := l_next d + word_of_nat (length (drop 40 m)), l_data := l_data d @ drop 40 m\<rparr> else d)"

definition l_packet :: "(u32 \<Rightarrow> bytes) \<Rightarrow> bytes \<Rightarrow> lossy \<Rightarrow> lossy" where
  "l_packet answer m d =
     (if drop 40 m = [] then d
      else case l_luck d of
        [] \<Rightarrow> d
      | (there, home) # ls \<Rightarrow>
          (let d = d\<lparr>l_luck := ls\<rparr>; d = (if there then l_take m d else d) in
           if there \<and> home then d\<lparr>l_line := l_line d @ slip_frame esc_byte (answer (l_next d))\<rparr> else d))"

definition l_put :: "(u32 \<Rightarrow> bytes) \<Rightarrow> u8 \<Rightarrow> lossy \<Rightarrow> lossy" where
  "l_put answer c d =
     (if c \<noteq> END then d\<lparr>l_frame := l_frame d @ [c]\<rparr>
      else if l_frame d = [] then d
      else l_packet answer (unstuff (l_frame d)) (d\<lparr>l_frame := []\<rparr>))"

definition l_get :: "u8 \<Rightarrow> lossy \<Rightarrow> u8 \<times> lossy" where
  "l_get c d = (case l_line d of [] \<Rightarrow> (c, d) | b # bs \<Rightarrow> (b, d\<lparr>l_line := bs\<rparr>))"

definition lossy_line :: "(u32 \<Rightarrow> bytes) \<Rightarrow> lossy platform" where
  "lossy_line answer =
     \<lparr>rs232_init = (\<lambda>d. (True, d)), rs232_params = (\<lambda>_ _ d. (True, d)), rs232_put = l_put answer,
      rs232_get = l_get, r_register = (\<lambda>d. (0, d)), EAGAIN = 11\<rparr>"

lemma lossy_line_sel [simp]:
  "rs232_put (lossy_line answer) = l_put answer" "rs232_get (lossy_line answer) = l_get" "EAGAIN (lossy_line answer) = 11"
  by (simp_all add: lossy_line_def)

text \<open>A frame on this line is its packet handed to the peer.\<close>

lemma l_puts_payload:
  "END \<notin> set cs \<Longrightarrow> puts (lossy_line answer) cs d = d\<lparr>l_frame := l_frame d @ cs\<rparr>"
  by (induction cs arbitrary: d) (auto simp: puts_Cons l_put_def)

lemma l_puts_frame:
  assumes "l_frame d = []" and "m \<noteq> []"
  shows "puts (lossy_line answer) (slip_frame esc_byte m) d = l_packet answer m d"
proof -
  have "\<not> (\<forall>b \<in> set m. esc_byte b = [])" using assms(2) by (cases m) (auto simp: esc_byte_def)
  moreover have "l_packet answer m (d\<lparr>l_frame := []\<rparr>) = l_packet answer m d" using assms(1) by (cases d) simp
  ultimately show ?thesis
    using assms(1) l_puts_payload [OF z80.payload_END, of answer m d]
    by (auto simp: slip_frame_def puts_Cons puts_append l_put_def z80.unstuff_payload)
qed

lemma l_reads: "l_line d = bs @ rest \<Longrightarrow> reads (lossy_line answer) (map Some bs) d (d\<lparr>l_line := rest\<rparr>)"
proof (induction bs arbitrary: d)
  case (Cons b bs)
  then show ?case
    using Cons.IH [of "d\<lparr>l_line := bs @ rest\<rparr>"] by (auto simp: l_get_def)
qed simp

lemma l_reads_idle: "l_line d = [] \<Longrightarrow> reads (lossy_line answer) (replicate n None) d d"
  by (induction n) (auto simp: l_get_def)

lemma l_arrives: "l_line d = slip_frame esc_byte m \<Longrightarrow> arrives (lossy_line answer) RS232_TPS m d (d\<lparr>l_line := []\<rparr>)"
  using l_reads [of d "slip_frame esc_byte m" "[]"] unfolding arrives_def by (intro exI [of _ "[]"]) simp

text \<open>
  The peer while \<open>bs\<close> is being sent with the sequence number \<open>s\<close>: the line is empty, and it has the data
  or does not have it yet.
\<close>

definition l_state :: "u32 \<Rightarrow> bytes \<Rightarrow> bytes \<Rightarrow> bool \<Rightarrow> lossy \<Rightarrow> bool" where
  "l_state s D bs got d \<longleftrightarrow> l_frame d = [] \<and> l_line d = [] \<and>
     l_next d = (if got then s + word_of_nat (length bs) else s) \<and> l_data d = (if got then D @ bs else D)"

lemma l_packet_state:
  assumes "l_state s D bs got d" and "drop 40 m = bs" and "seg_seq m = s" and "bs \<noteq> []" and "length bs < 2 ^ 32"
  shows "l_luck d = [] \<Longrightarrow> l_packet answer m d = d"
    "l_luck d = (there, home) # ls \<Longrightarrow> \<exists>d'. l_state s D bs (got \<or> there) d' \<and> l_luck d' = ls \<and>
      l_packet answer m d = (if there \<and> home then d'\<lparr>l_line := slip_frame esc_byte (answer (s + word_of_nat (length bs)))\<rparr> else d')"
proof -
  show "l_luck d = [] \<Longrightarrow> l_packet answer m d = d" by (simp add: l_packet_def)
  have "(word_of_nat (length bs) :: u32) \<noteq> 0"
    using assms(4,5) by (simp add: word_of_nat_eq_0_iff nat_dvd_not_less)
  then have "l_state s D bs True (l_take m (d\<lparr>l_luck := ls\<rparr>))" "l_luck (l_take m (d\<lparr>l_luck := ls\<rparr>)) = ls"
    using assms(1-3) by (auto simp: l_state_def l_take_def)
  then show "l_luck d = (there, home) # ls \<Longrightarrow> \<exists>d'. l_state s D bs (got \<or> there) d' \<and> l_luck d' = ls \<and>
      l_packet answer m d = (if there \<and> home then d'\<lparr>l_line := slip_frame esc_byte (answer (s + word_of_nat (length bs)))\<rparr> else d')"
    using assms(1,2,4)
    by (intro exI [of _ "if there then l_take m (d\<lparr>l_luck := ls\<rparr>) else d\<lparr>l_luck := ls\<rparr>"])
      (auto simp: l_packet_def l_state_def Let_def)
qed

text \<open>The peer's acknowledgements: packets of the session that are no probes and carry the number.\<close>

definition answers :: "tcp_context \<Rightarrow> (u32 \<Rightarrow> bytes) \<Rightarrow> bool" where
  "answers tcp answer \<longleftrightarrow> (\<forall>n. bare_segment tcp (answer n) \<and> seg_ack (answer n) = n)"

lemma answers_sent: "length pl + 40 \<le> length (tcp_pkt tcp) \<Longrightarrow> answers (tcp_sent tcp w pl) answer = answers tcp answer"
  by (simp add: answers_def bare_segment_def)

text \<open>One transmission: answered, or not.\<close>

lemma tcp_packet_nonempty: "tcp_packet tcp w pl \<noteq> []"
  by (metis length_tcp_packet add_is_0 list.size(3) zero_neq_numeral)

lemma tcp_send_lucky:
  assumes "tcp_wf tcp" and "1 < tcp_seq tcp" and "bs \<noteq> []" and "length bs + 40 \<le> length (tcp_pkt tcp)"
    and "unat (tcp_seq tcp) + length bs < 2 ^ 32" and "answers tcp answer" and "l_state (tcp_seq tcp) D bs got d"
    and "length (tcp_pkt tcp) + 3 < fuel" and "l_luck d = (True, True) # ls"
  shows "\<exists>tcp' d'. tcp_send_from (lossy_line answer) fuel retries tcp (length bs) (Some bs) w d = Inr (0, tcp', d') \<and> tcp_wf tcp' \<and>
    tcp_ack tcp' = tcp_ack tcp \<and> tcp_seq tcp' = tcp_seq tcp + word_of_nat (length bs) \<and> l_state (tcp_seq tcp) D bs True d'"
proof -
  let ?s = "tcp_seq tcp" and ?m = "tcp_packet tcp w bs"
  let ?a = "answer (?s + word_of_nat (length bs))"
  have m: "drop 40 ?m = bs" "seg_seq ?m = ?s" "length bs < 2 ^ 32" "?m \<noteq> []" "tcp_payload tcp (length bs) (Some bs) = bs"
    using assms(5) tcp_packet_nonempty by (auto simp: tcp_payload_def)
  from l_packet_state(2) [OF assms(7) m(1,2) assms(3) m(3) assms(9)] obtain d1 where
    d1: "l_state ?s D bs True d1" "l_packet answer ?m d = d1\<lparr>l_line := slip_frame esc_byte ?a\<rparr>" by auto
  have a: "bare_segment tcp ?a" "seg_ack ?a = ?s + word_of_nat (length bs)" using assms(6) by (simp_all add: answers_def)
  have "puts (lossy_line answer) (slip_frame esc_byte ?m) d = d1\<lparr>l_line := slip_frame esc_byte ?a\<rparr>"
    using l_puts_frame [OF _ m(4)] assms(7) d1(2) by (simp add: l_state_def)
  moreover have "arrives (lossy_line answer) RS232_TPS ?a (d1\<lparr>l_line := slip_frame esc_byte ?a\<rparr>) (d1\<lparr>l_line := []\<rparr>)"
    using l_arrives [of "d1\<lparr>l_line := slip_frame esc_byte ?a\<rparr>" ?a] by simp
  moreover have "length ?a + 3 < fuel" using a(1) assms(8) by (simp add: bare_segment_def packet_for_def)
  moreover have "l_state ?s D bs True (d1\<lparr>l_line := []\<rparr>)" using d1(1) by (simp add: l_state_def)
  moreover have "data_ok (length bs) (Some bs)" "0 < length bs" using assms(3) by (simp_all add: data_ok_def)
  ultimately show ?thesis
    using tcp_send_acked [OF assms(1,2) _ assms(4) _ a assms(5), where data = "Some bs" and pf = "lossy_line answer" and
        d = d and w = w and fuel = fuel and retries = retries and ?d1.0 = "d1\<lparr>l_line := []\<rparr>"]
    unfolding m(5) by auto
qed

lemma tcp_send_unlucky:
  assumes "tcp_wf tcp" and "bs \<noteq> []" and "length bs + 40 \<le> length (tcp_pkt tcp)"
    and "length bs < 2 ^ 32" and "l_state (tcp_seq tcp) D bs got d" and "2 \<le> fuel"
    and "l_luck d = [] \<or> hd (l_luck d) \<noteq> (True, True)"
  shows "\<exists>d1. tcp_send_from (lossy_line answer) (Suc fuel) retries tcp (length bs) (Some bs) w d =
      (if retries < 5 then tcp_send_from (lossy_line answer) fuel (Suc retries) (tcp_sent tcp w bs) (length bs) (Some bs) w d1
       else Inr (- 1, tcp_sent tcp w bs, d1)) \<and>
    l_state (tcp_seq tcp) D bs (got \<or> l_luck d \<noteq> [] \<and> fst (hd (l_luck d))) d1 \<and> l_luck d1 = tl (l_luck d)"
proof -
  let ?s = "tcp_seq tcp" and ?m = "tcp_packet tcp w bs"
  have m: "drop 40 ?m = bs" "seg_seq ?m = ?s" "?m \<noteq> []" "tcp_payload tcp (length bs) (Some bs) = bs" "data_ok (length bs) (Some bs)"
    using tcp_packet_nonempty by (auto simp: tcp_payload_def data_ok_def)
  note st = l_packet_state [OF assms(5) m(1,2) assms(2,4), where answer = answer]
  obtain d1 where d1: "puts (lossy_line answer) (slip_frame esc_byte ?m) d = d1"
    "l_state ?s D bs (got \<or> l_luck d \<noteq> [] \<and> fst (hd (l_luck d))) d1" "l_luck d1 = tl (l_luck d)"
  proof (cases "l_luck d")
    case Nil
    then show ?thesis using that st(1) assms(5) l_puts_frame [OF _ m(3)] by (simp add: l_state_def)
  next
    case (Cons x ls)
    obtain there home where x: "x = (there, home)" by fastforce
    from st(2) [OF Cons [unfolded x]] assms(7) Cons x show ?thesis
      using that assms(5) l_puts_frame [OF _ m(3)] by (auto simp: l_state_def)
  qed
  obtain f where f: "fuel = Suc (Suc f)" using assms(6) by (metis add_2_eq_Suc le_Suc_ex)
  have "reads (lossy_line answer) (replicate (unat (RS232_TPS - 1)) None) d1 d1"
    using d1(2) by (intro l_reads_idle) (simp add: l_state_def)
  from tcp_recv_idle [OF this, of RS232_TPS "tcp_sent tcp w bs" f] have
    "tcp_recv_timeout (lossy_line answer) fuel (tcp_sent tcp w bs) 0 RS232_TPS d1 = Inr (- 11, tcp_sent tcp w bs, d1)"
    using assms(1,3) tcp_wf_sent [of tcp bs w] by (simp add: f)
  then show ?thesis
    using assms(2) d1 tcp_send_waits [OF assms(1,3) m(5), of "lossy_line answer" fuel retries w d]
    by (intro exI [of _ d1]) (simp add: m(4))
qed

text \<open>
  Of the next \<open>k\<close> transmissions one is answered, or at least one reaches the peer.
\<close>

definition answered :: "nat \<Rightarrow> (bool \<times> bool) list \<Rightarrow> bool" where
  "answered k ls \<longleftrightarrow> (True, True) \<in> set (take k ls)"

definition heard :: "nat \<Rightarrow> (bool \<times> bool) list \<Rightarrow> bool" where
  "heard k ls \<longleftrightarrow> True \<in> fst ` set (take k ls)"

lemma answered_Suc: "answered (Suc k) ls \<longleftrightarrow> ls \<noteq> [] \<and> (hd ls = (True, True) \<or> answered k (tl ls))"
  by (cases ls) (auto simp: answered_def)

lemma heard_Suc: "heard (Suc k) ls \<longleftrightarrow> ls \<noteq> [] \<and> (fst (hd ls) \<or> heard k (tl ls))"
  by (cases ls) (auto simp: heard_def)

lemma answered_0 [simp]: "\<not> answered 0 ls" "\<not> heard 0 ls"
  by (simp_all add: answered_def heard_def)

text \<open>One call, from its \<open>left\<close> remaining retries on.\<close>

lemma tcp_send_lossy:
  assumes "bs \<noteq> []" and "left \<le> 5"
    and "tcp_wf tcp" and "1 < tcp_seq tcp" and "length bs + 40 \<le> length (tcp_pkt tcp)"
    and "unat (tcp_seq tcp) + length bs < 2 ^ 32" and "answers tcp answer" and "l_state (tcp_seq tcp) D bs got d"
    and "length (tcp_pkt tcp) + 3 < fuel"
  shows "\<exists>tcp' d'. tcp_send_from (lossy_line answer) (Suc left + fuel) (5 - left) tcp (length bs) (Some bs) w d =
      Inr (if answered (Suc left) (l_luck d) then 0 else - 1, tcp', d') \<and> tcp_wf tcp' \<and> tcp_ack tcp' = tcp_ack tcp \<and>
    tcp_seq tcp' = (if answered (Suc left) (l_luck d) then tcp_seq tcp + word_of_nat (length bs) else tcp_seq tcp) \<and>
    l_state (tcp_seq tcp) D bs (got \<or> heard (Suc left) (l_luck d)) d'"
  using assms(2-)
proof (induction left arbitrary: tcp d got)
  case (0 tcp d got)
  note p = "0.prems"
  show ?case
  proof (cases "answered (Suc 0) (l_luck d)")
    case True
    then obtain ls where ls: "l_luck d = (True, True) # ls" by (cases "l_luck d") (auto simp: answered_Suc)
    from tcp_send_lucky [OF p(2,3) assms(1) p(4-7) _ ls, of "Suc 0 + fuel" "5 - 0" w] p(8) show ?thesis
      by (simp add: ls answered_Suc heard_Suc)
  next
    case False
    then have "l_luck d = [] \<or> hd (l_luck d) \<noteq> (True, True)" "length bs < 2 ^ 32" "2 \<le> fuel"
      using p(5,8) by (auto simp: answered_Suc)
    from tcp_send_unlucky [OF p(2) assms(1) p(4) this(2) p(7) this(3,1), of answer "5 - 0" w] show ?thesis
      using False tcp_wf_sent [OF p(2,4)] by (auto simp: heard_Suc)
  qed
next
  case (Suc left tcp d got)
  note p = Suc.prems
  show ?case
  proof (cases "l_luck d \<noteq> [] \<and> hd (l_luck d) = (True, True)")
    case True
    then obtain ls where ls: "l_luck d = (True, True) # ls" by (cases "l_luck d") auto
    from tcp_send_lucky [OF p(2,3) assms(1) p(4-7) _ ls, of "Suc (Suc left) + fuel" "5 - Suc left" w] p(8) show ?thesis
      by (simp add: ls answered_Suc heard_Suc)
  next
    case False
    then have f: "l_luck d = [] \<or> hd (l_luck d) \<noteq> (True, True)" "length bs < 2 ^ 32" "2 \<le> Suc left + fuel"
      using p(5,8) by auto
    have eq: "Suc (Suc left) + fuel = Suc (Suc left + fuel)" "Suc (5 - Suc left) = 5 - left" "5 - Suc left < 5" using p(1) by auto
    let ?t = "tcp_sent tcp w bs"
    define now where "now = (got \<or> l_luck d \<noteq> [] \<and> fst (hd (l_luck d)))"
    from tcp_send_unlucky [OF p(2) assms(1) p(4) f(2) p(7) f(3,1), of answer "5 - Suc left" w] eq obtain d1 where
      d1: "tcp_send_from (lossy_line answer) (Suc (Suc left) + fuel) (5 - Suc left) tcp (length bs) (Some bs) w d =
        tcp_send_from (lossy_line answer) (Suc left + fuel) (5 - left) ?t (length bs) (Some bs) w d1"
      "l_state (tcp_seq ?t) D bs now d1" "l_luck d1 = tl (l_luck d)" unfolding eq now_def by auto
    have "answered (Suc (Suc left)) (l_luck d) = answered (Suc left) (l_luck d1)"
      "now \<or> heard (Suc left) (l_luck d1) \<longleftrightarrow> got \<or> heard (Suc (Suc left)) (l_luck d)"
      using f(1) d1(3) answered_Suc [of "Suc left" "l_luck d"] heard_Suc [of "Suc left" "l_luck d"]
      by (cases "l_luck d"; auto simp: answered_def heard_def now_def)+
    then show ?thesis
      using Suc.IH [of ?t now d1] p tcp_wf_sent [OF p(2,4)] d1(1,2) by (simp add: answers_sent split del: if_split cong: if_cong)
  qed
qed

lemma tcp_send_outcome:
  assumes "tcp_wf tcp" and "1 < tcp_seq tcp" and "bs \<noteq> []" and "length bs + 40 \<le> length (tcp_pkt tcp)"
    and "unat (tcp_seq tcp) + length bs < 2 ^ 32" and "answers tcp answer"
    and "l_frame d = []" and "l_line d = []" and "l_next d = tcp_seq tcp" and "length (tcp_pkt tcp) + 9 < fuel"
  shows "\<exists>tcp' d'. tcp_send (lossy_line answer) fuel tcp (length bs) (Some bs) w d =
      Inr (if answered 6 (l_luck d) then 0 else - 1, tcp', d') \<and> tcp_kept tcp tcp' \<and> tcp_ack tcp' = tcp_ack tcp \<and>
    tcp_seq tcp' = (if answered 6 (l_luck d) then tcp_seq tcp + word_of_nat (length bs) else tcp_seq tcp) \<and>
    l_state (tcp_seq tcp) (l_data d) bs (heard 6 (l_luck d)) d'"
proof -
  have "l_state (tcp_seq tcp) (l_data d) bs False d" using assms(7-9) by (simp add: l_state_def)
  moreover have "length (tcp_pkt tcp) + 3 < fuel - 6" "Suc 5 + (fuel - 6) = fuel" "Suc 5 = (6 :: nat)" using assms(10) by simp_all
  moreover have "holds_res (\<lambda>(rc, tcp', d'). tcp_kept tcp tcp') (tcp_send (lossy_line answer) fuel tcp (length bs) (Some bs) w d)"
    unfolding tcp_send_def using assms(1,4) by (rule tcp_send_from_safe) (simp add: data_ok_def)
  ultimately show ?thesis
    using tcp_send_lossy [OF assms(3) order_refl assms(1,2,4-6), of "l_data d" False d "fuel - 6" w]
    by (auto simp: tcp_send_def)
qed

text \<open>
  C4: \<^verbatim>\<open>tcp_send\<close> over a lossy line. With a peer that takes the data it expects and acknowledges it,
  and a line that loses segments and acknowledgements as it likes, the call always returns; it
  returns 0 exactly when one of its six transmissions is answered, and then the peer has the
  data exactly once, however often it was sent, and both sides agree on the sequence number;
  otherwise it returns -1, and the peer has the data once, if a transmission reached it, or not
  at all.
\<close>

theorem tcp_send_exactly_once:
  assumes "tcp_wf tcp" and "1 < tcp_seq tcp" and "bs \<noteq> []" and "length bs + 40 \<le> length (tcp_pkt tcp)"
    and "unat (tcp_seq tcp) + length bs < 2 ^ 32" and "answers tcp answer"
    and "l_frame d = []" and "l_line d = []" and "l_next d = tcp_seq tcp" and "length (tcp_pkt tcp) + 9 < fuel"
  shows "\<exists>rc tcp' d'. tcp_send (lossy_line answer) fuel tcp (length bs) (Some bs) w d = Inr (rc, tcp', d') \<and>
    l_frame d' = [] \<and> l_line d' = [] \<and>
    (if (True, True) \<in> set (take 6 (l_luck d))
     then rc = 0 \<and> l_data d' = l_data d @ bs \<and> tcp_seq tcp' = tcp_seq tcp + word_of_nat (length bs) \<and> l_next d' = tcp_seq tcp'
     else rc = - 1 \<and> tcp_seq tcp' = tcp_seq tcp \<and>
       l_data d' = l_data d @ (if (True, False) \<in> set (take 6 (l_luck d)) then bs else []))"
proof -
  from tcp_send_outcome [OF assms, of w] obtain tcp' d' where
    r: "tcp_send (lossy_line answer) fuel tcp (length bs) (Some bs) w d =
        Inr (if answered 6 (l_luck d) then 0 else - 1, tcp', d')"
      "tcp_seq tcp' = (if answered 6 (l_luck d) then tcp_seq tcp + word_of_nat (length bs) else tcp_seq tcp)"
      "l_state (tcp_seq tcp) (l_data d) bs (heard 6 (l_luck d)) d'" by blast
  have "heard 6 (l_luck d) \<longleftrightarrow> (True, True) \<in> set (take 6 (l_luck d)) \<or> (True, False) \<in> set (take 6 (l_luck d))"
    using ex_bool_eq [of "\<lambda>home. (True, home) \<in> set (take 6 (l_luck d))"] by (force simp: heard_def)
  with r show ?thesis by (auto simp: answered_def l_state_def)
qed

definition demo_peer :: "(bool \<times> bool) list \<Rightarrow> lossy" where
  "demo_peer ls = \<lparr>l_frame = [], l_line = [], l_luck = ls, l_next = 7, l_data = []\<rparr>"

lemma demo_answers: "answers (demo_tcp 7 100) (\<lambda>n. demo_seg 100 n TCP_ACK [])"
  by (simp add: answers_def bare_segment_def)

theorem tcp_send_exactly_once_witness:
  "\<exists>rc tcp' d'. tcp_send (lossy_line (\<lambda>n. demo_seg 100 n TCP_ACK [])) 600 (demo_tcp 7 100) (length [104, 105 :: u8]) (Some [104, 105]) 0
      (demo_peer [(False, True), (True, False), (True, True)]) = Inr (rc, tcp', d') \<and>
    l_frame d' = [] \<and> l_line d' = [] \<and>
    (if (True, True) \<in> set (take 6 (l_luck (demo_peer [(False, True), (True, False), (True, True)])))
     then rc = 0 \<and> l_data d' = l_data (demo_peer [(False, True), (True, False), (True, True)]) @ [104, 105] \<and>
       tcp_seq tcp' = tcp_seq (demo_tcp 7 100) + word_of_nat (length [104, 105 :: u8]) \<and> l_next d' = tcp_seq tcp'
     else rc = - 1 \<and> tcp_seq tcp' = tcp_seq (demo_tcp 7 100) \<and>
       l_data d' = l_data (demo_peer [(False, True), (True, False), (True, True)]) @
         (if (True, False) \<in> set (take 6 (l_luck (demo_peer [(False, True), (True, False), (True, True)]))) then [104, 105] else []))"
  by (rule tcp_send_exactly_once [OF _ _ _ _ _ demo_answers]) (simp_all add: demo_peer_def)

text \<open>An application that sends messages until one fails, and how many of them were sent.\<close>

fun send_all :: "'d platform \<Rightarrow> nat \<Rightarrow> bytes list \<Rightarrow> tcp_context \<Rightarrow> 'd \<Rightarrow> (nat \<times> tcp_context \<times> 'd) res" where
  "send_all pf fuel [] tcp d = Inr (0, tcp, d)"
| "send_all pf fuel (bs # msgs) tcp d =
     rbind (tcp_send pf fuel tcp (length bs) (Some bs) 0 d) (\<lambda>(rc, tcp, d).
       if rc < 0 then Inr (0, tcp, d)
       else rbind (send_all pf fuel msgs tcp d) (\<lambda>(n, tcp, d). Inr (Suc n, tcp, d)))"

lemma answers_kept:
  "tcp_kept tcp tcp' \<Longrightarrow> tcp_ack tcp' = tcp_ack tcp \<Longrightarrow> answers tcp answer \<Longrightarrow> answers tcp' answer"
proof -
  assume "tcp_kept tcp tcp'"
  then have "packet_for tcp' = packet_for tcp" by (simp add: fun_eq_iff packet_for_def tcp_kept_def)
  then show "tcp_ack tcp' = tcp_ack tcp \<Longrightarrow> answers tcp answer \<Longrightarrow> answers tcp' answer"
    by (simp add: answers_def bare_segment_def)
qed

lemma send_all_lossy:
  assumes "tcp_wf tcp" and "1 < tcp_seq tcp" and "\<forall>bs \<in> set msgs. bs \<noteq> [] \<and> length bs + 40 \<le> length (tcp_pkt tcp)"
    and "unat (tcp_seq tcp) + length (concat msgs) < 2 ^ 32" and "answers tcp answer"
    and "l_frame d = []" and "l_line d = []" and "l_next d = tcp_seq tcp" and "length (tcp_pkt tcp) + 9 < fuel"
  shows "\<exists>n tcp' d'. send_all (lossy_line answer) fuel msgs tcp d = Inr (n, tcp', d') \<and> n \<le> length msgs \<and>
    (l_data d' = l_data d @ concat (take n msgs) \<or> n < length msgs \<and> l_data d' = l_data d @ concat (take (Suc n) msgs))"
  using assms
proof (induction msgs arbitrary: tcp d)
  case (Cons bs msgs)
  note p = Cons.prems
  have bs: "bs \<noteq> []" "length bs + 40 \<le> length (tcp_pkt tcp)" "unat (tcp_seq tcp) + length bs < 2 ^ 32" using p(3,4) by auto
  from tcp_send_outcome [OF p(1,2) bs p(5-9), of 0] obtain tcp' d' where
    r: "tcp_send (lossy_line answer) fuel tcp (length bs) (Some bs) 0 d = Inr (if answered 6 (l_luck d) then 0 else - 1, tcp', d')"
      "tcp_ack tcp' = tcp_ack tcp" "l_state (tcp_seq tcp) (l_data d) bs (heard 6 (l_luck d)) d'"
      "tcp_seq tcp' = (if answered 6 (l_luck d) then tcp_seq tcp + word_of_nat (length bs) else tcp_seq tcp)"
      and kept: "tcp_kept tcp tcp'" by blast
  show ?case
  proof (cases "answered 6 (l_luck d)")
    case True
    then have "heard 6 (l_luck d)" by (force simp: answered_def heard_def)
    then have d': "l_frame d' = []" "l_line d' = []" "l_next d' = tcp_seq tcp'" "l_data d' = l_data d @ bs"
      using True r(3,4) by (simp_all add: l_state_def)
    have "unat (tcp_seq tcp') = unat (tcp_seq tcp) + length bs"
      using True r(4) bs(3) by (simp add: unat_word_ariths unat_of_nat)
    moreover have "1 < tcp_seq tcp'" using p(2) kept by (auto simp: tcp_kept_def intro: less_le_trans)
    ultimately obtain n tcp'' d'' where
      n: "send_all (lossy_line answer) fuel msgs tcp' d' = Inr (n, tcp'', d'')" "n \<le> length msgs"
        "l_data d'' = l_data d' @ concat (take n msgs) \<or> n < length msgs \<and> l_data d'' = l_data d' @ concat (take (Suc n) msgs)"
      using Cons.IH [of tcp' d'] kept p answers_kept [OF kept r(2) p(5)] d'(1-3) by (auto simp: tcp_kept_def)
    then show ?thesis
      using True r(1) d'(4) by (intro exI [of _ "Suc n"] exI [of _ tcp''] exI [of _ d'']) auto
  next
    case False
    then show ?thesis using r(1,3) by (auto simp: l_state_def)
  qed
qed simp

text \<open>
  C12: the peer receives the stream of the application. Over a line that loses what it likes, an
  application that sends messages one after the other until one fails always ends, and what
  the peer has then is the concatenation of the messages sent, in order, each exactly once, and
  of the one that failed either all or nothing.
\<close>

theorem tcp_stream_sent:
  assumes "tcp_wf tcp" and "1 < tcp_seq tcp" and "\<forall>bs \<in> set msgs. bs \<noteq> [] \<and> length bs + 40 \<le> length (tcp_pkt tcp)"
    and "unat (tcp_seq tcp) + length (concat msgs) < 2 ^ 32" and "answers tcp answer"
    and "l_frame d = []" and "l_line d = []" and "l_next d = tcp_seq tcp" and "length (tcp_pkt tcp) + 9 < fuel"
  shows "\<exists>n tcp' d'. send_all (lossy_line answer) fuel msgs tcp d = Inr (n, tcp', d') \<and> n \<le> length msgs \<and>
    (l_data d' = l_data d @ concat (take n msgs) \<or> n < length msgs \<and> l_data d' = l_data d @ concat (take (Suc n) msgs))"
  using assms by (rule send_all_lossy)

theorem tcp_stream_sent_witness:
  "\<exists>n tcp' d'. send_all (lossy_line (\<lambda>n. demo_seg 100 n TCP_ACK [])) 600 [[104], [105, 106]] (demo_tcp 7 100)
      (demo_peer [(True, False), (True, True), (False, True)]) = Inr (n, tcp', d') \<and> n \<le> length [[104], [105, 106 :: u8]] \<and>
    (l_data d' = l_data (demo_peer [(True, False), (True, True), (False, True)]) @ concat (take n [[104], [105, 106]]) \<or>
     n < length [[104], [105, 106 :: u8]] \<and>
     l_data d' = l_data (demo_peer [(True, False), (True, True), (False, True)]) @ concat (take (Suc n) [[104], [105, 106]]))"
  by (rule tcp_stream_sent [OF _ _ _ _ demo_answers]) (simp_all add: demo_peer_def)

end
