(* ===== verification/Tcp_Results.thy ===== *)
theory Tcp_Results
  imports Tcp_Connect
begin

text \<open>
  What the calls of \<^verbatim>\<open>tcp.c\<close> return, on every line: the range of their results, which the callers
  compare with \<^verbatim>\<open>-EAGAIN\<close>, \<^verbatim>\<open>-ERESET\<close> and 0.
\<close>

section \<open>Receiving\<close>

text \<open>A result of a receive: nothing yet, or a number that the lengths in the headers allow.\<close>

definition recv_code :: "'d platform \<Rightarrow> nat \<Rightarrow> int \<Rightarrow> bool" where
  "recv_code pf n rc \<longleftrightarrow> rc = - EAGAIN pf \<or> - 43 \<le> rc \<and> rc \<le> int n - 20"

lemma seg_data_code:
  assumes "40 \<le> len" and "len \<le> int n" and "ths \<le> (63 :: u8)"
  shows "recv_code pf n (len - 20 - int (unat ths))"
proof -
  have "unat ths \<le> 63" using assms(3) by (simp add: word_le_nat_alt)
  then show ?thesis using assms(1,2) unfolding recv_code_def by linarith
qed

text \<open>What one packet makes the receiver return, whether it waits for an ACK of its own or not.\<close>

definition action_code :: "'d platform \<Rightarrow> nat \<Rightarrow> int \<Rightarrow> tcp_action \<Rightarrow> tcp_context \<Rightarrow> bool" where
  "action_code pf n len act tcp \<longleftrightarrow>
     (case act of Done rc \<Rightarrow> recv_code pf n rc
      | AckData \<Rightarrow> 40 \<le> len \<and> len \<le> int n \<and> tcp_ths tcp \<le> 63 | _ \<Rightarrow> True)"

lemma tcp_step_code:
  assumes "tcp_step tcp len = (act, tcp')" and "40 \<le> len" and "len \<le> int n" and "44 \<le> n"
  shows "action_code pf n len act tcp'"
proof -
  have codes: "recv_code pf n (- ERESET)" "recv_code pf n (- 1)" "recv_code pf n 0"
    using assms(4) by (auto simp: recv_code_def)
  have data: "recv_code pf n (seg_data (tcp_pkt tcp) len)"
    using seg_data_code [OF assms(2,3) seg_ths_le] by (simp add: seg_data_def)
  show ?thesis
  proof (cases act)
    case (Done rc)
    with assms(1) have "rc \<in> {- ERESET, - 1, 0, seg_data (tcp_pkt tcp) len}"
      by (auto simp: tcp_step_def Let_def split: if_splits)
    with codes data Done show ?thesis by (auto simp: action_code_def)
  next
    case AckData
    then show ?thesis
      using assms(2,3) by (simp add: action_code_def tcp_step_sel(4) [OF assms(1)] seg_ths_le)
  qed (simp_all add: action_code_def)
qed

lemma tcp_input_code:
  assumes "tcp_wf tcp" and "len = - EAGAIN pf \<or> 0 \<le> len \<and> len \<le> int (length (tcp_pkt tcp))" and "0 < EAGAIN pf"
  shows "holds_res (\<lambda>(act, tcp'). tcp_kept tcp tcp' \<and> action_code pf (length (tcp_pkt tcp)) len act tcp')
    (tcp_input pf tcp len)"
proof -
  have room: "44 \<le> length (tcp_pkt tcp)" using tcp_wf_room [OF assms(1)] .
  then have codes: "action_code pf (length (tcp_pkt tcp)) len (Done (- ERESET)) tcp"
    "action_code pf (length (tcp_pkt tcp)) len (Done (- EAGAIN pf)) tcp"
    by (auto simp: action_code_def recv_code_def)
  have len: "len = - EAGAIN pf" if "len < 0" using that assms(2) by auto
  have "action_code pf (length (tcp_pkt tcp)) len act tcp'" if "for_us tcp len" "tcp_step tcp len = (act, tcp')" for act tcp'
    using that(1) assms(2,3) room by (intro tcp_step_code [OF that(2)]) (auto simp: for_us_def Let_def)
  then have "holds_res (\<lambda>(act, tcp'). action_code pf (length (tcp_pkt tcp)) len act tcp') (tcp_input pf tcp len)"
    using room codes len by (auto simp: tcp_input_eq split: prod.splits)
  from holds_res_conj [OF holds_tcp_input [OF assms(1)] this] show ?thesis
    by (rule holds_res_mono) auto
qed

lemma recv_packet_code:
  assumes "tcp_wf tcp"
  shows "holds_res (\<lambda>(len, p, d'). length p = length (tcp_pkt tcp) \<and>
      (len = - EAGAIN pf \<or> 0 \<le> len \<and> len \<le> int (length p)))
    (recv_packet pf fuel (tcp_pkt tcp) (sint (pkt_size (tcp_ip tcp))) to d)"
proof -
  have "sint (pkt_size (tcp_ip tcp)) = int (length (tcp_pkt tcp))"
    using assms by (simp add: tcp_wf_def sint_small)
  then show ?thesis
    using recv_packet_safe [of "length (tcp_pkt tcp)" "tcp_pkt tcp" pf fuel to d]
    by (auto elim!: holds_res_mono simp: recv_safe_def)
qed

lemma tcp_recv_again_code:
  assumes "0 < EAGAIN pf"
  shows "tcp_wf tcp \<Longrightarrow> holds_res (\<lambda>(rc, tcp', d'). tcp_kept tcp tcp' \<and> recv_code pf (length (tcp_pkt tcp)) rc)
    (tcp_recv_again pf fuel tcp to d)"
proof (induction fuel arbitrary: tcp d)
  case (Suc fuel)
  let ?n = "length (tcp_pkt tcp)"
  let ?Q = "\<lambda>(rc, t', d'). tcp_kept tcp t' \<and> recv_code pf ?n rc"
  have ack: "holds_res (\<lambda>(rc, t', d'). tcp_kept t t') (tcp_send_from pf fuel 0 t 0 None 0 d)"
    if "tcp_kept tcp t" for t d
    using tcp_wf_room [OF tcp_kept_wf [OF that]] tcp_kept_wf [OF that]
    by (intro tcp_send_from_safe) (auto simp: data_ok_def)
  have again: "holds_res ?Q (tcp_recv_again pf fuel t to d)" if "tcp_kept tcp t" for t d
    using that by (intro holds_res_mono [OF Suc.IH]) (auto simp: tcp_kept_def)
  have input: "holds_res (\<lambda>(act, t'). tcp_kept tcp t' \<and> action_code pf ?n len act t') (tcp_input pf (set_pkt p tcp) len)"
    if "length p = ?n" "len = - EAGAIN pf \<or> 0 \<le> len \<and> len \<le> int (length p)" for p len
    using tcp_kept_set_pkt [OF Suc.prems that(1)] that(1)
    by (intro holds_res_mono [OF tcp_input_code [OF _ _ assms]])
      (use that in \<open>auto simp: set_pkt_def dest: tcp_kept_wf intro: tcp_kept_trans\<close>)
  have act: "holds_res ?Q (case act of Done rc \<Rightarrow> Inr (rc, t, d) | Again \<Rightarrow> tcp_recv_again pf fuel t to d
      | AckSyn \<Rightarrow> rbind (tcp_send_from pf fuel 0 t 0 None 0 d) (\<lambda>(_, tcp, d). Inr (0, tcp, d))
      | AckData \<Rightarrow> rbind (tcp_send_from pf fuel 0 t 0 None 0 d)
          (\<lambda>(_, tcp, d). Inr (len - 20 - int (unat (tcp_ths tcp)), tcp, d)))"
    if t: "tcp_kept tcp t" and code: "action_code pf ?n len act t" for act t d len
  proof (cases act)
    case AckSyn
    have "recv_code pf ?n 0" using tcp_wf_room [OF Suc.prems] by (simp add: recv_code_def)
    with ack [OF t] t show ?thesis
      by (auto simp: AckSyn intro!: holds_res_rbindI [OF ack [OF t]] intro: tcp_kept_trans)
  next
    case AckData
    show ?thesis
      using code t unfolding AckData tcp_action.case
      by (intro holds_res_rbindI [OF ack [OF t]])
        (auto simp: action_code_def tcp_kept_def simp del: of_nat_unat intro!: seg_data_code)
  qed (use code again [OF t] in \<open>auto simp: t action_code_def\<close>)
  show ?case
    unfolding tcp_recv_again.simps
    by (rule holds_res_rbindI [OF recv_packet_code [OF Suc.prems]]) (auto intro!: holds_res_rbindI [OF input] act)
qed (simp add: tcp_recv_again.simps)

lemma tcp_recv_timeout_code:
  assumes "tcp_wf tcp" and "0 < EAGAIN pf"
  shows "holds_res (\<lambda>(rc, tcp', d'). tcp_kept tcp tcp' \<and> recv_code pf (length (tcp_pkt tcp)) rc)
    (tcp_recv_timeout pf fuel tcp rlen to d)"
proof (cases fuel)
  case (Suc f)
  have again: "holds_res (\<lambda>(rc, t', d'). tcp_kept tcp t' \<and> recv_code pf (length (tcp_pkt tcp)) rc)
      (tcp_recv_again pf f t to d)" if "tcp_kept tcp t" for t d
    using that by (intro holds_res_mono [OF tcp_recv_again_code [OF assms(2)]]) (auto simp: tcp_kept_def)
  have "tcp_kept tcp tcp" using assms(1) by (simp add: tcp_kept_def)
  moreover have "holds_res (\<lambda>(rc, t', d'). tcp_kept tcp t' \<and> recv_code pf (length (tcp_pkt tcp)) rc)
      (rbind (tcp_send_from pf f 0 tcp 0 None w d) (\<lambda>(_, tcp, d). tcp_recv_again pf f tcp to d))" for w
    using assms tcp_wf_room [OF assms(1)]
    by (intro holds_res_rbindI [OF tcp_send_from_safe]) (auto simp: data_ok_def again)
  ultimately show ?thesis
    using again by (simp add: Suc tcp_recv_timeout.simps Let_def)
qed (simp add: tcp_recv_timeout.simps)

section \<open>Sending and connecting\<close>

text \<open>
  A result of \<^verbatim>\<open>tcp_send\<close>: 0, -1, or the negative result of the receive that waited for the
  answer, which is never \<^verbatim>\<open>-EAGAIN\<close> (that one is retried).
\<close>

definition send_code :: "'d platform \<Rightarrow> int \<Rightarrow> bool" where
  "send_code pf rc \<longleftrightarrow> rc = - 1 \<or> - 43 \<le> rc \<and> rc \<le> 0 \<and> rc \<noteq> - EAGAIN pf"

lemma tcp_send_from_code:
  assumes "0 < EAGAIN pf" and "data_ok len data"
  shows "tcp_wf tcp \<Longrightarrow> len + 40 \<le> length (tcp_pkt tcp) \<Longrightarrow>
    holds_res (\<lambda>r. send_code pf (fst r)) (tcp_send_from pf fuel retries tcp len data w d)"
proof (induction fuel arbitrary: retries tcp d)
  case (Suc fuel)
  have xmit: "holds_res (\<lambda>(t, d'). tcp_kept tcp t) (tcp_xmit pf tcp len data w d)"
    using Suc.prems assms(2) by (intro holds_tcp_xmit)
  have recv: "holds_res (\<lambda>(rc, t', d'). tcp_kept tcp t' \<and> recv_code pf (length (tcp_pkt tcp)) rc)
      (tcp_recv_timeout pf fuel t 0 RS232_TPS d)" if "tcp_kept tcp t" for t d
    using that by (intro holds_res_mono [OF tcp_recv_timeout_code [OF tcp_kept_wf [OF that] assms(1)]])
      (auto simp: tcp_kept_def)
  have again: "holds_res (\<lambda>r. send_code pf (fst r)) (tcp_send_from pf fuel r t len data w d)"
    if "tcp_kept tcp t" for r t d
    using that Suc.prems by (intro Suc.IH) (auto simp: tcp_kept_def)
  have codes: "send_code pf 0" "send_code pf (- 1)" using assms(1) by (simp_all add: send_code_def)
  have recv_neg: "send_code pf rc" if "recv_code pf (length (tcp_pkt tcp)) rc" "rc \<noteq> - EAGAIN pf" "rc < 0" for rc
    using that by (auto simp: send_code_def recv_code_def)
  show ?case
    unfolding tcp_send_from.simps
    by (rule holds_res_rbindI [OF xmit]) (auto simp: codes recv_neg intro!: holds_res_rbindI [OF recv] again)
qed (simp add: tcp_send_from.simps)

section \<open>Properties\<close>

text \<open>
  C16: what the calls of the transport return, on every line and for every fuel.
  \<^verbatim>\<open>tcp_recv_timeout\<close> returns \<^verbatim>\<open>-EAGAIN\<close> or a number between -43 (a header that claims more than the packet
  has) and the size of the packet buffer less the IP header; \<^verbatim>\<open>tcp_send\<close> returns 0 or a negative number, and
  never \<^verbatim>\<open>-EAGAIN\<close> unless that is -1; \<^verbatim>\<open>tcp_connect\<close> returns 0 or -1, keeps the context well-formed, its
  buffer and its peer, and returns 0 only when the SYN-ACK has been taken, so with the next sequence
  number 2.
\<close>

theorem tcp_results:
  assumes "tcp_wf tcp" and "0 < EAGAIN pf" and "len + 40 \<le> length (tcp_pkt tcp)" and "data_ok len data"
  shows "holds_res (\<lambda>(rc, tcp', d'). rc = - EAGAIN pf \<or> rc \<in> {- 43 .. int (length (tcp_pkt tcp)) - 20})
      (tcp_recv_timeout pf fuel tcp rlen to d) \<and>
    holds_res (\<lambda>(rc, tcp', d'). rc \<in> {- 43 .. 0} - {- EAGAIN pf} \<or> rc = - 1) (tcp_send pf fuel tcp len data window d) \<and>
    holds_res (\<lambda>(rc, tcp', d'). rc \<in> {0, - 1} \<and> tcp_wf tcp' \<and> length (tcp_pkt tcp') = length (tcp_pkt tcp) \<and>
      daddr (tcp_ip tcp') = daddr (tcp_ip tcp) \<and> dst_port tcp' = dst_port tcp \<and> (rc = 0 \<longrightarrow> tcp_seq tcp' = 2))
      (tcp_connect pf fuel tcp d)"
proof (intro conjI)
  show "holds_res (\<lambda>(rc, tcp', d'). rc = - EAGAIN pf \<or> rc \<in> {- 43 .. int (length (tcp_pkt tcp)) - 20})
      (tcp_recv_timeout pf fuel tcp rlen to d)"
    by (rule holds_res_mono [OF tcp_recv_timeout_code [OF assms(1,2)]]) (auto simp: recv_code_def)
  show "holds_res (\<lambda>(rc, tcp', d'). rc \<in> {- 43 .. 0} - {- EAGAIN pf} \<or> rc = - 1) (tcp_send pf fuel tcp len data window d)"
    unfolding tcp_send_def
    by (rule holds_res_mono [OF tcp_send_from_code [OF assms(2,4,1,3)]]) (auto split: prod.splits simp: send_code_def)
  show "holds_res (\<lambda>(rc, tcp', d'). rc \<in> {0, - 1} \<and> tcp_wf tcp' \<and> length (tcp_pkt tcp') = length (tcp_pkt tcp) \<and>
      daddr (tcp_ip tcp') = daddr (tcp_ip tcp) \<and> dst_port tcp' = dst_port tcp \<and> (rc = 0 \<longrightarrow> tcp_seq tcp' = 2))
      (tcp_connect pf fuel tcp d)"
    by (rule holds_res_mono [OF tcp_connect_sound [OF assms(1,2)]]) auto
qed

theorem tcp_results_witness:
  "holds_res (\<lambda>(rc, tcp', d'). rc = - EAGAIN script_line \<or> rc \<in> {- 43 .. int (length (tcp_pkt (demo_tcp 7 100))) - 20})
      (tcp_recv_timeout script_line 99 (demo_tcp 7 100) 0 100 (map Some (slip_frame esc_byte (demo_seg 100 7 TCP_ACK [1])), [])) \<and>
    holds_res (\<lambda>(rc, tcp', d'). rc \<in> {- 43 .. 0} - {- EAGAIN script_line} \<or> rc = - 1)
      (tcp_send script_line 99 (demo_tcp 7 100) 2 (Some [104, 105]) 0 (map Some (slip_frame esc_byte (demo_seg 100 7 TCP_ACK [1])), [])) \<and>
    holds_res (\<lambda>(rc, tcp', d'). rc \<in> {0, - 1} \<and> tcp_wf tcp' \<and> length (tcp_pkt tcp') = length (tcp_pkt (demo_tcp 7 100)) \<and>
      daddr (tcp_ip tcp') = daddr (tcp_ip (demo_tcp 7 100)) \<and> dst_port tcp' = dst_port (demo_tcp 7 100) \<and> (rc = 0 \<longrightarrow> tcp_seq tcp' = 2))
      (tcp_connect script_line 99 (demo_tcp 7 100) (map Some (slip_frame esc_byte (demo_seg 100 7 TCP_ACK [1])), []))"
  by (rule tcp_results) (simp_all add: data_ok_def)

text \<open>An ACK whose header claims ten words, so that it would fill the packet of 40 bytes alone.\<close>

definition bad_offset_seg :: bytes where
  "bad_offset_seg = (demo_seg 100 9 TCP_ACK [])[32 := 0xa0]"

lemma bad_offset_fields:
  "length bad_offset_seg = 40" "seg_flags bad_offset_seg = TCP_ACK" "seg_ths bad_offset_seg = 40"
  "seg_ack bad_offset_seg = 9" "packet_for (demo_tcp s a) bad_offset_seg"
proof -
  let ?p = "demo_seg 100 9 TCP_ACK []"
  show "length bad_offset_seg = 40" "seg_ths bad_offset_seg = 40"
    by (simp_all add: bad_offset_seg_def seg_ths_def)
  have "seg_flags bad_offset_seg = seg_flags ?p" "seg_ack bad_offset_seg = seg_ack ?p"
    by (simp_all add: bad_offset_seg_def seg_flags_def seg_ack_def be32_at_def)
  then show "seg_flags bad_offset_seg = TCP_ACK" "seg_ack bad_offset_seg = 9" by simp_all
  have "packet_for (demo_tcp s a) bad_offset_seg = packet_for (demo_tcp s a) ?p"
    by (simp add: bad_offset_seg_def packet_for_def drop_update_swap)
  then show "packet_for (demo_tcp s a) bad_offset_seg" by simp
qed

text \<open>
  C40: the data offset is believed. A packet of the session whose header claims to be longer than the
  packet itself makes \<^verbatim>\<open>tcp_recv_timeout\<close> return the negative difference, whatever that means to the caller:
  a data offset of ten words in a packet of 40 bytes is \<^verbatim>\<open>-ERESET\<close>, and the clients report that the peer has
  reset the connection. The acknowledgement number of the packet is taken all the same.
\<close>

theorem tcp_recv_bad_offset:
  assumes "tcp_wf tcp" and "1 < tcp_seq tcp" and "packet_for tcp m" and "seg_flags m AND TCP_RST = 0"
    and "length m < 20 + unat (seg_ths m)" and "arrives pf to m d d1" and "length m + 2 < fuel"
  shows "\<exists>tcp'. tcp_recv_timeout pf fuel tcp 0 to d = Inr (int (length m) - 20 - int (unat (seg_ths m)), tcp', d1) \<and>
    tcp_seq tcp' = max (tcp_seq tcp) (seg_ack m) \<and> tcp_ack tcp' = tcp_ack tcp"
proof -
  have "40 \<le> length m" using assms(3) by (simp add: packet_for_def)
  then have "tcp_step (loaded m tcp) (int (length m)) = (Done (int (length m) - 20 - int (unat (seg_ths m))), ignored m tcp)"
    using assms(2,5) by (auto simp: tcp_step_def Let_def ignored_def seg_data_def simp del: of_nat_unat)
  from tcp_recv_done [OF assms(1,3,4,6,7) this] show ?thesis by auto
qed

theorem tcp_recv_bad_offset_witness:
  "\<exists>tcp'. tcp_recv_timeout script_line 60 (demo_tcp 7 100) 0 100
      (map Some (slip_frame esc_byte (bad_offset_seg)) @ [], []) = Inr (- ERESET, tcp', ([], [])) \<and>
    tcp_seq tcp' = 9 \<and> tcp_ack tcp' = 100"
proof -
  have "\<exists>tcp'. tcp_recv_timeout script_line 60 (demo_tcp 7 100) 0 100
      (map Some (slip_frame esc_byte bad_offset_seg) @ [], []) =
      Inr (int (length bad_offset_seg) - 20 - int (unat (seg_ths bad_offset_seg)), tcp', ([], [])) \<and>
    tcp_seq tcp' = max (tcp_seq (demo_tcp 7 100)) (seg_ack bad_offset_seg) \<and> tcp_ack tcp' = tcp_ack (demo_tcp 7 100)"
    by (rule tcp_recv_bad_offset) (simp_all add: bad_offset_fields arrives_script del: append_Nil2)
  then show ?thesis by (simp add: bad_offset_fields max_def del: append_Nil2)
qed

end
