(* ===== verification/Slip_Tun.thy ===== *)
theory Slip_Tun
  imports Slip
begin

text \<open>
  The bridge on the Linux host, \<^verbatim>\<open>slip-tun.c\<close>: it carries packets between a tun device and the
  two fifos of the emulated Spectrum, and treats the fifos as sessions. The operating system is
  a parameter, the record \<open>host\<close>. Every call that changes a fifo or the network is recorded in
  the trace of the world, so that theorems can speak of what the program did to its
  environment. Diagnostic output (\<^verbatim>\<open>vrb\<close>, \<^verbatim>\<open>printf\<close>, \<^verbatim>\<open>fprintf\<close>) is left out.
\<close>

section \<open>The operating system\<close>

datatype errno = EINTR | EAGAIN_errno | EWOULDBLOCK | ENXIO | EEXIST | EOTHER

datatype 'a syscall = Ret 'a | Err errno

datatype open_mode = O_RDWR | O_RDONLY_NONBLOCK | O_WRONLY_NONBLOCK

datatype fifo = Rx | Tx

text \<open>
  The calls the program makes. A descriptor that \<^verbatim>\<open>open\<close> returns is not negative, so it is a
  natural number here. \<^verbatim>\<open>poll\<close> takes the descriptors with the events asked for and returns how many
  are ready and the events of each.
\<close>

record 'o host =
  h_open :: "string \<Rightarrow> open_mode \<Rightarrow> 'o \<Rightarrow> nat syscall \<times> 'o"
  h_close :: "int \<Rightarrow> 'o \<Rightarrow> 'o"
  h_read :: "int \<Rightarrow> nat \<Rightarrow> 'o \<Rightarrow> bytes syscall \<times> 'o"
  h_write :: "int \<Rightarrow> bytes \<Rightarrow> 'o \<Rightarrow> nat syscall \<times> 'o"
  h_poll :: "(int \<times> u16) list \<Rightarrow> int \<Rightarrow> 'o \<Rightarrow> (nat \<times> (nat \<Rightarrow> u16)) syscall \<times> 'o"
  h_sendto :: "int \<Rightarrow> bytes \<Rightarrow> bytes \<Rightarrow> 'o \<Rightarrow> nat syscall \<times> 'o"
  h_tunsetiff :: "int \<Rightarrow> string \<Rightarrow> 'o \<Rightarrow> unit syscall \<times> 'o"
  h_raw_socket :: "'o \<Rightarrow> nat syscall \<times> 'o"
  h_hdrincl :: "int \<Rightarrow> 'o \<Rightarrow> unit syscall \<times> 'o"
  h_system :: "string \<Rightarrow> 'o \<Rightarrow> 'o"
  h_mkfifo :: "string \<Rightarrow> 'o \<Rightarrow> unit syscall \<times> 'o"
  h_chmod :: "string \<Rightarrow> 'o \<Rightarrow> unit syscall \<times> 'o"
  h_stat_isfifo :: "string \<Rightarrow> 'o \<Rightarrow> bool syscall \<times> 'o"

text \<open>What is recorded: the fifos opened and closed, the bytes the rx fifo took, the packets sent.\<close>

datatype event = Opened fifo int | Closed fifo int | Wrote int bytes | SentTo bytes bytes

record 'o world =
  sys :: 'o
  trace :: "event list"

definition log_event :: "event \<Rightarrow> 'o world \<Rightarrow> 'o world" where
  "log_event e w = w\<lparr>trace := trace w @ [e]\<rparr>"

text \<open>
  \<^verbatim>\<open>read\<close> returns at most as many bytes as it was asked for and \<^verbatim>\<open>write\<close> takes at most as many as
  it was given.
\<close>

definition sys_read :: "'o host \<Rightarrow> int \<Rightarrow> nat \<Rightarrow> 'o world \<Rightarrow> bytes syscall \<times> 'o world" where
  "sys_read h fd n w = (case h_read h fd n (sys w) of
     (Ret bs, s) \<Rightarrow> (Ret (take n bs), w\<lparr>sys := s\<rparr>) | (Err e, s) \<Rightarrow> (Err e, w\<lparr>sys := s\<rparr>))"

definition sys_write :: "'o host \<Rightarrow> int \<Rightarrow> bytes \<Rightarrow> 'o world \<Rightarrow> nat syscall \<times> 'o world" where
  "sys_write h fd bs w = (case h_write h fd bs (sys w) of
     (Ret n, s) \<Rightarrow> (Ret (min n (length bs)), log_event (Wrote fd (take n bs)) (w\<lparr>sys := s\<rparr>))
   | (Err e, s) \<Rightarrow> (Err e, w\<lparr>sys := s\<rparr>))"

definition sys_open :: "'o host \<Rightarrow> fifo \<Rightarrow> string \<Rightarrow> open_mode \<Rightarrow> 'o world \<Rightarrow> int syscall \<times> 'o world" where
  "sys_open h f path m w = (case h_open h path m (sys w) of
     (Ret fd, s) \<Rightarrow> (Ret (int fd), log_event (Opened f (int fd)) (w\<lparr>sys := s\<rparr>))
   | (Err e, s) \<Rightarrow> (Err e, w\<lparr>sys := s\<rparr>))"

definition sys_close :: "'o host \<Rightarrow> fifo \<Rightarrow> int \<Rightarrow> 'o world \<Rightarrow> 'o world" where
  "sys_close h f fd w = log_event (Closed f fd) (w\<lparr>sys := h_close h fd (sys w)\<rparr>)"

definition sys_poll ::
  "'o host \<Rightarrow> (int \<times> u16) list \<Rightarrow> int \<Rightarrow> 'o world \<Rightarrow> (nat \<times> (nat \<Rightarrow> u16)) syscall \<times> 'o world" where
  "sys_poll h fds to w = (let (r, s) = h_poll h fds to (sys w) in (r, w\<lparr>sys := s\<rparr>))"

definition sys_sendto :: "'o host \<Rightarrow> int \<Rightarrow> bytes \<Rightarrow> bytes \<Rightarrow> 'o world \<Rightarrow> 'o world" where
  "sys_sendto h fd bs addr w = log_event (SentTo addr bs) (w\<lparr>sys := snd (h_sendto h fd bs addr (sys w))\<rparr>)"

section \<open>The bridge\<close>

abbreviation MTU :: nat where "MTU \<equiv> 1500"
abbreviation SLIP_MAX :: nat where "SLIP_MAX \<equiv> 2 * MTU + 2"
abbreviation IP_HDR_MIN :: nat where "IP_HDR_MIN \<equiv> 20"
abbreviation IP_OFF_DADDR :: nat where "IP_OFF_DADDR \<equiv> 16"

abbreviation POLLIN :: u16 where "POLLIN \<equiv> 0x01"
abbreviation POLLOUT :: u16 where "POLLOUT \<equiv> 0x04"
abbreviation POLLERR :: u16 where "POLLERR \<equiv> 0x08"
abbreviation POLLHUP :: u16 where "POLLHUP \<equiv> 0x10"
abbreviation POLLNVAL :: u16 where "POLLNVAL \<equiv> 0x20"

record bridge =
  tun_name :: string
  rx_path :: string
  tx_path :: string
  tun_fd :: int
  raw_fd :: int
  rx_fd :: int
  tx_fd :: int
  attached :: bool
  frame :: bytes
  frame_len :: nat
  in_escape :: bool
  in_sync :: bool
  truncated :: bool

subsection \<open>The tx fifo\<close>

definition tx_open :: "'o host \<Rightarrow> bridge \<Rightarrow> 'o world \<Rightarrow> (int \<times> 'o world) res" where
  "tx_open h b w = (case sys_open h Tx (tx_path b) O_RDONLY_NONBLOCK w of
     (Ret fd, w) \<Rightarrow> Inr (fd, w) | (Err _, w) \<Rightarrow> Inl Exited)"

fun drain_loop :: "'o host \<Rightarrow> nat \<Rightarrow> int \<Rightarrow> 'o world \<Rightarrow> 'o world res" where
  "drain_loop h 0 fd w = Inl OutOfFuel"
| "drain_loop h (Suc fuel) fd w =
     (case sys_read h fd 4096 w of
        (Ret bs, w) \<Rightarrow> if bs \<noteq> [] then drain_loop h fuel fd w else Inr w
      | (Err e, w) \<Rightarrow> if e = EINTR then drain_loop h fuel fd w else Inr w)"

definition tx_drain :: "'o host \<Rightarrow> nat \<Rightarrow> bridge \<Rightarrow> 'o world \<Rightarrow> (bridge \<times> 'o world) res" where
  "tx_drain h fuel b w =
     rbind (drain_loop h fuel (tx_fd b) w) (\<lambda>w.
       Inr (b\<lparr>frame_len := 0, in_escape := False, in_sync := False, truncated := False\<rparr>, w))"

definition tx_flush :: "'o host \<Rightarrow> nat \<Rightarrow> bridge \<Rightarrow> 'o world \<Rightarrow> (bridge \<times> 'o world) res" where
  "tx_flush h fuel b w =
     rbind (tx_drain h fuel b w) (\<lambda>(b, w).
     rbind (tx_open h b (sys_close h Tx (tx_fd b) w)) (\<lambda>(fd, w). Inr (b\<lparr>tx_fd := fd\<rparr>, w)))"

subsection \<open>Sessions\<close>

definition client_attach :: "'o host \<Rightarrow> bridge \<Rightarrow> 'o world \<Rightarrow> (bridge \<times> 'o world) res" where
  "client_attach h b w = (case sys_open h Rx (rx_path b) O_WRONLY_NONBLOCK w of
     (Err e, w) \<Rightarrow> if e \<noteq> ENXIO then Inl Exited else Inr (b, w)
   | (Ret fd, w) \<Rightarrow> Inr (b\<lparr>rx_fd := fd, attached := True\<rparr>, w))"

definition client_detach :: "'o host \<Rightarrow> nat \<Rightarrow> bridge \<Rightarrow> 'o world \<Rightarrow> (bridge \<times> 'o world) res" where
  "client_detach h fuel b w =
     (if \<not> attached b then Inr (b, w)
      else tx_flush h fuel (b\<lparr>rx_fd := - 1, attached := False\<rparr>) (sys_close h Rx (rx_fd b) w))"

subsection \<open>Writing to the Spectrum\<close>

datatype write_result = WRITE_OK | WRITE_DROPPED | WRITE_GONE

text \<open>
  One turn of the loop of \<^verbatim>\<open>rx_write\<close>: \<open>Inl r\<close> is a return, \<open>Inr n\<close> goes on \<open>n\<close> bytes further.
\<close>

definition rx_wait :: "'o host \<Rightarrow> bridge \<Rightarrow> 'o world \<Rightarrow> (write_result + nat) \<times> 'o world" where
  "rx_wait h b w =
     (case sys_poll h [(rx_fd b, POLLOUT)] 500 w of
        (Err e, w) \<Rightarrow> (if e = EINTR then Inr 0 else Inl WRITE_GONE, w)
      | (Ret (rc, revents), w) \<Rightarrow>
          (if rc = 0 then Inl WRITE_DROPPED
           else if revents 0 AND (POLLERR OR POLLHUP OR POLLNVAL) \<noteq> 0 then Inl WRITE_GONE
           else Inr 0, w))"

definition rx_turn :: "'o host \<Rightarrow> bridge \<Rightarrow> bytes \<Rightarrow> 'o world \<Rightarrow> (write_result + nat) \<times> 'o world" where
  "rx_turn h b buf w =
     (case sys_write h (rx_fd b) buf w of
        (Ret n, w) \<Rightarrow> if n > 0 then (Inr n, w) else rx_wait h b w
      | (Err e, w) \<Rightarrow>
          if e = EINTR then (Inr 0, w)
          else if e \<noteq> EAGAIN_errno \<and> e \<noteq> EWOULDBLOCK then (Inl WRITE_GONE, w)
          else rx_wait h b w)"

fun rx_write :: "'o host \<Rightarrow> nat \<Rightarrow> bridge \<Rightarrow> bytes \<Rightarrow> 'o world \<Rightarrow> (write_result \<times> 'o world) res" where
  "rx_write h fuel b [] w = Inr (WRITE_OK, w)"
| "rx_write h 0 b (c # cs) w = Inl OutOfFuel"
| "rx_write h (Suc fuel) b (c # cs) w =
     (case rx_turn h b (c # cs) w of
        (Inl r, w) \<Rightarrow> Inr (r, w) | (Inr n, w) \<Rightarrow> rx_write h fuel b (drop n (c # cs)) w)"

definition put1 :: "bytes \<Rightarrow> nat \<Rightarrow> u8 \<Rightarrow> (bytes \<times> nat) res" where
  "put1 out pos c = rbind (wr out pos c) (\<lambda>out. Inr (out, pos + 1))"

definition encode_byte :: "u8 \<Rightarrow> bytes \<Rightarrow> nat \<Rightarrow> (bytes \<times> nat) res" where
  "encode_byte c out pos =
     (if c = ZER then rbind (put1 out pos ESC) (\<lambda>(out, pos). put1 out pos ESC_ZER)
      else if c = END then rbind (put1 out pos ESC) (\<lambda>(out, pos). put1 out pos ESC_END)
      else if c = ESC then rbind (put1 out pos ESC) (\<lambda>(out, pos). put1 out pos ESC_ESC)
      else put1 out pos c)"

text \<open>The loop of \<^verbatim>\<open>slip_encode\<close>: \<open>inp\<close> is \<^verbatim>\<open>in\<close> from \<^verbatim>\<open>i\<close> on, and \<open>n\<close> is \<^verbatim>\<open>len - i\<close>.\<close>

fun encode_loop :: "bytes \<Rightarrow> nat \<Rightarrow> bytes \<Rightarrow> nat \<Rightarrow> (bytes \<times> nat) res" where
  "encode_loop inp 0 out pos = Inr (out, pos)"
| "encode_loop [] (Suc n) out pos = Inl OutOfBounds"
| "encode_loop (c # inp) (Suc n) out pos =
     rbind (encode_byte c out pos) (\<lambda>(out, pos). encode_loop inp n out pos)"

definition slip_encode :: "bytes \<Rightarrow> nat \<Rightarrow> bytes \<Rightarrow> (bytes \<times> nat) res" where
  "slip_encode inp len out =
     rbind (put1 out 0 END) (\<lambda>(out, pos).
     rbind (encode_loop inp len out pos) (\<lambda>(out, pos). put1 out pos END))"

text \<open>
  \<^verbatim>\<open>handle_tun\<close>. Of the array \<^verbatim>\<open>packet\<close> only the bytes that were read are initialised, and only they
  are in the model; \<open>remote\<close> is the address in network order, as memory holds it.
\<close>

definition handle_tun :: "'o host \<Rightarrow> nat \<Rightarrow> bytes \<Rightarrow> bridge \<Rightarrow> 'o world \<Rightarrow> (bridge \<times> 'o world) res" where
  "handle_tun h fuel remote b w =
     (case sys_read h (tun_fd b) MTU w of
        (Err e, w) \<Rightarrow> if e = EINTR \<or> e = EAGAIN_errno then Inr (b, w) else Inl Exited
      | (Ret packet, w) \<Rightarrow>
          if length packet < IP_HDR_MIN then Inr (b, w)
          else rbind (rd packet 0) (\<lambda>c. if c \<noteq> 0x45 then Inr (b, w)
          else rbind (rd_bytes packet IP_OFF_DADDR 4) (\<lambda>daddr. if daddr \<noteq> remote then Inr (b, w)
          else if \<not> attached b then Inr (b, w)
          else rbind (slip_encode packet (length packet) (replicate SLIP_MAX 0)) (\<lambda>(slip, len).
               rbind (rd_bytes slip 0 len) (\<lambda>buf.
               rbind (rx_write h fuel b buf w) (\<lambda>(r, w).
                 case r of WRITE_OK \<Rightarrow> Inr (b, w) | WRITE_DROPPED \<Rightarrow> Inr (b, w)
                 | WRITE_GONE \<Rightarrow> client_detach h fuel b w))))))"

subsection \<open>Reading from the Spectrum\<close>

definition inject_frame :: "'o host \<Rightarrow> bridge \<Rightarrow> 'o world \<Rightarrow> 'o world res" where
  "inject_frame h b w =
     (if frame_len b < IP_HDR_MIN then Inr w
      else rbind (rd (frame b) 0) (\<lambda>c. if c AND 0xf0 \<noteq> 0x40 then Inr w
      else rbind (rd_bytes (frame b) IP_OFF_DADDR 4) (\<lambda>addr.
           rbind (rd_bytes (frame b) 0 (frame_len b)) (\<lambda>bs.
             Inr (sys_sendto h (raw_fd b) bs addr w)))))"

definition slip_decode :: "'o host \<Rightarrow> u8 \<Rightarrow> bridge \<Rightarrow> 'o world \<Rightarrow> (bridge \<times> 'o world) res" where
  "slip_decode h c b w =
     (if \<not> in_sync b then Inr (if c = END then b\<lparr>in_sync := True\<rparr> else b, w)
      else if c = END then
        rbind (if truncated b then Inr w else if frame_len b \<noteq> 0 then inject_frame h b w else Inr w) (\<lambda>w.
          Inr (b\<lparr>frame_len := 0, in_escape := False, truncated := False\<rparr>, w))
      else if c = ESC then Inr (b\<lparr>in_escape := True\<rparr>, w)
      else
        let (c, b) =
          (if in_escape b then
             (if c = ESC_END then END else if c = ESC_ESC then ESC else if c = ESC_ZER then ZER else c,
              b\<lparr>in_escape := False\<rparr>)
           else (c, b))
        in if frame_len b = MTU then Inr (b\<lparr>truncated := True\<rparr>, w)
           else rbind (wr (frame b) (frame_len b) c) (\<lambda>f.
             Inr (b\<lparr>frame := f, frame_len := frame_len b + 1\<rparr>, w)))"

fun decode_all :: "'o host \<Rightarrow> bytes \<Rightarrow> bridge \<Rightarrow> 'o world \<Rightarrow> (bridge \<times> 'o world) res" where
  "decode_all h [] b w = Inr (b, w)"
| "decode_all h (c # cs) b w = rbind (slip_decode h c b w) (\<lambda>(b, w). decode_all h cs b w)"

definition handle_tx :: "'o host \<Rightarrow> bridge \<Rightarrow> 'o world \<Rightarrow> (bool \<times> bridge \<times> 'o world) res" where
  "handle_tx h b w =
     (case sys_read h (tx_fd b) 1024 w of
        (Err e, w) \<Rightarrow>
          if e = EINTR \<or> e = EAGAIN_errno \<or> e = EWOULDBLOCK then Inr (True, b, w) else Inl Exited
      | (Ret bs, w) \<Rightarrow>
          if bs = [] then Inr (False, b, w)
          else rbind (decode_all h bs b w) (\<lambda>(b, w). Inr (True, b, w)))"

subsection \<open>The main program\<close>

text \<open>The size of the field \<^verbatim>\<open>ifr_name\<close>; \<^verbatim>\<open>snprintf\<close> cuts the name to fit, with its zero.\<close>

abbreviation IFNAMSIZ :: nat where "IFNAMSIZ \<equiv> 16"

definition tun_open :: "'o host \<Rightarrow> string \<Rightarrow> 'o world \<Rightarrow> (int \<times> 'o world) res" where
  "tun_open h devname w = (case h_open h ''/dev/net/tun'' O_RDWR (sys w) of
     (Err _, s) \<Rightarrow> Inl Exited
   | (Ret fd, s) \<Rightarrow> (case h_tunsetiff h (int fd) (take (IFNAMSIZ - 1) devname) s of
       (Err _, s) \<Rightarrow> Inl Exited | (Ret _, s) \<Rightarrow> Inr (int fd, w\<lparr>sys := s\<rparr>)))"

definition raw_open :: "'o host \<Rightarrow> 'o world \<Rightarrow> (int \<times> 'o world) res" where
  "raw_open h w = (case h_raw_socket h (sys w) of
     (Err _, s) \<Rightarrow> Inl Exited
   | (Ret fd, s) \<Rightarrow> (case h_hdrincl h (int fd) s of
       (Err _, s) \<Rightarrow> Inl Exited | (Ret _, s) \<Rightarrow> Inr (int fd, w\<lparr>sys := s\<rparr>)))"

definition run_cmd :: "'o host \<Rightarrow> string \<Rightarrow> 'o world \<Rightarrow> 'o world" where
  "run_cmd h cmd w = w\<lparr>sys := h_system h (take 255 cmd) (sys w)\<rparr>"

definition make_fifo :: "'o host \<Rightarrow> string \<Rightarrow> 'o world \<Rightarrow> 'o world res" where
  "make_fifo h path w = (case h_mkfifo h path (sys w) of
     (Ret _, s) \<Rightarrow> (case h_chmod h path s of (Err _, s) \<Rightarrow> Inl Exited | (Ret _, s) \<Rightarrow> Inr (w\<lparr>sys := s\<rparr>))
   | (Err e, s) \<Rightarrow>
       if e \<noteq> EEXIST then Inl Exited
       else (case h_stat_isfifo h path s of
         (Err _, s) \<Rightarrow> Inl Exited | (Ret ok, s) \<Rightarrow> if \<not> ok then Inl Exited else Inr (w\<lparr>sys := s\<rparr>)))"

text \<open>\<^verbatim>\<open>main\<close> up to its loop.\<close>

definition main_setup :: "'o host \<Rightarrow> nat \<Rightarrow> string list \<Rightarrow> 'o world \<Rightarrow> (bridge \<times> 'o world) res" where
  "main_setup h fuel argv w =
     (let args = (if length argv > 1 \<and> argv ! 1 = ''-v'' then drop 2 argv else drop 1 argv) in
      case args of
        [tun, rx, tx] \<Rightarrow>
          rbind (tun_open h tun w) (\<lambda>(tun_fd, w).
          let w = run_cmd h (''ip link set dev '' @ tun @ '' up'') w;
              w = run_cmd h (''ip addr add 192.0.2.1/24 dev '' @ tun @ '' metric 600'') w in
          rbind (make_fifo h rx w) (\<lambda>w.
          rbind (make_fifo h tx w) (\<lambda>w.
          let b = \<lparr>tun_name = tun, rx_path = rx, tx_path = tx, tun_fd = tun_fd, raw_fd = 0, rx_fd = - 1, tx_fd = 0,
                attached = False, frame = replicate MTU 0, frame_len = 0, in_escape = False, in_sync = False,
                truncated = False\<rparr> in
          rbind (tx_open h b w) (\<lambda>(tx_fd, w).
          rbind (raw_open h w) (\<lambda>(raw_fd, w).
            tx_drain h fuel (b\<lparr>tx_fd := tx_fd, raw_fd := raw_fd\<rparr>) w)))))
      | _ \<Rightarrow> Inl Exited)"

abbreviation REMOTE_ADDR :: bytes where "REMOTE_ADDR \<equiv> [192, 0, 2, 2]"

text \<open>
  One turn of the loop of \<^verbatim>\<open>main\<close>. The tun device is entry 0 of the poll; with a client attached
  the tx fifo is entry 1 and the rx fifo entry 2. Whether entries 1 and 2 were asked for is
  decided before \<^verbatim>\<open>handle_tun\<close>, which may detach the client.
\<close>

definition main_step :: "'o host \<Rightarrow> nat \<Rightarrow> bridge \<Rightarrow> 'o world \<Rightarrow> (bridge \<times> 'o world) res" where
  "main_step h fuel b w =
     (let polled = attached b;
          fds = (tun_fd b, POLLIN) # (if polled then [(tx_fd b, POLLIN), (rx_fd b, 0)] else []) in
      case sys_poll h fds (if polled then - 1 else 200) w of
        (Err e, w) \<Rightarrow> if e = EINTR then Inr (b, w) else Inl Exited
      | (Ret (_, revents), w) \<Rightarrow>
          rbind (if revents 0 AND POLLIN \<noteq> 0 then handle_tun h fuel REMOTE_ADDR b w else Inr (b, w)) (\<lambda>(b, w).
          if polled \<and> revents 2 AND (POLLERR OR POLLHUP OR POLLNVAL) \<noteq> 0 then client_detach h fuel b w
          else
            rbind (if polled \<and> attached b \<and> revents 1 AND (POLLIN OR POLLHUP) \<noteq> 0 then handle_tx h b w
                   else Inr (True, b, w)) (\<lambda>(open, b, w).
            if \<not> open then client_detach h fuel b w
            else if \<not> attached b then client_attach h b w
            else Inr (b, w))))"

section \<open>The encoder\<close>

lemma put1_ok: "pos < length out \<Longrightarrow> put1 out pos c = Inr (take pos out @ [c] @ drop (pos + 1) out, pos + 1)"
  by (simp add: put1_def wr_memcpy memcpy_def)

text \<open>\<open>fill out bs\<close>: the array \<open>out\<close> with \<open>bs\<close> written at its front.\<close>

definition fill :: "bytes \<Rightarrow> bytes \<Rightarrow> bytes" where
  "fill out bs = bs @ drop (length bs) out"

lemma length_fill: "length bs \<le> length out \<Longrightarrow> length (fill out bs) = length out"
  by (simp add: fill_def)

lemma put1_fill:
  "length bs < length out \<Longrightarrow> put1 (fill out bs) (length bs) c = Inr (fill out (bs @ [c]), length (bs @ [c]))"
  by (simp add: put1_ok length_fill) (simp add: fill_def)

lemma encode_byte_fill:
  "length bs + 2 \<le> length out \<Longrightarrow>
   encode_byte c (fill out bs) (length bs) = Inr (fill out (bs @ esc_byte c), length (bs @ esc_byte c))"
  using put1_fill [of bs out] put1_fill [of "bs @ [ESC]" out]
  by (auto simp: encode_byte_def esc_byte_def)

lemma encode_loop_fill:
  "length bs + 2 * n \<le> length out \<Longrightarrow> n \<le> length inp \<Longrightarrow>
   encode_loop inp n (fill out bs) (length bs) =
     Inr (fill out (bs @ concat (map esc_byte (take n inp))), length (bs @ concat (map esc_byte (take n inp))))"
proof (induction n arbitrary: inp bs)
  case (Suc n)
  from Suc.prems(2) obtain c cs where inp: "inp = c # cs" by (cases inp) auto
  have "encode_loop cs n (fill out (bs @ esc_byte c)) (length (bs @ esc_byte c)) =
      Inr (fill out ((bs @ esc_byte c) @ concat (map esc_byte (take n cs))),
           length ((bs @ esc_byte c) @ concat (map esc_byte (take n cs))))"
    using Suc.prems z80.stuff_length [of c] by (intro Suc.IH) (auto simp: inp)
  then show ?case
    using Suc.prems(1) by (simp only: inp encode_loop.simps encode_byte_fill rbind_Inr prod.case)
      (simp add: encode_byte_fill)
qed simp

lemma slip_encode_ok:
  assumes "2 * len + 2 \<le> length out" and "len \<le> length inp"
  shows "slip_encode inp len out =
    Inr (fill out (slip_frame esc_byte (take len inp)), length (slip_frame esc_byte (take len inp)))"
proof -
  let ?f = "END # concat (map esc_byte (take len inp))"
  have "put1 (fill out []) (length []) END = Inr (fill out [END], 1)"
    using assms(1) put1_fill [of "[]" out END] by (cases out) auto
  moreover have "encode_loop inp len (fill out [END]) 1 = Inr (fill out ?f, length ?f)"
    using assms encode_loop_fill [of "[END]" len out inp] by simp
  moreover have "length ?f < length out"
    using assms z80.payload_length_le [of "take len inp"] by simp
  then have "put1 (fill out ?f) (length ?f) END = Inr (fill out (?f @ [END]), length (?f @ [END]))"
    by (rule put1_fill)
  ultimately show ?thesis
    by (simp add: slip_encode_def slip_frame_def) (simp add: fill_def)
qed

section \<open>The decoder\<close>

text \<open>Memory of the decoder, and a decoder between two frames.\<close>

definition frame_ok :: "bridge \<Rightarrow> bool" where
  "frame_ok b \<longleftrightarrow> length (frame b) = MTU \<and> frame_len b \<le> MTU"

definition decoder_reset :: "bridge \<Rightarrow> bool" where
  "decoder_reset b \<longleftrightarrow> frame_len b = 0 \<and> \<not> in_escape b \<and> \<not> truncated b"

text \<open>What the bridge does with a complete packet.\<close>

definition injected :: "'o host \<Rightarrow> int \<Rightarrow> bytes \<Rightarrow> 'o world \<Rightarrow> 'o world" where
  "injected h fd p w =
     (if IP_HDR_MIN \<le> length p \<and> p ! 0 AND 0xf0 = 0x40 then sys_sendto h fd p (take 4 (drop IP_OFF_DADDR p)) w else w)"

text \<open>A decoder that has collected \<open>acc\<close> of the current frame.\<close>

definition collected :: "bytes \<Rightarrow> bridge \<Rightarrow> bridge" where
  "collected acc b = b\<lparr>frame := acc @ drop (length acc) (frame b), frame_len := length acc, in_sync := True\<rparr>"

lemma collected_Nil: "in_sync b \<Longrightarrow> decoder_reset b \<Longrightarrow> collected [] b = b"
  by (simp add: collected_def decoder_reset_def)

lemma inject_frame_collected:
  assumes "length acc \<le> length (frame b)"
  shows "inject_frame h (collected acc b) w = Inr (injected h (raw_fd b) acc w)"
proof (cases "length acc < IP_HDR_MIN")
  case False
  then have "0 < length acc" by linarith
  with False have "rd (frame (collected acc b)) 0 = Inr (acc ! 0)"
    "rd_bytes (frame (collected acc b)) IP_OFF_DADDR 4 = Inr (take 4 (drop IP_OFF_DADDR acc))"
    "rd_bytes (frame (collected acc b)) 0 (length acc) = Inr acc"
    using assms by (simp_all add: collected_def rd_append rd_bytes_def)
  then show ?thesis
    using False by (simp add: inject_frame_def injected_def collected_def)
qed (simp add: inject_frame_def injected_def collected_def)

lemma decode_stuffed:
  assumes "length (frame b) = MTU" and "length acc < MTU" and "decoder_reset b"
  shows "decode_all h (esc_byte c @ cs) (collected acc b) w = decode_all h cs (collected (acc @ [c]) b) w"
proof -
  have store: "wr (acc @ drop (length acc) (frame b)) (length acc) c =
      Inr ((acc @ [c]) @ drop (length (acc @ [c])) (frame b))"
    using assms by (simp add: wr_memcpy memcpy_def)
  show ?thesis
    using assms store by (cases b) (auto simp: esc_byte_def slip_decode_def collected_def decoder_reset_def)
qed

lemma decode_payload:
  assumes "length (frame b) = MTU" and "decoder_reset b"
  shows "length acc + length p \<le> MTU \<Longrightarrow>
    decode_all h (concat (map esc_byte p) @ cs) (collected acc b) w = decode_all h cs (collected (acc @ p) b) w"
proof (induction p arbitrary: acc)
  case (Cons c p)
  have "decode_all h (concat (map esc_byte (c # p)) @ cs) (collected acc b) w =
      decode_all h (concat (map esc_byte p) @ cs) (collected (acc @ [c]) b) w"
    using decode_stuffed [OF assms(1) _ assms(2), of acc h c] Cons.prems by simp
  with Cons.IH [of "acc @ [c]"] Cons.prems show ?case by simp
qed simp

text \<open>A whole frame, from a decoder between frames or one that is still looking for its first END.\<close>

lemma decode_frame:
  assumes "length (frame b) = MTU" and "decoder_reset b" and "length p \<le> MTU"
  shows "\<exists>f. length f = MTU \<and> decode_all h (slip_frame esc_byte p @ cs) b w =
    decode_all h cs (b\<lparr>frame := f, in_sync := True\<rparr>) (injected h (raw_fd b) p w)"
proof (intro exI conjI)
  let ?f = "p @ drop (length p) (frame b)"
  have "slip_decode h END b w = Inr (collected [] b, w)"
    using assms(2) by (auto simp: slip_decode_def collected_def decoder_reset_def)
  moreover have "decode_all h (concat (map esc_byte p) @ END # cs) (collected [] b) w =
      decode_all h (END # cs) (collected p b) w"
    using decode_payload [OF assms(1,2), where acc = "[]" and cs = "END # cs"] assms(3) by simp
  moreover have "injected h (raw_fd b) [] w = w" by (simp add: injected_def)
  then have "slip_decode h END (collected p b) w = Inr (b\<lparr>frame := ?f, in_sync := True\<rparr>, injected h (raw_fd b) p w)"
    using assms inject_frame_collected [of p b h w]
    by (auto simp: slip_decode_def collected_def decoder_reset_def)
  ultimately show "decode_all h (slip_frame esc_byte p @ cs) b w =
      decode_all h cs (b\<lparr>frame := ?f, in_sync := True\<rparr>) (injected h (raw_fd b) p w)"
    by (simp add: slip_frame_def)
  show "length ?f = MTU" using assms by simp
qed

text \<open>What does not fit the frame buffer is dropped.\<close>

lemma decode_overflow_byte:
  assumes "frame_len b = MTU" and "\<not> in_escape b" and "in_sync b"
  shows "decode_all h (esc_byte c @ cs) b w = decode_all h cs (b\<lparr>truncated := True\<rparr>) w"
  using assms by (cases b) (auto simp: esc_byte_def slip_decode_def)

lemma decode_overflow:
  "frame_len b = MTU \<Longrightarrow> \<not> in_escape b \<Longrightarrow> in_sync b \<Longrightarrow> q \<noteq> [] \<Longrightarrow>
   decode_all h (concat (map esc_byte q) @ cs) b w = decode_all h cs (b\<lparr>truncated := True\<rparr>) w"
proof (induction q arbitrary: b)
  case (Cons c q)
  then show ?case
    using decode_overflow_byte [of b h c "concat (map esc_byte q) @ cs" w] by (cases "q = []") auto
qed simp

lemma decode_frame_oversized:
  assumes "length (frame b) = MTU" and "decoder_reset b" and "MTU < length p"
  shows "\<exists>f. length f = MTU \<and> decode_all h (slip_frame esc_byte p @ cs) b w =
    decode_all h cs (b\<lparr>frame := f, in_sync := True\<rparr>) w"
proof -
  obtain a q where p: "p = a @ q" and a: "length a = MTU" and q: "q \<noteq> []"
    using assms(3) that [of "take MTU p" "drop MTU p"] by auto
  have "slip_decode h END b w = Inr (collected [] b, w)"
    using assms(2) by (auto simp: slip_decode_def collected_def decoder_reset_def)
  then have "decode_all h (slip_frame esc_byte p @ cs) b w =
      decode_all h (concat (map esc_byte a) @ concat (map esc_byte q) @ END # cs) (collected [] b) w"
    by (simp add: slip_frame_def p)
  also have "\<dots> = decode_all h (concat (map esc_byte q) @ END # cs) (collected a b) w"
    using decode_payload [OF assms(1,2), where acc = "[]" and p = a] a by simp
  also have "\<dots> = decode_all h (END # cs) ((collected a b)\<lparr>truncated := True\<rparr>) w"
    using assms(2) a q by (intro decode_overflow) (auto simp: collected_def decoder_reset_def)
  also have "\<dots> = decode_all h cs (b\<lparr>frame := a, in_sync := True\<rparr>) w"
    using assms(1,2) a by (cases b) (auto simp: slip_decode_def collected_def decoder_reset_def)
  finally show ?thesis using a by blast
qed

text \<open>A stream of frames, as a trace.\<close>

definition injectable :: "bytes \<Rightarrow> bool" where
  "injectable p \<longleftrightarrow> IP_HDR_MIN \<le> length p \<and> length p \<le> MTU \<and> p ! 0 AND 0xf0 = 0x40"

definition sent_to :: "bytes \<Rightarrow> event" where
  "sent_to p = SentTo (take 4 (drop IP_OFF_DADDR p)) p"

lemma decode_one:
  assumes "length (frame b) = MTU" and "decoder_reset b"
  shows "\<exists>f w'. length f = MTU \<and> trace w' = trace w @ map sent_to (filter injectable [p]) \<and>
    decode_all h (slip_frame esc_byte p @ cs) b w = decode_all h cs (b\<lparr>frame := f, in_sync := True\<rparr>) w'"
proof (cases "length p \<le> MTU")
  case True
  have "trace (injected h (raw_fd b) p w) = trace w @ map sent_to (filter injectable [p])"
    using True by (simp add: injected_def injectable_def sent_to_def sys_sendto_def log_event_def)
  then show ?thesis using decode_frame [OF assms True, of h cs w] by blast
next
  case False
  then have "trace w = trace w @ map sent_to (filter injectable [p])" by (simp add: injectable_def)
  then show ?thesis using decode_frame_oversized [OF assms, of p h cs w] False by fastforce
qed

lemma decode_stream:
  assumes "length (frame b) = MTU" and "decoder_reset b"
  shows "\<exists>f y w'. length f = MTU \<and> trace w' = trace w @ map sent_to (filter injectable ps) \<and>
    (ps \<noteq> [] \<longrightarrow> y) \<and>
    decode_all h (concat (map (slip_frame esc_byte) ps)) b w = Inr (b\<lparr>frame := f, in_sync := y\<rparr>, w')"
  using assms
proof (induction ps arbitrary: b w)
  case Nil
  then show ?case by (intro exI [of _ "frame b"] exI [of _ "in_sync b"] exI [of _ w]) simp
next
  case (Cons p ps)
  from decode_one [OF Cons.prems, of w p h "concat (map (slip_frame esc_byte) ps)"] obtain f w1 where
    f: "length f = MTU" and w1: "trace w1 = trace w @ map sent_to (filter injectable [p])" and
    eq: "decode_all h (slip_frame esc_byte p @ concat (map (slip_frame esc_byte) ps)) b w =
      decode_all h (concat (map (slip_frame esc_byte) ps)) (b\<lparr>frame := f, in_sync := True\<rparr>) w1" by blast
  have "decoder_reset (b\<lparr>frame := f, in_sync := True\<rparr>)" "length (frame (b\<lparr>frame := f, in_sync := True\<rparr>)) = MTU"
    using Cons.prems(2) f by (simp_all add: decoder_reset_def)
  from Cons.IH [OF this(2,1), of w1] obtain f' y w' where
    IH: "length f' = MTU" "trace w' = trace w1 @ map sent_to (filter injectable ps)" "ps \<noteq> [] \<longrightarrow> y"
      "decode_all h (concat (map (slip_frame esc_byte) ps)) (b\<lparr>frame := f, in_sync := True\<rparr>) w1 =
       Inr (b\<lparr>frame := f', in_sync := y\<rparr>, w')" by auto
  show ?case
  proof (cases "ps = []")
    case True
    then show ?thesis
      using eq f w1 by (intro exI [of _ f] exI [of _ True] exI [of _ w1]) simp
  next
    case False
    then show ?thesis
      using eq w1 IH by (intro exI [of _ f'] exI [of _ y] exI [of _ w']) auto
  qed
qed

lemma decode_noise:
  "END \<notin> set ns \<Longrightarrow> \<not> in_sync b \<Longrightarrow> decode_all h (ns @ cs) b w = decode_all h cs b w"
  by (induction ns) (auto simp: slip_decode_def)

lemma decode_all_append:
  "decode_all h (xs @ ys) b w = rbind (decode_all h xs b w) (\<lambda>(b, w). decode_all h ys b w)"
  by (induction xs arbitrary: b w) (auto simp: rbind_assoc case_prod_unfold)

section \<open>Properties: the two directions\<close>

text \<open>
  C29: the encoder of the bridge never overruns its buffer and is the encoder of the stack. For
  every packet of at most \<^verbatim>\<open>MTU\<close> bytes, \<^verbatim>\<open>slip_encode\<close> writes into an array of \<^verbatim>\<open>SLIP_MAX\<close> bytes, and
  the bytes it reports are the frame that \<^verbatim>\<open>send_packet\<close> of \<^verbatim>\<open>slip.c\<close> puts on the line for the packet.
\<close>

theorem slip_encode_is_send_packet:
  assumes "length p \<le> MTU" and "length out = SLIP_MAX"
  shows "\<exists>out' len. slip_encode p (length p) out = Inr (out', len) \<and> len \<le> SLIP_MAX \<and> length out' = SLIP_MAX \<and>
    send_packet pf p (length p) d = Inr (puts pf (take len out') d)"
proof -
  have "2 * length p + 2 \<le> length out" using assms by simp
  from slip_encode_ok [OF this order_refl] show ?thesis
    using assms z80.frame_length [of p] send_packet_puts [of "length p" p pf d] by (auto simp: fill_def)
qed

theorem slip_encode_is_send_packet_witness:
  "\<exists>out' len. slip_encode [0x45, 0, 0xC0, 0xDB] (length [0x45, 0, 0xC0, 0xDB :: u8]) (replicate SLIP_MAX 7) = Inr (out', len) \<and>
    len \<le> SLIP_MAX \<and> length out' = SLIP_MAX \<and>
    send_packet script_line [0x45, 0, 0xC0, 0xDB] (length [0x45, 0, 0xC0, 0xDB :: u8]) ([], []) =
      Inr (puts script_line (take len out') ([], []))"
  by (rule slip_encode_is_send_packet) simp_all

text \<open>
  C30: the decoder of the bridge delivers a stream of frames. Starting without synchronisation,
  after noise without an END, it sends exactly the packets of the frames that are IPv4, at
  least a header long and at most \<^verbatim>\<open>MTU\<close> long, unchanged, in order and to their destination
  address; oversized and foreign frames are dropped whole and disturb no other frame. How the
  stream was cut into reads does not matter.
\<close>

theorem slip_decode_stream:
  assumes "length (frame b) = MTU" and "decoder_reset b" and "\<not> in_sync b" and "END \<notin> set noise"
    and "xs @ ys = noise @ concat (map (slip_frame esc_byte) ps)"
  shows "\<exists>b' w'. rbind (decode_all h xs b w) (\<lambda>(b, w). decode_all h ys b w) = Inr (b', w') \<and> decoder_reset b' \<and>
    trace w' = trace w @ map (\<lambda>p. SentTo (take 4 (drop 16 p)) p)
      (filter (\<lambda>p. 20 \<le> length p \<and> length p \<le> MTU \<and> p ! 0 AND 0xf0 = 0x40) ps)"
proof -
  from decode_stream [OF assms(1,2), of w ps h] obtain f y w' where
    "trace w' = trace w @ map sent_to (filter injectable ps)"
    "decode_all h (concat (map (slip_frame esc_byte) ps)) b w = Inr (b\<lparr>frame := f, in_sync := y\<rparr>, w')" by blast
  moreover have "decoder_reset (b\<lparr>frame := f, in_sync := y\<rparr>)" using assms(2) by (simp add: decoder_reset_def)
  moreover have "sent_to = (\<lambda>p. SentTo (take 4 (drop 16 p)) p)"
    "injectable = (\<lambda>p. 20 \<le> length p \<and> length p \<le> MTU \<and> p ! 0 AND 0xf0 = 0x40)"
    by (auto simp: fun_eq_iff sent_to_def injectable_def)
  ultimately show ?thesis
    by (simp add: decode_all_append [symmetric] assms(5) decode_noise [OF assms(4,3)])
qed

text \<open>
  A host for concrete runs: reads follow a script, then would block; the rx fifo takes
  everything; every \<^verbatim>\<open>poll\<close> reports input.
\<close>

definition script_host :: "bytes syscall list host" where
  "script_host = \<lparr>h_open = (\<lambda>_ _ s. (Ret 5, s)), h_close = (\<lambda>_ s. s),
     h_read = (\<lambda>_ _ s. case s of [] \<Rightarrow> (Err EAGAIN_errno, []) | r # rs \<Rightarrow> (r, rs)),
     h_write = (\<lambda>_ bs s. (Ret (length bs), s)), h_poll = (\<lambda>_ _ s. (Ret (1, \<lambda>_. POLLIN), s)),
     h_sendto = (\<lambda>_ bs _ s. (Ret (length bs), s)), h_tunsetiff = (\<lambda>_ _ s. (Ret (), s)),
     h_raw_socket = (\<lambda>s. (Ret 4, s)), h_hdrincl = (\<lambda>_ s. (Ret (), s)), h_system = (\<lambda>_ s. s),
     h_mkfifo = (\<lambda>_ s. (Ret (), s)), h_chmod = (\<lambda>_ s. (Ret (), s)), h_stat_isfifo = (\<lambda>_ s. (Ret True, s))\<rparr>"

definition demo_bridge :: bridge where
  "demo_bridge = \<lparr>tun_name = ''tun0'', rx_path = ''rx'', tx_path = ''tx'', tun_fd = 3, raw_fd = 4, rx_fd = 5, tx_fd = 6,
     attached = True, frame = replicate MTU 0, frame_len = 0, in_escape = False, in_sync = False, truncated = False\<rparr>"

definition demo_world :: "bytes syscall list \<Rightarrow> bytes syscall list world" where
  "demo_world rs = \<lparr>sys = rs, trace = [Opened Rx 5]\<rparr>"

lemma demo_bridge_ok [simp]: "length (frame demo_bridge) = MTU" "decoder_reset demo_bridge" "\<not> in_sync demo_bridge"
  by (simp_all add: demo_bridge_def decoder_reset_def)

theorem slip_decode_stream_witness:
  "\<exists>b' w'. rbind (decode_all script_host [1, 2, END] demo_bridge (demo_world []))
      (\<lambda>(b, w). decode_all script_host (concat (map esc_byte (replicate 20 0x45)) @ [END]) b w) = Inr (b', w') \<and>
    decoder_reset b' \<and>
    trace w' = trace (demo_world []) @ map (\<lambda>p. SentTo (take 4 (drop 16 p)) p)
      (filter (\<lambda>p. 20 \<le> length p \<and> length p \<le> MTU \<and> p ! 0 AND 0xf0 = 0x40) [replicate 20 0x45])"
  by (rule slip_decode_stream [where noise = "[1, 2]"]) (simp_all add: slip_frame_def)

end
