(* ===== verification/Slip_Tun_Session.thy ===== *)
theory Slip_Tun_Session
  imports Slip_Tun
begin

text \<open>
  The sessions of the bridge: what the rx fifo was given, by the trace of the calls; the
  invariant of the main loop, which every operation of \<open>Slip_Tun\<close> keeps; and the states the
  program reaches.
\<close>

section \<open>The rx fifo\<close>

text \<open>The bytes the rx fifo took, in order.\<close>

fun event_bytes :: "event \<Rightarrow> bytes" where
  "event_bytes (Wrote fd bs) = bs"
| "event_bytes _ = []"

definition written :: "event list \<Rightarrow> bytes" where
  "written tr = concat (map event_bytes tr)"

lemma written_append [simp]: "written (xs @ ys) = written xs @ written ys"
  by (simp add: written_def)

lemma written_single [simp]: "written [e] = event_bytes e"
  by (simp add: written_def)

lemma sys_read_trace: "sys_read h fd n w = (r, w') \<Longrightarrow> trace w' = trace w"
  by (auto simp: sys_read_def split: prod.splits syscall.splits)

lemma sys_read_length: "sys_read h fd n w = (Ret bs, w') \<Longrightarrow> length bs \<le> n"
  by (auto simp: sys_read_def split: prod.splits syscall.splits)

lemma sys_poll_trace: "sys_poll h fds to w = (r, w') \<Longrightarrow> trace w' = trace w"
  by (auto simp: sys_poll_def split: prod.splits)

lemma sys_write_trace:
  assumes "sys_write h fd bs w = (r, w')"
  shows "case r of Ret n \<Rightarrow> n \<le> length bs \<and> trace w' = trace w @ [Wrote fd (take n bs)] | Err e \<Rightarrow> trace w' = trace w"
proof -
  have "take (min n (length bs)) bs = take n bs" for n by (simp add: min_def)
  then show ?thesis
    using assms by (auto simp: sys_write_def log_event_def split: prod.splits syscall.splits)
qed

text \<open>A part of the fifo's history that consists of writes to one descriptor.\<close>

definition writes_only :: "int \<Rightarrow> event list \<Rightarrow> bool" where
  "writes_only fd tr \<longleftrightarrow> (\<forall>e \<in> set tr. \<exists>bs. e = Wrote fd bs)"

lemma rx_wait_trace: "rx_wait h b w = (q, w') \<Longrightarrow> trace w' = trace w \<and> (\<forall>n. q = Inr n \<longrightarrow> n = 0) \<and> q \<noteq> Inl WRITE_OK"
  by (auto simp: rx_wait_def dest: sys_poll_trace split: prod.splits syscall.splits if_splits)

lemma rx_turn_trace:
  assumes "rx_turn h b buf w = (q, w')"
  shows "\<exists>tr. trace w' = trace w @ tr \<and> writes_only (rx_fd b) tr \<and> q \<noteq> Inl WRITE_OK \<and>
    written tr = (case q of Inl _ \<Rightarrow> [] | Inr n \<Rightarrow> take n buf)"
proof -
  obtain n w1 where wr: "sys_write h (rx_fd b) buf w = (n, w1)" by fastforce
  define tr where "tr = (case n of Ret k \<Rightarrow> [Wrote (rx_fd b) (take k buf)] | Err _ \<Rightarrow> [])"
  have "trace w1 = trace w @ tr" "writes_only (rx_fd b) tr"
    using sys_write_trace [OF wr] by (auto simp: tr_def writes_only_def split: syscall.splits)
  moreover have "trace w' = trace w1 \<and> q \<noteq> Inl WRITE_OK \<and> written tr = (case q of Inl _ \<Rightarrow> [] | Inr n \<Rightarrow> take n buf)"
    using assms
    by (auto simp: rx_turn_def wr tr_def written_def dest!: rx_wait_trace split: syscall.splits if_splits sum.splits)
  ultimately show ?thesis by auto
qed

lemma rx_write_spec:
  "rx_write h fuel b buf w = Inr (r, w') \<Longrightarrow>
   \<exists>tr rest. trace w' = trace w @ tr \<and> writes_only (rx_fd b) tr \<and> buf = written tr @ rest \<and> (r = WRITE_OK \<longleftrightarrow> rest = [])"
proof (induction fuel arbitrary: buf w)
  case 0
  then show ?case
    by (cases buf) (auto intro: exI [of _ "[]"] simp: writes_only_def written_def)
next
  case (Suc fuel)
  show ?case
  proof (cases buf)
    case Nil
    with Suc.prems show ?thesis by (auto intro: exI [of _ "[]"] simp: writes_only_def written_def)
  next
    case (Cons c cs)
    obtain q w1 where t: "rx_turn h b buf w = (q, w1)" by fastforce
    from rx_turn_trace [OF t] obtain tr where tr: "trace w1 = trace w @ tr" "writes_only (rx_fd b) tr"
      "q \<noteq> Inl WRITE_OK" "written tr = (case q of Inl _ \<Rightarrow> [] | Inr n \<Rightarrow> take n buf)" by blast
    show ?thesis
    proof (cases q)
      case (Inl r')
      then show ?thesis
        using Suc.prems t tr by (intro exI [of _ tr] exI [of _ buf]) (auto simp: Cons)
    next
      case (Inr n)
      with Suc.prems t have "rx_write h fuel b (drop n buf) w1 = Inr (r, w')" by (simp add: Cons)
      from Suc.IH [OF this] obtain tr' rest where tr': "trace w' = trace w1 @ tr'" "writes_only (rx_fd b) tr'"
        "drop n buf = written tr' @ rest" "r = WRITE_OK \<longleftrightarrow> rest = []" by blast
      have "buf = written (tr @ tr') @ rest"
        using tr(4) tr'(3) Inr append_take_drop_id [of n buf] by simp
      then show ?thesis
        using tr tr' by (intro exI [of _ "tr @ tr'"] exI [of _ rest]) (auto simp: writes_only_def)
    qed
  qed
qed

section \<open>Sessions\<close>

text \<open>
  The history of the rx fifo as a state machine: \<open>Some None\<close> is closed, \<open>Some (Some fd)\<close> is open with
  this descriptor, and \<open>None\<close> is a violation of the protocol of sessions: opening it twice, or
  writing to it or closing it while it is not open with that descriptor.
\<close>

fun rx_step :: "int option option \<Rightarrow> event \<Rightarrow> int option option" where
  "rx_step (Some None) (Opened Rx fd) = Some (Some fd)"
| "rx_step (Some (Some fd')) (Opened Rx fd) = None"
| "rx_step (Some s) (Wrote fd bs) = (if s = Some fd then Some s else None)"
| "rx_step (Some s) (Closed Rx fd) = (if s = Some fd then Some None else None)"
| "rx_step s _ = s"

definition rx_session :: "event list \<Rightarrow> int option option" where
  "rx_session tr = foldl rx_step (Some None) tr"

lemma rx_session_append [simp]: "rx_session (tr @ es) = foldl rx_step (rx_session tr) es"
  by (simp add: rx_session_def)

lemma rx_session_writes:
  "writes_only fd ws \<Longrightarrow> rx_session tr = Some (Some fd) \<Longrightarrow> rx_session (tr @ ws) = Some (Some fd)"
  by (induction ws) (auto simp: writes_only_def)

text \<open>The state of the bridge between two turns of its loop.\<close>

definition session_ok :: "bridge \<Rightarrow> event list \<Rightarrow> bool" where
  "session_ok b tr \<longleftrightarrow> (attached b \<longleftrightarrow> rx_fd b \<noteq> - 1) \<and>
     rx_session tr = Some (if attached b then Some (rx_fd b) else None)"

definition bridge_ok :: "bridge \<Rightarrow> 'o world \<Rightarrow> bool" where
  "bridge_ok b w \<longleftrightarrow> session_ok b (trace w) \<and> frame_ok b \<and> (\<not> attached b \<longrightarrow> decoder_reset b \<and> \<not> in_sync b)"

lemma bridge_ok_trace: "bridge_ok b w \<Longrightarrow> trace w' = trace w \<Longrightarrow> bridge_ok b w'"
  by (simp add: bridge_ok_def)

lemma drain_loop_trace: "holds_res (\<lambda>w'. trace w' = trace w) (drain_loop h fuel fd w)"
proof (induction fuel arbitrary: w)
  case (Suc fuel)
  obtain r w1 where rd: "sys_read h fd 4096 w = (r, w1)" by fastforce
  with Suc.IH [of w1] sys_read_trace [OF rd] show ?case by (auto split: syscall.splits)
qed simp

lemma tx_open_trace: "holds_res (\<lambda>(fd, w'). trace w' = trace w @ [Opened Tx fd]) (tx_open h b w)"
  by (auto simp: tx_open_def sys_open_def log_event_def split: prod.splits syscall.splits)

lemma rx_step_Tx [simp]: "rx_step s (Opened Tx fd) = s" "rx_step s (Closed Tx fd) = s" "rx_step s (SentTo a p) = s"
  by (cases s; simp)+

lemma tx_drain_ok:
  "holds_res (\<lambda>(b', w'). trace w' = trace w \<and>
     b' = b\<lparr>frame_len := 0, in_escape := False, in_sync := False, truncated := False\<rparr>) (tx_drain h fuel b w)"
  unfolding tx_drain_def by (rule holds_res_rbindI [OF drain_loop_trace]) simp

lemma tx_flush_ok:
  assumes "length (frame b) = MTU"
  shows "holds_res (\<lambda>(b', w'). rx_session (trace w') = rx_session (trace w) \<and> rx_fd b' = rx_fd b \<and>
    attached b' = attached b \<and> frame_ok b' \<and> decoder_reset b' \<and> \<not> in_sync b') (tx_flush h fuel b w)"
  unfolding tx_flush_def
proof (rule holds_res_rbindI [OF tx_drain_ok], clarify)
  fix w1 :: "'a world"
  assume w1: "trace w1 = trace w"
  let ?b = "b\<lparr>frame_len := 0, in_escape := False, in_sync := False, truncated := False\<rparr>"
  show "holds_res (\<lambda>(b', w'). rx_session (trace w') = rx_session (trace w) \<and> rx_fd b' = rx_fd b \<and>
      attached b' = attached b \<and> frame_ok b' \<and> decoder_reset b' \<and> \<not> in_sync b')
    (rbind (tx_open h ?b (sys_close h Tx (tx_fd ?b) w1)) (\<lambda>(fd, w). Inr (?b\<lparr>tx_fd := fd\<rparr>, w)))"
    by (rule holds_res_rbindI [OF tx_open_trace])
      (use assms w1 in \<open>auto simp: sys_close_def log_event_def frame_ok_def decoder_reset_def\<close>)
qed

lemma client_detach_ok:
  assumes "bridge_ok b w"
  shows "holds_res (\<lambda>(b', w'). bridge_ok b' w' \<and> \<not> attached b') (client_detach h fuel b w)"
proof (cases "attached b")
  case True
  let ?b = "b\<lparr>rx_fd := - 1, attached := False\<rparr>"
  have "length (frame ?b) = MTU" using assms by (simp add: bridge_ok_def frame_ok_def)
  moreover have "rx_session (trace (sys_close h Rx (rx_fd b) w)) = Some None"
    using assms True by (simp add: bridge_ok_def session_ok_def sys_close_def log_event_def)
  ultimately show ?thesis
    using True unfolding client_detach_def
    by (simp, intro holds_res_mono [OF tx_flush_ok]) (auto simp: bridge_ok_def session_ok_def)
qed (use assms in \<open>simp add: client_detach_def\<close>)

lemma client_detach_trace:
  assumes "attached b"
  shows "holds_res (\<lambda>(b', w'). \<not> attached b' \<and> (\<exists>tl. trace w' = trace w @ tl)) (client_detach h fuel b w)"
proof -
  have flush: "holds_res (\<lambda>(b', w'). attached b' = attached b \<and> (\<exists>tl. trace w' = trace w @ tl)) (tx_flush h fuel b w)"
    for b and w :: "'a world"
    unfolding tx_flush_def
    by (rule holds_res_rbindI [OF tx_drain_ok], clarify, rule holds_res_rbindI [OF tx_open_trace])
      (auto simp: sys_close_def log_event_def)
  show ?thesis
    unfolding client_detach_def using assms
    by (simp, intro holds_res_mono [OF flush]) (auto simp: sys_close_def log_event_def)
qed

lemma client_attach_ok:
  assumes "bridge_ok b w" and "\<not> attached b"
  shows "holds_res (\<lambda>(b', w'). bridge_ok b' w') (client_attach h b w)"
  using assms by (auto simp: client_attach_def sys_open_def log_event_def bridge_ok_def session_ok_def frame_ok_def
      decoder_reset_def split: prod.splits syscall.splits)

lemma slip_decode_ok:
  assumes "bridge_ok b w" and "attached b"
  shows "holds_res (\<lambda>(b', w'). bridge_ok b' w' \<and> attached b') (slip_decode h c b w)"
proof -
  have f: "length (frame b) = MTU" "frame_len b \<le> MTU" using assms(1) by (simp_all add: bridge_ok_def frame_ok_def)
  have inj: "holds_res (\<lambda>w'. bridge_ok b w') (inject_frame h b w)"
    using f assms(1)
    by (auto simp: inject_frame_def rd_def rd_bytes_def sys_sendto_def log_event_def bridge_ok_def session_ok_def)
  consider "\<not> in_sync b" | "in_sync b" "c = END" | "in_sync b" "c \<noteq> END" by blast
  then show ?thesis
  proof cases
    case 2
    have "holds_res (\<lambda>w'. bridge_ok b w')
        (if truncated b then Inr w else if frame_len b \<noteq> 0 then inject_frame h b w else Inr w)"
      using assms inj by simp
    note inj' = this
    have eq: "slip_decode h c b w =
        rbind (if truncated b then Inr w else if frame_len b \<noteq> 0 then inject_frame h b w else Inr w)
          (\<lambda>w. Inr (b\<lparr>frame_len := 0, in_escape := False, truncated := False\<rparr>, w))"
      using 2 by (simp add: slip_decode_def)
    show ?thesis unfolding eq
      by (rule holds_res_rbindI [OF inj']) (use assms(2) in \<open>auto simp: bridge_ok_def session_ok_def frame_ok_def\<close>)
  qed (use assms f in \<open>auto simp: slip_decode_def Let_def wr_def bridge_ok_def session_ok_def frame_ok_def\<close>)
qed

lemma decode_all_ok:
  "bridge_ok b w \<Longrightarrow> attached b \<Longrightarrow> holds_res (\<lambda>(b', w'). bridge_ok b' w' \<and> attached b') (decode_all h cs b w)"
proof (induction cs arbitrary: b w)
  case (Cons c cs)
  show ?case
    unfolding decode_all.simps
    by (rule holds_res_rbindI [OF slip_decode_ok [OF Cons.prems]]) (auto intro: Cons.IH)
qed simp

lemma handle_tx_ok:
  assumes "bridge_ok b w" and "attached b"
  shows "holds_res (\<lambda>(open, b', w'). bridge_ok b' w' \<and> attached b') (handle_tx h b w)"
proof -
  obtain r w1 where rd: "sys_read h (tx_fd b) 1024 w = (r, w1)" by fastforce
  have ok: "bridge_ok b w1" using assms(1) sys_read_trace [OF rd] by (rule bridge_ok_trace)
  have "holds_res (\<lambda>(open, b', w'). bridge_ok b' w' \<and> attached b')
      (rbind (decode_all h bs b w1) (\<lambda>(b, w). Inr (True, b, w)))" for bs
    by (rule holds_res_rbindI [OF decode_all_ok [OF ok assms(2)]]) auto
  then show ?thesis
    using ok assms(2) by (auto simp: handle_tx_def rd split: syscall.splits)
qed

text \<open>What \<^verbatim>\<open>handle_tun\<close> forwards, and the buffer it hands to \<^verbatim>\<open>rx_write\<close>.\<close>

definition forwardable :: "bytes \<Rightarrow> bytes \<Rightarrow> bool" where
  "forwardable remote p \<longleftrightarrow> IP_HDR_MIN \<le> length p \<and> p ! 0 = 0x45 \<and> take 4 (drop IP_OFF_DADDR p) = remote"

lemma handle_tun_eq:
  assumes "sys_read h (tun_fd b) MTU w = (Ret p, w1)"
  shows "handle_tun h fuel remote b w =
    (if forwardable remote p \<and> attached b
     then rbind (rx_write h fuel b (slip_frame esc_byte p) w1) (\<lambda>(r, w).
       if r = WRITE_GONE then client_detach h fuel b w else Inr (b, w))
     else Inr (b, w1))"
proof -
  have len: "length p \<le> MTU" using sys_read_length [OF assms] .
  have enc: "slip_encode p (length p) (replicate 3002 0) =
      Inr (fill (replicate 3002 0) (slip_frame esc_byte p), length (slip_frame esc_byte p))"
    using slip_encode_ok [of "length p" "replicate 3002 0" p] len by simp
  have out: "rd_bytes (fill q f) 0 (length f) = Inr f" for q f :: bytes
    by (simp add: rd_bytes_def fill_def)
  have res: "rbind m (\<lambda>(r, w). case r of WRITE_OK \<Rightarrow> Inr (b, w) | WRITE_DROPPED \<Rightarrow> Inr (b, w)
      | WRITE_GONE \<Rightarrow> client_detach h fuel b w) =
      rbind m (\<lambda>(r, w). if r = WRITE_GONE then client_detach h fuel b w else Inr (b, w))" for m
    by (rule rbind_cong [OF refl]) (auto split: write_result.splits)
  show ?thesis
  proof (cases "length p < IP_HDR_MIN")
    case False
    then have "0 < length p" by linarith
    then have "rd p 0 = Inr (p ! 0)" "rd_bytes p IP_OFF_DADDR 4 = Inr (take 4 (drop IP_OFF_DADDR p))"
      using False by (simp_all add: rd_def rd_bytes_def)
    then show ?thesis
      using False by (simp add: handle_tun_def assms enc out res forwardable_def)
  qed (simp add: handle_tun_def assms forwardable_def)
qed

lemma rx_write_no_oob: "holds_res (\<lambda>_. True) (rx_write h fuel b buf w)"
proof (induction fuel arbitrary: buf w)
  case 0
  then show ?case by (cases buf) simp_all
next
  case (Suc fuel)
  then show ?case by (cases buf) (auto split: prod.splits sum.splits)
qed

lemma rx_write_ok:
  assumes "bridge_ok b w" and "attached b"
  shows "holds_res (\<lambda>(r, w'). bridge_ok b w') (rx_write h fuel b buf w)"
proof (cases "rx_write h fuel b buf w")
  case (Inl e)
  then show ?thesis using rx_write_no_oob [of h fuel b buf w] by (cases e) auto
next
  case (Inr x)
  obtain r w' where x: "x = (r, w')" by fastforce
  from rx_write_spec [of h fuel b buf w r w'] Inr obtain tr where
    "trace w' = trace w @ tr" "writes_only (rx_fd b) tr" by (auto simp: x)
  with rx_session_writes [of "rx_fd b" tr "trace w"] assms show ?thesis
    by (simp add: Inr x bridge_ok_def session_ok_def)
qed

lemma handle_tun_ok:
  assumes "bridge_ok b w"
  shows "holds_res (\<lambda>(b', w'). bridge_ok b' w' \<and> (attached b' \<longrightarrow> attached b)) (handle_tun h fuel remote b w)"
proof -
  obtain r w1 where rd: "sys_read h (tun_fd b) MTU w = (r, w1)" by fastforce
  have ok: "bridge_ok b w1" using assms sys_read_trace [OF rd] by (rule bridge_ok_trace)
  have go: "holds_res (\<lambda>(b', w'). bridge_ok b' w' \<and> (attached b' \<longrightarrow> attached b))
      (rbind (rx_write h fuel b buf w1) (\<lambda>(r, w). if r = WRITE_GONE then client_detach h fuel b w else Inr (b, w)))"
    if "attached b" for buf
    by (rule holds_res_rbindI [OF rx_write_ok [OF ok that]])
      (auto simp: that intro: holds_res_mono [OF client_detach_ok])
  show ?thesis
  proof (cases r)
    case (Ret p)
    then show ?thesis using handle_tun_eq [of h b w p w1] rd go ok by auto
  qed (use ok in \<open>auto simp: handle_tun_def rd\<close>)
qed

lemma main_step_ok:
  assumes "bridge_ok b w"
  shows "holds_res (\<lambda>(b', w'). bridge_ok b' w') (main_step h fuel b w)"
proof -
  let ?fds = "(tun_fd b, POLLIN) # (if attached b then [(tx_fd b, POLLIN), (rx_fd b, 0)] else [])"
  obtain q w1 where po: "sys_poll h ?fds (if attached b then - 1 else 200) w = (q, w1)" by fastforce
  have ok: "bridge_ok b w1" using assms sys_poll_trace [OF po] by (rule bridge_ok_trace)
  have det: "holds_res (\<lambda>(b', w'). bridge_ok b' w') (client_detach h fuel b w)" if "bridge_ok b w" for b and w :: "'a world"
    by (rule holds_res_mono [OF client_detach_ok [OF that]]) auto
  have tun: "holds_res (\<lambda>(b', w'). bridge_ok b' w')
      (if revents 0 AND POLLIN \<noteq> 0 then handle_tun h fuel REMOTE_ADDR b w1 else Inr (b, w1))" for revents :: "nat \<Rightarrow> u16"
    using ok by (auto intro: holds_res_mono [OF handle_tun_ok])
  have tx: "holds_res (\<lambda>(open, b', w'). bridge_ok b' w')
      (if attached b \<and> attached b' \<and> revents 1 AND (POLLIN OR POLLHUP) \<noteq> 0 then handle_tx h b' w' else Inr (True, b', w'))"
    if "bridge_ok b' w'" for b' w' and revents :: "nat \<Rightarrow> u16"
    using that by (auto intro: holds_res_mono [OF handle_tx_ok])
  show ?thesis
  proof (cases q)
    case (Ret x)
    obtain n revents where x: "x = (n, revents)" by fastforce
    have "holds_res (\<lambda>(b', w'). bridge_ok b' w')
      (if attached b \<and> revents 2 AND (POLLERR OR POLLHUP OR POLLNVAL) \<noteq> 0 then client_detach h fuel b' w'
       else rbind (if attached b \<and> attached b' \<and> revents 1 AND (POLLIN OR POLLHUP) \<noteq> 0 then handle_tx h b' w'
                   else Inr (True, b', w')) (\<lambda>(open, b, w).
            if \<not> open then client_detach h fuel b w
            else if \<not> attached b then client_attach h b w else Inr (b, w)))" if "bridge_ok b' w'" for b' w'
      by (intro holds_res_if det [OF that] holds_res_rbindI [OF tx [OF that]]) (auto intro: det client_attach_ok)
    then show ?thesis
      unfolding main_step_def Let_def po Ret x prod.case syscall.case
      by (intro holds_res_rbindI [OF tun]) auto
  qed (use ok in \<open>auto simp: main_step_def Let_def po\<close>)
qed

section \<open>The running program\<close>

lemma tun_open_trace: "holds_res (\<lambda>(fd, w'). trace w' = trace w) (tun_open h dev w)"
  by (auto simp: tun_open_def split: prod.splits syscall.splits)

lemma raw_open_trace: "holds_res (\<lambda>(fd, w'). trace w' = trace w) (raw_open h w)"
  by (auto simp: raw_open_def split: prod.splits syscall.splits)

lemma make_fifo_trace: "holds_res (\<lambda>w'. trace w' = trace w) (make_fifo h path w)"
  by (auto simp: make_fifo_def split: prod.splits syscall.splits)

lemma run_cmd_trace [simp]: "trace (run_cmd h cmd w) = trace w"
  by (simp add: run_cmd_def)

lemma main_setup_ok:
  assumes "trace w = []"
  shows "holds_res (\<lambda>(b', w'). bridge_ok b' w') (main_setup h fuel argv w)"
proof -
  have drained: "holds_res (\<lambda>(b', w'). bridge_ok b' w') (tx_drain h fuel b w1)"
    if "rx_session (trace w1) = Some None" "\<not> attached b" "rx_fd b = - 1" "length (frame b) = MTU" for b w1
    using that by (intro holds_res_mono [OF tx_drain_ok])
      (auto simp: bridge_ok_def session_ok_def frame_ok_def decoder_reset_def)
  show ?thesis
    unfolding main_setup_def Let_def using assms
    by (auto simp: rx_session_def split: list.splits intro!: holds_res_rbindI [OF tun_open_trace]
        holds_res_rbindI [OF make_fifo_trace] holds_res_rbindI [OF tx_open_trace]
        holds_res_rbindI [OF raw_open_trace] drained)
qed

text \<open>The states \<^verbatim>\<open>main\<close> is in at the head of its loop, on any host and with any fuel for the inner loops.\<close>

inductive bridge_reach :: "'o host \<Rightarrow> bridge \<Rightarrow> 'o world \<Rightarrow> bool" for h where
  start: "main_setup h fuel argv w0 = Inr (b, w) \<Longrightarrow> trace w0 = [] \<Longrightarrow> bridge_reach h b w"
| turn: "bridge_reach h b w \<Longrightarrow> main_step h fuel b w = Inr (b', w') \<Longrightarrow> bridge_reach h b' w'"

inductive_cases bridge_reachE: "bridge_reach h b w"

lemma bridge_reach_ok: "bridge_reach h b w \<Longrightarrow> bridge_ok b w"
proof (induction rule: bridge_reach.induct)
  case (start fuel argv w0 b w)
  then show ?case using main_setup_ok [of w0 h fuel argv] by simp
next
  case (turn b w fuel b' w')
  then show ?case using main_step_ok [of b w h fuel] by simp
qed

section \<open>Properties\<close>

text \<open>
  C31: the sessions of the bridge. In every state the program reaches, on every host: a client is
  attached exactly when the rx fifo is open; in the history of the rx fifo, it was opened only
  while it was closed, and only written to or closed while it was open, with its own descriptor,
  so nothing was ever written while no client was attached; while no client is attached the
  decoder is in its initial state, so that nothing of one session reaches the next; and the next
  turn of the loop stays inside the program's buffers.
\<close>

theorem bridge_sessions:
  assumes "bridge_reach h b w"
  shows "(attached b \<longleftrightarrow> rx_fd b \<noteq> - 1) \<and>
    rx_session (trace w) = Some (if attached b then Some (rx_fd b) else None) \<and>
    (\<not> attached b \<longrightarrow> frame_len b = 0 \<and> \<not> in_escape b \<and> \<not> in_sync b \<and> \<not> truncated b) \<and>
    length (frame b) = MTU \<and> frame_len b \<le> MTU \<and> main_step h fuel b w \<noteq> Inl OutOfBounds"
  using bridge_reach_ok [OF assms] holds_res_no_oob [OF main_step_ok [OF bridge_reach_ok [OF assms]]]
  by (simp add: bridge_ok_def session_ok_def frame_ok_def decoder_reset_def)

definition started :: "bridge \<times> bytes syscall list world" where
  "started = (\<lparr>tun_name = ''tun0'', rx_path = ''rx'', tx_path = ''tx'', tun_fd = 5, raw_fd = 4, rx_fd = - 1, tx_fd = 5,
     attached = False, frame = replicate MTU 0, frame_len = 0, in_escape = False, in_sync = False,
     truncated = False\<rparr>, \<lparr>sys = [], trace = [Opened Tx 5]\<rparr>)"

lemma started_reached: "bridge_reach script_host (fst started) (snd started)"
proof (rule bridge_reach.start)
  show "main_setup script_host 1 [''slip-tun'', ''-v'', ''tun0'', ''rx'', ''tx''] \<lparr>sys = [], trace = []\<rparr> =
      Inr (fst started, snd started)"
    by (simp add: main_setup_def tun_open_def raw_open_def make_fifo_def tx_open_def tx_drain_def run_cmd_def
        sys_open_def sys_read_def log_event_def script_host_def started_def Let_def)
qed simp

theorem bridge_sessions_witness:
  "(attached (fst started) \<longleftrightarrow> rx_fd (fst started) \<noteq> - 1) \<and>
    rx_session (trace (snd started)) = Some (if attached (fst started) then Some (rx_fd (fst started)) else None) \<and>
    \<not> attached (fst started) \<and> frame_len (fst started) = 0 \<and> \<not> in_escape (fst started) \<and>
    \<not> in_sync (fst started) \<and> \<not> truncated (fst started) \<and>
    length (frame (fst started)) = MTU \<and> frame_len (fst started) \<le> MTU \<and>
    main_step script_host 3 (fst started) (snd started) \<noteq> Inl OutOfBounds"
  using bridge_sessions [OF started_reached, of 3] by (simp add: started_def)

text \<open>
  A fifo that always takes something: the whole buffer is written, in at most as many turns as
  it has bytes.
\<close>

definition takes_bytes :: "'o host \<Rightarrow> int \<Rightarrow> bool" where
  "takes_bytes h fd \<longleftrightarrow> (\<forall>bs s. bs \<noteq> [] \<longrightarrow> (\<exists>n s'. h_write h fd bs s = (Ret n, s') \<and> 0 < n))"

lemma rx_write_takes:
  assumes "takes_bytes h (rx_fd b)"
  shows "length buf \<le> fuel \<Longrightarrow> \<exists>w'. rx_write h fuel b buf w = Inr (WRITE_OK, w')"
proof (induction fuel arbitrary: buf w)
  case (Suc fuel)
  show ?case
  proof (cases buf)
    case (Cons c cs)
    then have "buf \<noteq> []" by simp
    with assms obtain n s where n: "h_write h (rx_fd b) buf (sys w) = (Ret n, s)" "0 < n"
      unfolding takes_bytes_def by blast
    define k where "k = min n (length buf)"
    have "rx_turn h b buf w = (Inr k, log_event (Wrote (rx_fd b) (take n buf)) (w\<lparr>sys := s\<rparr>))"
      using n Cons by (simp add: rx_turn_def sys_write_def k_def)
    moreover have "length (drop k buf) \<le> fuel" using Suc.prems n(2) Cons by (auto simp: k_def)
    ultimately show ?thesis using Suc.IH [of "drop k buf"] by (simp add: Cons)
  qed simp
qed simp

lemma handle_tun_delivers:
  assumes "sys_read h (tun_fd b) MTU w = (Ret p, w1)" and "forwardable remote p" and "attached b"
    and "takes_bytes h (rx_fd b)" and "2 * length p + 2 \<le> fuel"
  shows "\<exists>w' ws. handle_tun h fuel remote b w = Inr (b, w') \<and> trace w' = trace w @ ws \<and>
    writes_only (rx_fd b) ws \<and> written ws = slip_frame esc_byte p"
proof -
  have "length (slip_frame esc_byte p) \<le> fuel" using assms(5) z80.frame_length [of p] by simp
  from rx_write_takes [OF assms(4) this] obtain w' where
    wr: "rx_write h fuel b (slip_frame esc_byte p) w1 = Inr (WRITE_OK, w')" by blast
  then show ?thesis
    using assms(2,3) sys_read_trace [OF assms(1)] rx_write_spec [OF wr]
    by (auto simp: handle_tun_eq [OF assms(1)])
qed

text \<open>
  The two reasons for which a part of a frame is not written: a poll of the fifo has timed out, or
  the fifo has no reader any more.
\<close>

definition stalls :: "'o host \<Rightarrow> int \<Rightarrow> bool" where
  "stalls h fd \<longleftrightarrow> (\<exists>s s' revents. h_poll h [(fd, POLLOUT)] 500 s = (Ret (0, revents), s'))"

definition breaks :: "'o host \<Rightarrow> int \<Rightarrow> bool" where
  "breaks h fd \<longleftrightarrow>
     (\<exists>bs s s' e. h_write h fd bs s = (Err e, s') \<and> e \<noteq> EINTR \<and> e \<noteq> EAGAIN_errno \<and> e \<noteq> EWOULDBLOCK) \<or>
     (\<exists>s s' e. h_poll h [(fd, POLLOUT)] 500 s = (Err e, s') \<and> e \<noteq> EINTR) \<or>
     (\<exists>s s' rc revents. h_poll h [(fd, POLLOUT)] 500 s = (Ret (rc, revents), s') \<and> rc \<noteq> 0 \<and>
        revents 0 AND (POLLERR OR POLLHUP OR POLLNVAL) \<noteq> 0)"

lemma rx_wait_reason:
  "rx_wait h b w = (Inl r, w') \<Longrightarrow> r = WRITE_DROPPED \<and> stalls h (rx_fd b) \<or> r = WRITE_GONE \<and> breaks h (rx_fd b)"
  unfolding rx_wait_def sys_poll_def stalls_def breaks_def
  by (auto split: prod.splits syscall.splits if_splits) blast+

lemma rx_turn_reason:
  assumes "rx_turn h b buf w = (Inl r, w')"
  shows "r = WRITE_DROPPED \<and> stalls h (rx_fd b) \<or> r = WRITE_GONE \<and> breaks h (rx_fd b)"
proof (cases "\<exists>e s. h_write h (rx_fd b) buf (sys w) = (Err e, s) \<and> e \<noteq> EINTR \<and> e \<noteq> EAGAIN_errno \<and> e \<noteq> EWOULDBLOCK")
  case True
  then have "breaks h (rx_fd b)" unfolding breaks_def by blast
  with True assms show ?thesis by (auto simp: rx_turn_def sys_write_def)
next
  case False
  with assms obtain w1 where "rx_wait h b w1 = (Inl r, w')"
    by (auto simp: rx_turn_def sys_write_def split: prod.splits syscall.splits if_splits)
  then show ?thesis by (rule rx_wait_reason)
qed

lemma rx_write_reason:
  "rx_write h fuel b buf w = Inr (r, w') \<Longrightarrow>
   r = WRITE_OK \<or> r = WRITE_DROPPED \<and> stalls h (rx_fd b) \<or> r = WRITE_GONE \<and> breaks h (rx_fd b)"
proof (induction fuel arbitrary: buf w)
  case 0
  then show ?case by (cases buf) simp_all
next
  case (Suc fuel)
  then show ?case
    by (cases buf) (auto dest: rx_turn_reason split: prod.splits sum.splits)
qed

lemma handle_tun_written:
  assumes "sys_read h (tun_fd b) MTU w = (Ret p, w1)" and "handle_tun h fuel remote b w = Inr (b', w')"
    and "forwardable remote p" and "attached b"
  shows "\<exists>ws rest tl. slip_frame esc_byte p = written ws @ rest \<and> trace w' = trace w @ ws @ tl \<and> writes_only (rx_fd b) ws \<and>
    (if attached b' then b' = b \<and> tl = [] \<and> (rest \<noteq> [] \<longrightarrow> stalls h (rx_fd b)) else breaks h (rx_fd b))"
proof -
  from assms obtain r w2 where
    wr: "rx_write h fuel b (slip_frame esc_byte p) w1 = Inr (r, w2)" and
    fin: "(if r = WRITE_GONE then client_detach h fuel b w2 else Inr (b, w2)) = Inr (b', w')"
    by (auto simp: handle_tun_eq elim!: rbind_InrE)
  from rx_write_spec [OF wr] obtain ws rest where
    ws: "trace w2 = trace w @ ws" "writes_only (rx_fd b) ws" "slip_frame esc_byte p = written ws @ rest" "r = WRITE_OK \<longleftrightarrow> rest = []"
    unfolding sys_read_trace [OF assms(1)] by blast
  note why = rx_write_reason [OF wr]
  obtain tl where "trace w' = trace w2 @ tl \<and>
      (if attached b' then b' = b \<and> tl = [] \<and> (rest \<noteq> [] \<longrightarrow> stalls h (rx_fd b)) else breaks h (rx_fd b))"
  proof (cases "r = WRITE_GONE")
    case True
    then show thesis using that client_detach_trace [OF assms(4), of w2 h fuel] fin why by auto
  next
    case False
    then have "b' = b" "w' = w2" using fin by simp_all
    then show thesis using that [of "[]"] assms(4) False ws(4) why by auto
  qed
  then have "slip_frame esc_byte p = written ws @ rest \<and> trace w' = trace w @ ws @ tl \<and> writes_only (rx_fd b) ws \<and>
      (if attached b' then b' = b \<and> tl = [] \<and> (rest \<noteq> [] \<longrightarrow> stalls h (rx_fd b)) else breaks h (rx_fd b))"
    using ws(1-3) by (cases "attached b'") simp_all
  then show ?thesis by blast
qed

text \<open>
  C32: what \<^verbatim>\<open>handle_tun\<close> lets through to the Spectrum. A packet that is too short, not IPv4 without
  options, not for the Spectrum, or that arrives while no client is attached, is read and leaves no
  trace. Any other packet is written: when the fifo takes bytes, in pieces of any size, the call
  returns with the whole frame of exactly this packet written and nothing else done. On any host,
  what the fifo took when the call returns is a beginning of this frame; a part of it is missing
  only when a poll of the fifo timed out or the client has gone, and the session is ended only when the
  host says that the client has gone, and otherwise nothing but these writes has happened.
\<close>

theorem handle_tun_forwards:
  assumes "sys_read h (tun_fd b) MTU w = (Ret p, w1)"
  shows "if 20 \<le> length p \<and> p ! 0 = 0x45 \<and> take 4 (drop 16 p) = remote \<and> attached b
    then (takes_bytes h (rx_fd b) \<and> 2 * length p + 2 \<le> fuel \<longrightarrow>
        (\<exists>w' ws. handle_tun h fuel remote b w = Inr (b, w') \<and> trace w' = trace w @ ws \<and>
          writes_only (rx_fd b) ws \<and> written ws = slip_frame esc_byte p)) \<and>
      (\<forall>b' w'. handle_tun h fuel remote b w = Inr (b', w') \<longrightarrow>
        (\<exists>ws rest tl. slip_frame esc_byte p = written ws @ rest \<and> trace w' = trace w @ ws @ tl \<and> writes_only (rx_fd b) ws \<and>
          (if attached b' then b' = b \<and> tl = [] \<and> (rest \<noteq> [] \<longrightarrow> stalls h (rx_fd b)) else breaks h (rx_fd b))))
    else handle_tun h fuel remote b w = Inr (b, w1) \<and> trace w1 = trace w"
proof (cases "forwardable remote p \<and> attached b")
  case True
  then have "\<exists>ws rest tl. slip_frame esc_byte p = written ws @ rest \<and> trace w' = trace w @ ws @ tl \<and> writes_only (rx_fd b) ws \<and>
      (if attached b' then b' = b \<and> tl = [] \<and> (rest \<noteq> [] \<longrightarrow> stalls h (rx_fd b)) else breaks h (rx_fd b))"
    if "handle_tun h fuel remote b w = Inr (b', w')" for b' w'
    using handle_tun_written [OF assms that] by blast
  then show ?thesis
    using True handle_tun_delivers [OF assms] by (simp add: forwardable_def)
next
  case False
  then have "\<not> (20 \<le> length p \<and> p ! 0 = 0x45 \<and> take 4 (drop 16 p) = remote \<and> attached b)"
    by (auto simp: forwardable_def)
  moreover have "handle_tun h fuel remote b w = Inr (b, w1)" using False by (auto simp: handle_tun_eq [OF assms])
  ultimately show ?thesis using sys_read_trace [OF assms] by (simp only: if_False)
qed

text \<open>A world in which the tun device has one packet for the Spectrum.\<close>

definition tun_packet :: bytes where
  "tun_packet = 0x45 # replicate 15 0 @ [192, 0, 2, 2]"

lemma tun_packet_read:
  "sys_read script_host (tun_fd demo_bridge) MTU (demo_world [Ret tun_packet]) = (Ret tun_packet, demo_world [])"
  by (simp add: sys_read_def script_host_def demo_world_def tun_packet_def)

theorem handle_tun_forwards_witness:
  "\<exists>w' ws. handle_tun script_host 99 REMOTE_ADDR demo_bridge (demo_world [Ret tun_packet]) = Inr (demo_bridge, w') \<and>
    trace w' = trace (demo_world [Ret tun_packet]) @ ws \<and> writes_only (rx_fd demo_bridge) ws \<and> written ws = slip_frame esc_byte tun_packet"
proof -
  have "takes_bytes script_host (rx_fd demo_bridge)" by (auto simp: takes_bytes_def script_host_def)
  moreover have "20 \<le> length tun_packet \<and> tun_packet ! 0 = 0x45 \<and> take 4 (drop 16 tun_packet) = REMOTE_ADDR \<and> attached demo_bridge"
    "2 * length tun_packet + 2 \<le> 99" by (simp_all add: tun_packet_def demo_bridge_def)
  ultimately show ?thesis using handle_tun_forwards [OF tun_packet_read, of REMOTE_ADDR 99] by (simp only: if_True simp_thms)
qed

text \<open>A fifo that takes a part of a frame and then stays full.\<close>

lemma handle_tun_dropped:
  assumes "sys_read h (tun_fd b) MTU w = (Ret p, w1)" and "forwardable remote p" and "attached b"
    and "h_write h (rx_fd b) (slip_frame esc_byte p) (sys w1) = (Ret k, s1)"
    and "0 < k" and "k < length (slip_frame esc_byte p)"
    and "h_write h (rx_fd b) (drop k (slip_frame esc_byte p)) s1 = (Err EAGAIN_errno, s2)"
    and "h_poll h [(rx_fd b, POLLOUT)] 500 s2 = (Ret (0, revents), s3)" and "1 < fuel"
  shows "\<exists>w'. handle_tun h fuel remote b w = Inr (b, w') \<and>
    trace w' = trace w @ [Wrote (rx_fd b) (take k (slip_frame esc_byte p))]"
proof -
  obtain f where f: "fuel = Suc (Suc f)" using assms(9) by (cases fuel; cases "fuel - 1") auto
  define fr where "fr = slip_frame esc_byte p"
  have ne: "fr \<noteq> []" "drop k fr \<noteq> []" using assms(6) by (auto simp: fr_def)
  have step: "rx_write h (Suc g) b buf v = (case rx_turn h b buf v of
      (Inl r, w) \<Rightarrow> Inr (r, w) | (Inr n, w) \<Rightarrow> rx_write h g b (drop n buf) w)" if "buf \<noteq> []" for g buf v
    using that by (cases buf) auto
  have "rx_turn h b fr w1 = (Inr k, log_event (Wrote (rx_fd b) (take k fr)) (w1\<lparr>sys := s1\<rparr>))"
    using assms(4-6) by (simp add: rx_turn_def sys_write_def fr_def min_def)
  moreover have "rx_turn h b (drop k fr) (log_event (Wrote (rx_fd b) (take k fr)) (w1\<lparr>sys := s1\<rparr>)) =
      (Inl WRITE_DROPPED, log_event (Wrote (rx_fd b) (take k fr)) (w1\<lparr>sys := s3\<rparr>))"
    using assms(7,8) by (simp add: rx_turn_def rx_wait_def sys_write_def sys_poll_def log_event_def fr_def)
  ultimately have "rx_write h fuel b fr w1 =
      Inr (WRITE_DROPPED, log_event (Wrote (rx_fd b) (take k fr)) (w1\<lparr>sys := s3\<rparr>))"
    by (simp add: f step [OF ne(1)] step [OF ne(2)])
  then show ?thesis
    using assms(2,3) sys_read_trace [OF assms(1)]
    by (simp add: handle_tun_eq [OF assms(1)] fr_def log_event_def)
qed

end
