(* ===== verification/Console.thy ===== *)
theory Console
  imports Z80_Prelude
begin

text \<open>
  The screen of the applications. The first part is the text console as the host tests of the
  repository emulate it (\<^verbatim>\<open>test/test_screen.c\<close>): 64 columns, 24 rows, a wrap at the right edge and
  a lazy scroll. The second part is the output that \<^verbatim>\<open>tcp_chat.c\<close> and \<^verbatim>\<open>irc.c\<close> both produce: the
  position code, and the padding of a log line to whole rows. The third part is the interface
  \<open>log_screen\<close>, in which the effect of one log line on the screen is proved once for both
  applications.
\<close>

section \<open>C strings\<close>

text \<open>The string at offset \<open>i\<close> of an array: the bytes up to the first zero, which has to be in the array.\<close>

definition c_str :: "bytes \<Rightarrow> nat \<Rightarrow> bytes res" where
  "c_str m i = (if 0 \<in> set (drop i m) then Inr (takeWhile (\<lambda>c. c \<noteq> 0) (drop i m)) else Inl OutOfBounds)"

lemma c_str_append: "0 \<notin> set s \<Longrightarrow> c_str (s @ 0 # rest) 0 = Inr s"
  by (simp add: c_str_def takeWhile_append)

lemma c_str_at: "i \<le> length m \<Longrightarrow> drop i m = s @ 0 # rest \<Longrightarrow> 0 \<notin> set s \<Longrightarrow> c_str m i = Inr s"
  by (simp add: c_str_def takeWhile_append)

section \<open>The console\<close>

abbreviation SCREEN_COLS :: nat where "SCREEN_COLS \<equiv> 64"
abbreviation SCREEN_ROWS :: nat where "SCREEN_ROWS \<equiv> 24"
abbreviation INPUT_ROW :: nat where "INPUT_ROW \<equiv> 23"

record console =
  screen :: "bytes list"
  cx :: nat
  cy :: nat
  params_left :: nat
  param0 :: u8

abbreviation blank_row :: bytes where "blank_row \<equiv> replicate 64 32"

definition con_scroll :: "bytes list \<Rightarrow> bytes list" where
  "con_scroll rows = tl rows @ [blank_row]"

definition con_cls :: "console \<Rightarrow> console" where
  "con_cls con = con\<lparr>screen := replicate SCREEN_ROWS blank_row, cx := 0, cy := 0\<rparr>"

text \<open>The lazy scroll: while the print position is below the last row.\<close>

fun lazy_scroll :: "bytes list \<Rightarrow> nat \<Rightarrow> bytes list \<times> nat" where
  "lazy_scroll rows y =
     (if y > SCREEN_ROWS - 1 then lazy_scroll (con_scroll rows) (y - 1) else (rows, y))"

declare lazy_scroll.simps [simp del]

definition con_printable :: "u8 \<Rightarrow> console \<Rightarrow> console" where
  "con_printable c con =
     (let (rows, y) = lazy_scroll (screen con) (cy con);
          con = con\<lparr>screen := rows[y := (rows ! y)[cx con := c]], cy := y, cx := cx con + 1\<rparr>
      in if cx con = SCREEN_COLS then con\<lparr>cx := 0, cy := y + 1\<rparr> else con)"

definition con_goto :: "u8 \<Rightarrow> u8 \<Rightarrow> console \<Rightarrow> console" where
  "con_goto py px con =
     (let y = int (unat py) - 32; x = int (unat px) - 32 in
      if 0 \<le> x \<and> x < int SCREEN_COLS \<and> 0 \<le> y \<and> y < int SCREEN_ROWS
      then con\<lparr>cx := nat x, cy := nat y\<rparr> else con)"

definition con_putchar :: "u8 \<Rightarrow> console \<Rightarrow> console" where
  "con_putchar c con =
     (if params_left con \<noteq> 0 then
        let con = con\<lparr>params_left := params_left con - 1\<rparr> in
        if params_left con \<noteq> 0 then con\<lparr>param0 := c\<rparr> else con_goto (param0 con) c con
      else if c = 22 then con\<lparr>params_left := 2\<rparr>
      else if c = 12 then con_cls con
      else if c = 13 then con\<lparr>cx := 0\<rparr>
      else if c = 8 then
        (if cx con \<noteq> 0 then con\<lparr>cx := cx con - 1\<rparr>
         else con\<lparr>cx := SCREEN_COLS - 1, cy := cy con - 1\<rparr>)
      else if c = 10 then
        (if cy con \<ge> SCREEN_ROWS - 1 then con\<lparr>screen := con_scroll (screen con), cy := SCREEN_ROWS - 1, cx := 0\<rparr>
         else con\<lparr>cy := cy con + 1, cx := 0\<rparr>)
      else con_printable c con)"

definition con_puts :: "bytes \<Rightarrow> console \<Rightarrow> console" where
  "con_puts cs con = fold con_putchar cs con"

lemma con_puts_simps [simp]:
  "con_puts [] con = con" "con_puts (c # cs) con = con_puts cs (con_putchar c con)"
  "con_puts (xs @ ys) con = con_puts ys (con_puts xs con)"
  by (simp_all add: con_puts_def)

section \<open>What the applications print\<close>

text \<open>\<^verbatim>\<open>at\<close>: the output of one call.\<close>

definition at :: "nat \<Rightarrow> nat \<Rightarrow> bytes" where
  "at row col = [22, word_of_nat (row + 32), word_of_nat (col + 32)]"

text \<open>The loop that pads a log line of which \<open>n\<close> characters have been printed.\<close>

function pad_loop :: "nat \<Rightarrow> bytes" where
  "pad_loop n = (if n = 0 \<or> n mod SCREEN_COLS \<noteq> 0 then 32 # pad_loop (n + 1) else [])"
  by pat_completeness auto
termination
proof (relation "measure (\<lambda>n. if n = 0 then 64 else (64 - n mod 64) mod 64)")
  fix n :: nat
  assume "n = 0 \<or> n mod SCREEN_COLS \<noteq> 0"
  then show "(n + 1, n) \<in> measure (\<lambda>n. if n = 0 then 64 else (64 - n mod 64) mod 64)"
    by (auto simp: mod_Suc)
qed simp

declare pad_loop.simps [simp del]

text \<open>How many spaces it prints.\<close>

definition pad_count :: "nat \<Rightarrow> nat" where
  "pad_count n = (if n = 0 then 64 else (64 - n mod 64) mod 64)"

lemma pad_loop_eq: "pad_loop n = replicate (pad_count n) 32"
proof (induction n rule: pad_loop.induct)
  case (1 n)
  show ?case
  proof (cases "n = 0 \<or> n mod 64 \<noteq> 0")
    case True
    then have "pad_count n = Suc (pad_count (n + 1))"
      by (auto simp: pad_count_def mod_Suc)
    then show ?thesis
      using True 1 by (simp add: pad_loop.simps [of n])
  next
    case False
    then show ?thesis by (simp add: pad_loop.simps [of n] pad_count_def)
  qed
qed

lemma pad_count_rows: "(n + pad_count n) mod 64 = 0" "0 < n + pad_count n"
proof -
  show "0 < n + pad_count n" by (simp add: pad_count_def)
  show "(n + pad_count n) mod 64 = 0"
  proof (cases "n = 0")
    case False
    have "n + (64 - n mod 64) = 64 * (n div 64 + 1)"
    proof -
      define q r where "q = n div 64" and "r = n mod 64"
      have "n = 64 * q + r" "r < 64" by (simp_all add: q_def r_def)
      then show ?thesis unfolding q_def [symmetric] r_def [symmetric] by simp
    qed
    then have "(n + (64 - n mod 64)) mod 64 = 0" by simp
    then show ?thesis using False by (simp add: pad_count_def mod_add_right_eq)
  qed (simp add: pad_count_def)
qed

text \<open>A text as rows of the screen.\<close>

function rows_of :: "bytes \<Rightarrow> bytes list" where
  "rows_of s = (if s = [] then [] else take 64 s # rows_of (drop 64 s))"
  by pat_completeness auto
termination by (relation "measure length") auto

declare rows_of.simps [simp del]

lemma rows_of_Nil [simp]: "rows_of [] = []"
  by (simp add: rows_of.simps)

lemma rows_of_append: "length r = 64 \<Longrightarrow> rows_of (r @ s) = r # rows_of s"
  by (subst rows_of.simps) auto

definition log_rows :: "bytes \<Rightarrow> bytes list" where
  "log_rows s = rows_of (s @ replicate (pad_count (length s)) 32)"

lemma log_rows_short: "s \<noteq> [] \<Longrightarrow> length s \<le> 64 \<Longrightarrow> log_rows s = [s @ replicate (64 - length s) 32]"
proof -
  assume "s \<noteq> []" "length s \<le> 64"
  then have "pad_count (length s) = 64 - length s"
    by (cases "length s = 64") (auto simp: pad_count_def mod_less)
  with \<open>length s \<le> 64\<close> rows_of_append [of "s @ replicate (64 - length s) 32" "[]"] show ?thesis
    by (simp add: log_rows_def)
qed

section \<open>The effect on the screen\<close>

text \<open>A console that is not in the middle of a position code.\<close>

definition con_ok :: "console \<Rightarrow> bool" where
  "con_ok con \<longleftrightarrow> length (screen con) = 24 \<and> (\<forall>r \<in> set (screen con). length r = 64) \<and> params_left con = 0"

definition plain :: "bytes \<Rightarrow> bool" where
  "plain s \<longleftrightarrow> (\<forall>c \<in> set s. 32 \<le> c \<and> c \<le> 126)"

lemma plain_simps [simp]:
  "plain []" "plain (c # s) \<longleftrightarrow> 32 \<le> c \<and> c \<le> 126 \<and> plain s" "plain (s @ t) \<longleftrightarrow> plain s \<and> plain t"
  "plain (replicate n 32)"
  by (auto simp: plain_def)

lemma con_putchar_plain:
  "params_left con = 0 \<Longrightarrow> 32 \<le> c \<Longrightarrow> c \<le> 126 \<Longrightarrow> con_putchar c con = con_printable c con"
  by (auto simp: con_putchar_def word_le_nat_alt)

lemma lazy_scroll_23 [simp]: "lazy_scroll rows 23 = (rows, 23)" "lazy_scroll rows 24 = (con_scroll rows, 23)"
  by (simp_all add: lazy_scroll.simps [of rows] lazy_scroll.simps [of "con_scroll rows"])

lemma con_puts_at: "params_left con = 0 \<Longrightarrow> con_puts (at INPUT_ROW 0) con = con\<lparr>cx := 0, cy := 23, param0 := 55\<rparr>"
  by (simp add: at_def con_putchar_def con_goto_def Let_def)

text \<open>Printing inside one row, the last one.\<close>

lemma con_puts_part:
  assumes "plain cs" and "con_ok con" and "cy con = 23" and "cx con + length cs < 64"
  shows "con_puts cs con =
    con\<lparr>screen := (screen con)[23 := take (cx con) (screen con ! 23) @ cs @ drop (cx con + length cs) (screen con ! 23)],
      cx := cx con + length cs\<rparr>"
  using assms
proof (induction cs arbitrary: con)
  case Nil
  then show ?case by simp
next
  case (Cons c cs)
  let ?r = "screen con ! 23"
  have len: "length (screen con) = 24" "length ?r = 64" using Cons.prems(2) by (auto simp: con_ok_def)
  let ?con = "con\<lparr>screen := (screen con)[23 := ?r[cx con := c]], cx := cx con + 1\<rparr>"
  have "con_putchar c con = ?con"
    using Cons.prems by (subst con_putchar_plain) (auto simp: con_ok_def con_printable_def)
  moreover have "con_ok ?con"
    using Cons.prems(2) len set_update_subset_insert [of "screen con" 23 "?r[cx con := c]"] by (auto simp: con_ok_def)
  ultimately show ?case
    using Cons.prems Cons.IH [of ?con] len
    by (simp add: upd_conv_take_nth_drop [of "cx con" ?r] add.commute [of "length cs"])
qed

lemma con_puts_row:
  assumes "plain r" and "length r = 64" and "con_ok con" and "cx con = 0" and "cy con = 23"
  shows "con_puts r con = con\<lparr>screen := (screen con)[23 := r], cx := 0, cy := 24\<rparr>"
proof -
  obtain cs c where r: "r = cs @ [c]" "length cs = 63"
    using assms(2) by (cases r rule: rev_cases) auto
  have len: "length (screen con) = 24" "length (screen con ! 23) = 64" using assms(3) by (auto simp: con_ok_def)
  have "con_puts cs con = con\<lparr>screen := (screen con)[23 := cs @ drop 63 (screen con ! 23)], cx := 63\<rparr>"
    using assms r con_puts_part [of cs con] by simp
  moreover have "length (drop 63 (screen con ! 23)) = Suc 0" using len by simp
  then obtain x where "drop 63 (screen con ! 23) = [x]" by (auto simp only: length_Suc_conv length_0_conv)
  ultimately show ?thesis
    using assms r len by (simp add: con_putchar_plain con_ok_def con_printable_def list_update_append)
qed

lemma con_ok_scroll: "con_ok con \<Longrightarrow> length (con_scroll (screen con)) = 24 \<and> (\<forall>r \<in> set (con_scroll (screen con)). length r = 64)"
  by (cases "screen con") (auto simp: con_ok_def con_scroll_def)

lemma con_puts_below:
  assumes "plain r" and "length r = 64" and "con_ok con" and "cx con = 0" and "cy con = 24"
  shows "con_puts r con = con\<lparr>screen := tl (screen con) @ [r], cx := 0, cy := 24\<rparr>"
proof -
  let ?con = "con\<lparr>screen := con_scroll (screen con), cy := 23\<rparr>"
  obtain c cs where r: "r = c # cs" using assms(2) by (cases r) auto
  have "con_putchar c con = con_putchar c ?con"
    using assms r by (simp add: con_putchar_plain con_ok_def con_printable_def)
  moreover have "con_puts r ?con = ?con\<lparr>screen := (con_scroll (screen con))[23 := r], cx := 0, cy := 24\<rparr>"
    using assms con_ok_scroll [OF assms(3)] con_puts_row [of r ?con] by (simp add: con_ok_def)
  moreover have "(con_scroll (screen con))[23 := r] = tl (screen con) @ [r]"
    using assms(3) by (cases "screen con") (auto simp: con_ok_def con_scroll_def list_update_append)
  ultimately show ?thesis by (simp add: r)
qed

text \<open>Whole rows from below the screen: each pushes the screen up by one.\<close>

lemma con_puts_rows:
  assumes "\<forall>r \<in> set rs. plain r \<and> length r = 64" and "con_ok con" and "cx con = 0" and "cy con = 24"
  shows "con_puts (concat rs) con = con\<lparr>screen := drop (length rs) (screen con @ rs)\<rparr>"
  using assms
proof (induction rs arbitrary: con)
  case (Cons r rs)
  obtain x xs where x: "screen con = x # xs" using Cons.prems(2) by (cases "screen con") (auto simp: con_ok_def)
  have "con_puts r con = con\<lparr>screen := xs @ [r]\<rparr>"
    using Cons.prems con_puts_below [of r con] by (simp add: x)
  moreover have "con_ok (con\<lparr>screen := xs @ [r]\<rparr>)"
    using Cons.prems(1,2) by (auto simp: con_ok_def x)
  ultimately show ?case
    using Cons.prems Cons.IH [of "con\<lparr>screen := xs @ [r]\<rparr>"] by (simp add: x)
qed simp

lemma concat_rows_of: "concat (rows_of s) = s"
  by (induction s rule: rows_of.induct) (subst rows_of.simps, auto)

lemma rows_of_length:
  "length s mod 64 = 0 \<Longrightarrow> r \<in> set (rows_of s) \<Longrightarrow> length r = 64"
proof (induction s rule: rows_of.induct)
  case (1 s)
  show ?case
  proof (cases "s = []")
    case False
    have "64 \<le> length s"
    proof (rule ccontr)
      assume "\<not> 64 \<le> length s"
      then show False using 1(2) False by simp
    qed
    then have "length (drop 64 s) mod 64 = 0" using 1(2) by (simp add: le_mod_geq)
    then show ?thesis
      using 1 False \<open>64 \<le> length s\<close> by (subst (asm) (2) rows_of.simps) auto
  qed (use 1(3) in simp)
qed

lemma log_rows_ok:
  assumes "plain s"
  shows "\<forall>r \<in> set (log_rows s). plain r \<and> length r = 64" and "log_rows s \<noteq> []"
    and "concat (log_rows s) = s @ pad_loop (length s)"
proof -
  let ?p = "s @ replicate (pad_count (length s)) 32"
  show c: "concat (log_rows s) = s @ pad_loop (length s)"
    by (simp add: log_rows_def concat_rows_of pad_loop_eq)
  have "plain r" if "r \<in> set (log_rows s)" for r
  proof -
    have "set r \<subseteq> set (concat (log_rows s))" using that by auto
    moreover have "plain (concat (log_rows s))" using assms by (simp add: c pad_loop_eq)
    ultimately show ?thesis by (auto simp: plain_def)
  qed
  moreover have "length r = 64" if "r \<in> set (log_rows s)" for r
    using that pad_count_rows(1) [of "length s"] unfolding log_rows_def by (intro rows_of_length [of ?p]) auto
  ultimately show "\<forall>r \<in> set (log_rows s). plain r \<and> length r = 64" by blast
  show "log_rows s \<noteq> []"
    using pad_count_rows(2) [of "length s"] c by (auto simp: pad_loop_eq)
qed

section \<open>The log\<close>

text \<open>
  \<open>displays con log row\<close>: the screen shows the end of the log on its upper 23 rows, below blank rows
  while the log is short, and \<open>row\<close> on its last.
\<close>

definition displays :: "console \<Rightarrow> bytes list \<Rightarrow> bytes \<Rightarrow> bool" where
  "displays con log row \<longleftrightarrow> con_ok con \<and>
     screen con = drop (length log) (replicate 23 blank_row @ log) @ [row]"

text \<open>
  What both applications print to add a text to the log: they go to the input row, print the
  text, pad it to whole rows, print a newline, and draw the input line again.
\<close>

definition input_output :: "bytes \<Rightarrow> bytes" where
  "input_output row = at INPUT_ROW 0 @ row @ at INPUT_ROW 0"

definition log_output :: "bytes \<Rightarrow> bytes \<Rightarrow> bytes" where
  "log_output text row = at INPUT_ROW 0 @ text @ pad_loop (length text) @ [10] @ input_output row"

lemma input_output_screen:
  assumes "con_ok con" and "plain row" and "length row = 64"
  shows "con_puts (input_output row) con = con\<lparr>screen := butlast (screen con) @ [row], cx := 0, cy := 23, param0 := 55\<rparr>"
proof -
  let ?con = "con\<lparr>cx := 0, cy := 23, param0 := 55\<rparr>"
  have "con_ok ?con" "con_puts (at INPUT_ROW 0) con = ?con"
    using assms(1) by (simp_all add: con_puts_at con_ok_def)
  moreover have "(screen con)[23 := row] = butlast (screen con) @ [row]"
    using assms(1) by (cases "screen con" rule: rev_cases) (auto simp: con_ok_def list_update_append)
  ultimately show ?thesis
    using assms con_puts_row [of row ?con] by (simp add: input_output_def con_puts_at con_ok_def)
qed

lemma log_output_screen:
  assumes "con_ok con" and "plain text" and "plain row" and "length row = 64"
  shows "con_puts (log_output text row) con =
    con\<lparr>screen := drop (length (log_rows text)) (butlast (screen con) @ log_rows text) @ [row],
      cx := 0, cy := 23, param0 := 55\<rparr>"
proof -
  obtain r rs where rows: "log_rows text = r # rs" using log_rows_ok(2) [OF assms(2)] by (cases "log_rows text") auto
  have r: "plain r" "length r = 64" and rs: "\<forall>r \<in> set rs. plain r \<and> length r = 64"
    using log_rows_ok(1) [OF assms(2)] by (simp_all add: rows)
  obtain ys y where y: "screen con = ys @ [y]" "length ys = 23" "\<forall>r \<in> set ys. length r = 64"
    using assms(1) by (cases "screen con" rule: rev_cases) (auto simp: con_ok_def)
  let ?c0 = "con\<lparr>cx := 0, cy := 23, param0 := 55\<rparr>"
  let ?c1 = "?c0\<lparr>screen := ys @ [r], cx := 0, cy := 24\<rparr>"
  let ?c2 = "?c1\<lparr>screen := drop (length rs) (ys @ [r] @ rs)\<rparr>"
  have "con_puts (at INPUT_ROW 0) con = ?c0" "con_ok ?c0" "con_ok ?c1"
    using assms(1) y r(2) by (auto simp: con_puts_at con_ok_def)
  moreover have "con_puts r ?c0 = ?c1"
    using con_puts_row [OF r, of ?c0] \<open>con_ok ?c0\<close> y by (simp add: list_update_append)
  moreover have "con_puts (concat rs) ?c1 = ?c2"
    using con_puts_rows [OF rs \<open>con_ok ?c1\<close>] by simp
  moreover have "text @ pad_loop (length text) = r @ concat rs"
    using log_rows_ok(3) [OF assms(2)] by (simp add: rows)
  ultimately have printed: "con_puts (text @ pad_loop (length text)) (con_puts (at INPUT_ROW 0) con) = ?c2"
    by (simp only: con_puts_simps(3))
  have prog: "con_puts (log_output text row) con =
      con_puts (input_output row) (con_putchar 10 (con_puts (text @ pad_loop (length text)) (con_puts (at INPUT_ROW 0) con)))"
    by (simp add: log_output_def)
  have "con_putchar 10 ?c2 = ?c2\<lparr>screen := drop (Suc (length rs)) (ys @ r # rs) @ [blank_row], cx := 0, cy := 23\<rparr>"
  proof -
    have "tl (drop (length rs) (ys @ r # rs)) = drop (Suc (length rs)) (ys @ r # rs)" by (simp only: drop_Suc tl_drop)
    then show ?thesis
      using assms(1) by (cases con) (simp add: con_putchar_def con_ok_def con_scroll_def del: drop_append)
  qed
  moreover have "length (drop (Suc (length rs)) (ys @ r # rs)) = 23" using y by simp
  then have "con_ok (?c2\<lparr>screen := drop (Suc (length rs)) (ys @ r # rs) @ [blank_row], cx := 0, cy := 23\<rparr>)"
    using assms(1) y r rs by (auto simp: con_ok_def dest!: in_set_dropD)
  ultimately show ?thesis
    using assms(3,4) y by (simp only: prog printed) (simp add: input_output_screen rows butlast_append)
qed

text \<open>
  Output that consists of whole log lines and input rows only. Whatever the network brings, this
  is all the console ever sees, so no received byte can act as a control code.
\<close>

inductive drawn :: "bytes \<Rightarrow> bool" where
  drawn_Nil: "drawn []"
| drawn_log: "drawn xs \<Longrightarrow> plain text \<Longrightarrow> plain row \<Longrightarrow> length row = 64 \<Longrightarrow> drawn (xs @ log_output text row)"
| drawn_input: "drawn xs \<Longrightarrow> plain row \<Longrightarrow> length row = 64 \<Longrightarrow> drawn (xs @ input_output row)"

lemma drawn_append: "drawn ys \<Longrightarrow> drawn xs \<Longrightarrow> drawn (xs @ ys)"
  by (induction rule: drawn.induct)
    (auto simp flip: append_assoc intro: drawn_log drawn_input)

lemma con_ok_input: "con_ok con \<Longrightarrow> plain row \<Longrightarrow> length row = 64 \<Longrightarrow> con_ok (con_puts (input_output row) con)"
  by (auto simp: input_output_screen con_ok_def dest: in_set_butlastD)

lemma con_ok_log:
  assumes "con_ok con" and "plain text" and "plain row" and "length row = 64"
  shows "con_ok (con_puts (log_output text row) con)"
proof -
  have "length (butlast (screen con)) = 23" "\<forall>r \<in> set (butlast (screen con) @ log_rows text). length r = 64"
    using assms(1) log_rows_ok(1) [OF assms(2)] by (auto simp: con_ok_def dest: in_set_butlastD)
  then have "length (drop (length (log_rows text)) (butlast (screen con) @ log_rows text)) = 23"
    "\<forall>r \<in> set (drop (length (log_rows text)) (butlast (screen con) @ log_rows text)). length r = 64"
    by (simp, meson in_set_dropD)
  then show ?thesis
    using assms by (simp add: log_output_screen) (auto simp: con_ok_def)
qed

lemma con_ok_drawn: "drawn xs \<Longrightarrow> con_ok con \<Longrightarrow> con_ok (con_puts xs con)"
  by (induction rule: drawn.induct) (auto simp: con_ok_log con_ok_input)

lemma input_displays:
  assumes "displays con log old" and "plain row" and "length row = 64"
  shows "displays (con_puts (input_output row) con) log row"
  using assms con_ok_input [of con row] by (simp add: displays_def input_output_screen butlast_append)

text \<open>A fresh screen for concrete runs.\<close>

definition fresh_console :: console where
  "fresh_console = \<lparr>screen = replicate 24 blank_row, cx = 0, cy = 23, params_left = 0, param0 = 0\<rparr>"

text \<open>The interface between an application and the screen.\<close>

locale log_screen =
  fixes ok :: "'s \<Rightarrow> bool"
    and input_row :: "'s \<Rightarrow> bytes"
    and log_out :: "bytes \<Rightarrow> 's \<Rightarrow> bytes"
  assumes input_row_ok: "ok s \<Longrightarrow> plain (input_row s) \<and> length (input_row s) = 64"
    and log_out_eq: "ok s \<Longrightarrow> plain text \<Longrightarrow> log_out text s = log_output text (input_row s)"
begin

lemma log_displays:
  assumes "displays con log row" and "ok s" and "plain text"
  shows "displays (con_puts (log_out text s) con) (log @ log_rows text) (input_row s)"
proof -
  define ls where "ls = drop (length log) (replicate 23 blank_row @ log)"
  let ?k = "length (log_rows text)"
  have con: "con_ok con" "screen con = ls @ [row]" using assms(1) by (simp_all add: displays_def ls_def)
  have "ls @ log_rows text = drop (length log) ((replicate 23 blank_row @ log) @ log_rows text)"
    by (simp add: ls_def)
  then have eq: "drop (length (log @ log_rows text)) (replicate 23 blank_row @ log @ log_rows text) =
      drop ?k (ls @ log_rows text)"
    by (simp only: drop_drop length_append append_assoc add.commute)
  have "length ls = 23" "\<forall>r \<in> set (ls @ log_rows text). length r = 64"
    using con log_rows_ok(1) [OF assms(3)] by (auto simp: con_ok_def)
  then have "length (drop ?k (ls @ log_rows text)) = 23" "\<forall>r \<in> set (drop ?k (ls @ log_rows text)). length r = 64"
    by (simp, meson in_set_dropD)
  then show ?thesis
    using con input_row_ok [OF assms(2)] assms(3) log_out_eq [OF assms(2,3)]
    unfolding displays_def eq by (simp add: log_output_screen) (auto simp: con_ok_def)
qed

lemma logs_display:
  "displays con log (input_row s) \<Longrightarrow> ok s \<Longrightarrow> \<forall>t \<in> set texts. plain t \<Longrightarrow>
   displays (con_puts (concat (map (\<lambda>t. log_out t s) texts)) con) (log @ concat (map log_rows texts)) (input_row s)"
proof (induction texts arbitrary: con log)
  case (Cons t texts)
  from Cons.IH [OF log_displays [OF Cons.prems(1,2)]] Cons.prems show ?case by simp
qed simp

end

end
