(* ===== verification/Terminal.thy ===== *)
theory Terminal
  imports Console Tcp_Connect
begin

text \<open>
  What \<^verbatim>\<open>tcp_chat.c\<close> and \<^verbatim>\<open>irc.c\<close> have in common: the variables of the connection and of the line
  being typed, the row that shows this line, and the questions asked before connecting, read
  from the keyboard. Output to the screen is the list of the bytes given to \<^verbatim>\<open>putchar\<close>; the
  keyboard of the machine is a parameter, the record \<open>keyboard\<close>.
\<close>

section \<open>State\<close>

text \<open>Text as bytes.\<close>

definition asc :: "string \<Rightarrow> bytes" where
  "asc s = map of_char s"

record terminal =
  tcp :: tcp_context
  input :: bytes
  input_len :: nat
  window_open :: bool
  outp :: bytes

definition putcs :: "bytes \<Rightarrow> 'a terminal_scheme \<Rightarrow> 'a terminal_scheme" where
  "putcs cs t = t\<lparr>outp := outp t @ cs\<rparr>"

abbreviation BUF_SIZE :: u16 where "BUF_SIZE \<equiv> 552"
abbreviation INPUT_VIEW :: nat where "INPUT_VIEW \<equiv> 62"
abbreviation POLL_TICKS :: u16 where "POLL_TICKS \<equiv> 3"
abbreviation RX_WINDOW :: u16 where "RX_WINDOW \<equiv> 256"

abbreviation KEY_LEFT :: u16 where "KEY_LEFT \<equiv> 8"
abbreviation KEY_ENTER :: u16 where "KEY_ENTER \<equiv> 13"
abbreviation KEY_DELETE :: u16 where "KEY_DELETE \<equiv> 12"
abbreviation KEY_CTRL_DEL :: u16 where "KEY_CTRL_DEL \<equiv> 127"
abbreviation KEY_QUIT :: u16 where "KEY_QUIT \<equiv> 3"

text \<open>The context both programs start with, the static variable \<^verbatim>\<open>tcp\<close> over the static array \<^verbatim>\<open>tcp_buf\<close>.\<close>

definition tcp_static :: tcp_context where
  "tcp_static = \<lparr>tcp_ip = \<lparr>saddr = 0, daddr = 0, pkt_size = BUF_SIZE, ip_id = 0, pkt = replicate 552 0\<rparr>,
     dst_port = 0, src_port = 0, tcp_seq = 0, tcp_ack = 0, tcp_ths = 0\<rparr>"

section \<open>The input row\<close>

text \<open>The array \<^verbatim>\<open>row\<close> of \<^verbatim>\<open>draw_input\<close>: the prompt, the end of the typed text, the cursor, spaces, a zero.\<close>

definition draw_row :: "bytes \<Rightarrow> nat \<Rightarrow> bytes res" where
  "draw_row inp len =
     (let (start, n) = (if len > INPUT_VIEW then (len - INPUT_VIEW, INPUT_VIEW) else (0, len)) in
      rbind (wr (replicate (SCREEN_COLS + 1) 0) 0 62) (\<lambda>row.
      rbind (rd_bytes inp start n) (\<lambda>cs.
      rbind (memcpy row 1 cs) (\<lambda>row.
      rbind (wr row (1 + n) 95) (\<lambda>row.
      rbind (memset row (n + 2) 32 (SCREEN_COLS - (n + 2))) (\<lambda>row.
      wr row SCREEN_COLS 0))))))"

text \<open>What the row shows: the prompt, at most the last 62 characters, the cursor.\<close>

definition input_text :: "bytes \<Rightarrow> bytes" where
  "input_text typed =
     (let v = drop (length typed - INPUT_VIEW) typed in 62 # v @ [95] @ replicate (62 - length v) 32)"

lemma length_input_text [simp]: "length (input_text typed) = 64"
  by (simp add: input_text_def Let_def)

lemma plain_input_text: "plain typed \<Longrightarrow> plain (input_text typed)"
  by (auto simp: input_text_def Let_def plain_def dest: in_set_dropD)

text \<open>The text typed so far.\<close>

definition typed :: "'a terminal_scheme \<Rightarrow> bytes" where
  "typed t = take (input_len t) (input t)"

lemma draw_row_ok:
  assumes "len \<le> length inp"
  shows "draw_row inp len = Inr (input_text (take len inp) @ [0])"
proof -
  define start where "start = len - 62"
  define n where "n = len - start"
  define cs where "cs = take n (drop start inp)"
  have n: "n \<le> 62" "start + n \<le> length inp" "length cs = n" "start + n = len"
    using assms by (auto simp: n_def start_def cs_def)
  have pair: "(if len > 62 then (len - 62, 62) else (0, len)) = (start, n)" by (auto simp: start_def n_def)
  have v: "drop (length (take len inp) - 62) (take len inp) = cs"
    using assms by (simp add: cs_def start_def n_def drop_take min_def)
  have row: "replicate 65 (0 :: u8) = 0 # replicate n 0 @ 0 # replicate (62 - n) 0 @ [0]"
    using n(1) by (simp flip: replicate_Suc replicate_append_same replicate_add add: replicate_app_Cons_same)
  have "rbind (wr (replicate 65 0) 0 62) (\<lambda>row. rbind (memcpy row 1 cs) (\<lambda>row. rbind (wr row (1 + n) 95) (\<lambda>row.
      rbind (memset row (n + 2) 32 (64 - (n + 2))) (\<lambda>row. wr row 64 0)))) =
      Inr (62 # cs @ 95 # replicate (62 - n) 32 @ [0])"
  proof -
    define m where "m = 62 - n"
    have m: "62 - n = m" "64 - (n + 2) = m" "63 - n = Suc m" "64 - n = Suc (Suc m)" "n \<le> 64"
      using n(1) by (auto simp: m_def)
    show ?thesis
      unfolding row using n(1,3) m
      by (simp add: wr_def memcpy_def memset_def nth_append list_update_append)
  qed
  moreover have "input_text (take len inp) = 62 # cs @ 95 # replicate (62 - n) 32"
    unfolding input_text_def Let_def v using n(3) by simp
  ultimately show ?thesis
    using n by (simp add: draw_row_def pair rd_bytes_ok cs_def [symmetric])
qed

section \<open>Received text\<close>

text \<open>What is shown for a received byte: a tab is a space, anything else that is not printable is dropped.\<close>

definition visible :: "u8 \<Rightarrow> bytes" where
  "visible ch = (let ch = (if ch = 9 then 32 else ch) in if ch < 32 \<or> ch > 126 then [] else [ch])"

lemma visible_plain: "plain (visible ch)" "length (visible ch) \<le> 1"
  by (auto simp: visible_def Let_def not_less)

text \<open>The visible text of a line.\<close>

definition clean :: "bytes \<Rightarrow> bytes" where
  "clean l = concat (map visible l)"

lemma clean_simps [simp]: "clean [] = []" "clean (c # l) = visible c @ clean l"
  by (simp_all add: clean_def)

lemma clean_plain: "plain l \<Longrightarrow> clean l = l"
  by (induction l) (auto simp: visible_def Let_def word_le_nat_alt word_less_nat_alt)

lemma plain_clean: "plain (clean l)"
  by (induction l) (simp_all add: visible_plain)

lemma plain_no_zero: "plain s \<Longrightarrow> 0 \<notin> set s"
  by (auto simp: plain_def word_le_nat_alt)

section \<open>Asking questions\<close>

record 'k keyboard =
  in_Wait :: "'k \<Rightarrow> 'k"
  in_GetKey :: "'k \<Rightarrow> u16 \<times> 'k"
  in_WaitForNoKey :: "'k \<Rightarrow> 'k"
  in_GetKeyReset :: "'k \<Rightarrow> 'k"

text \<open>The loop of \<^verbatim>\<open>read_line\<close>, which also returns what was printed; and the whole function.\<close>

fun read_loop :: "'k keyboard \<Rightarrow> nat \<Rightarrow> nat \<Rightarrow> bytes \<Rightarrow> nat \<Rightarrow> bytes \<Rightarrow> 'k \<Rightarrow> (bytes \<times> nat \<times> bytes \<times> 'k) res" where
  "read_loop kb 0 mx buf len out ks = Inl OutOfFuel"
| "read_loop kb (Suc fuel) mx buf len out ks =
     (let (k, ks) = in_GetKey kb (in_Wait kb ks) in
      if k = 0 then read_loop kb fuel mx buf len out ks
      else if k = KEY_ENTER then Inr (buf, len, out, ks)
      else if k = KEY_LEFT \<or> k = KEY_DELETE \<or> k = KEY_CTRL_DEL then
        (if len \<noteq> 0 then read_loop kb fuel mx buf (len - 1) (out @ [8, 32, 8]) ks
         else read_loop kb fuel mx buf len out ks)
      else if 32 \<le> k \<and> k < 127 \<and> len + 1 < mx then
        rbind (wr buf len (ucast k)) (\<lambda>buf. read_loop kb fuel mx buf (len + 1) (out @ [ucast k]) ks)
      else read_loop kb fuel mx buf len out ks)"

definition read_line :: "'k keyboard \<Rightarrow> nat \<Rightarrow> bytes \<Rightarrow> nat \<Rightarrow> 'k \<Rightarrow> (bytes \<times> bytes \<times> 'k) res" where
  "read_line kb fuel buf mx ks =
     rbind (read_loop kb fuel mx buf 0 [] ks) (\<lambda>(buf, len, out, ks).
     rbind (wr buf len 0) (\<lambda>buf.
       Inr (buf, out @ [10], in_GetKeyReset kb (in_WaitForNoKey kb ks))))"

text \<open>\<^verbatim>\<open>parse_number\<close>: the pointer is the rest of the array from it on; the value is 16 bits wide.\<close>

abbreviation is_digit :: "u8 \<Rightarrow> bool" where "is_digit c \<equiv> 48 \<le> c \<and> c \<le> 57"

fun parse_digits :: "u16 \<Rightarrow> bytes \<Rightarrow> (u16 \<times> bytes) res" where
  "parse_digits val [] = Inl OutOfBounds"
| "parse_digits val (c # cs) =
     (if is_digit c then parse_digits (val * 10 + (ucast c - 48)) cs else Inr (val, c # cs))"

definition parse_number :: "bytes \<Rightarrow> (u16 \<times> bytes) res" where
  "parse_number p = parse_digits 0 p"

text \<open>The loop of \<^verbatim>\<open>parse_ip\<close>; \<open>i\<close> turns have been made and \<open>left\<close> are left.\<close>

fun parse_ip_loop :: "nat \<Rightarrow> nat \<Rightarrow> bytes \<Rightarrow> bytes \<Rightarrow> (int \<times> bytes) res" where
  "parse_ip_loop 0 i p ip = Inr (0, ip)"
| "parse_ip_loop (Suc left) i p ip =
     rbind (rd p 0) (\<lambda>c. if \<not> is_digit c then Inr (- 1, ip)
     else rbind (parse_number p) (\<lambda>(v, p).
          rbind (wr ip i (ucast v)) (\<lambda>ip.
          if i < 3 then
            rbind (rd p 0) (\<lambda>c. if c \<noteq> 46 then Inr (- 1, ip) else parse_ip_loop left (i + 1) (drop 1 p) ip)
          else parse_ip_loop left (i + 1) p ip)))"

definition parse_ip :: "bytes \<Rightarrow> bytes \<Rightarrow> (int \<times> bytes) res" where
  "parse_ip p ip = parse_ip_loop 4 0 p ip"

text \<open>The decimal numbers of \<^verbatim>\<open>printf\<close>.\<close>

fun dec :: "nat \<Rightarrow> bytes" where
  "dec n = (if n < 10 then [48 + word_of_nat n] else dec (n div 10) @ [48 + word_of_nat (n mod 10)])"

declare dec.simps [simp del]

definition dec_int :: "int \<Rightarrow> bytes" where
  "dec_int i = (if i < 0 then asc ''-'' @ dec (nat (- i)) else dec (nat i))"

definition dotted :: "bytes \<Rightarrow> bytes" where
  "dotted ip = dec (unat (ip ! 0)) @ asc ''.'' @ dec (unat (ip ! 1)) @ asc ''.'' @
     dec (unat (ip ! 2)) @ asc ''.'' @ dec (unat (ip ! 3))"

text \<open>The destination address in the context, seen as an array of four bytes.\<close>

definition daddr_bytes :: "tcp_context \<Rightarrow> bytes" where
  "daddr_bytes t = le32 (daddr (tcp_ip t))"

definition set_daddr_bytes :: "bytes \<Rightarrow> tcp_context \<Rightarrow> tcp_context" where
  "set_daddr_bytes ip t =
     t\<lparr>tcp_ip := (tcp_ip t)\<lparr>daddr := of_le32 (ip ! 0) (ip ! 1) (ip ! 2) (ip ! 3)\<rparr>\<rparr>"

lemma le32_of_le32: "length ip = 4 \<Longrightarrow> le32 (of_le32 (ip ! 0) (ip ! 1) (ip ! 2) (ip ! 3)) = ip"
proof -
  assume "length ip = 4"
  then obtain a b c e where ip: "ip = [a, b, c, e]" by (auto simp: numeral_eq_Suc length_Suc_conv)
  have "(ucast (of_le32 a b c e) :: u8) = a" "(ucast (drop_bit 8 (of_le32 a b c e)) :: u8) = b"
    "(ucast (drop_bit 16 (of_le32 a b c e)) :: u8) = c" "(ucast (drop_bit 24 (of_le32 a b c e)) :: u8) = e"
    by (auto simp: of_le32_def bit_simps u8_no_bit intro!: bit_word_eqI)
  then show ?thesis by (simp add: ip le32_def)
qed

text \<open>
  The loop that asks for the address of the server, and the text that asks for it. \<open>line\<close> is the
  array the answer is read into.
\<close>

fun ask_ip :: "'k keyboard \<Rightarrow> nat \<Rightarrow> bytes \<Rightarrow> bytes \<Rightarrow> 'a terminal_scheme \<Rightarrow> 'k \<Rightarrow> (bytes \<times> 'a terminal_scheme \<times> 'k) res" where
  "ask_ip kb 0 question line t ks = Inl OutOfFuel"
| "ask_ip kb (Suc fuel) question line t ks =
     (let t = putcs question t in
      rbind (read_line kb fuel line (length line) ks) (\<lambda>(line, out, ks).
      let t = putcs out t in
      rbind (parse_ip line (daddr_bytes (tcp t))) (\<lambda>(rc, ip).
      let t = t\<lparr>tcp := set_daddr_bytes ip (tcp t)\<rparr> in
      if rc = 0 then Inr (line, t, ks)
      else ask_ip kb fuel question line (putcs (asc ''Not an IP address.'' @ [10]) t) ks)))"

section \<open>Properties of the questions\<close>

text \<open>On a string that ends in a zero the parsers stay inside it.\<close>

lemma parse_digits_safe: "0 \<in> set p \<Longrightarrow> holds_res (\<lambda>(v, q). 0 \<in> set q) (parse_digits v p)"
proof (induction p arbitrary: v)
  case (Cons c p)
  then show ?case by (cases "c = 0") auto
qed simp

lemma holds_rd_string: "0 \<in> set p \<Longrightarrow> holds_res (\<lambda>c. c \<noteq> 0 \<longrightarrow> 0 \<in> set (drop 1 p)) (rd p 0)"
  by (cases p) (auto simp: rd_def)

lemma parse_ip_loop_safe:
  "0 \<in> set p \<Longrightarrow> i + left \<le> length ip \<Longrightarrow>
   holds_res (\<lambda>(rc, ip'). length ip' = length ip) (parse_ip_loop left i p ip)"
proof (induction left arbitrary: i p ip)
  case (Suc left)
  have tail: "holds_res (\<lambda>(rc, ip'). length ip' = length ip)
      (if i < 3 then rbind (rd q 0) (\<lambda>c. if c \<noteq> 46 then Inr (- 1, ip') else parse_ip_loop left (i + 1) (drop 1 q) ip')
       else parse_ip_loop left (i + 1) q ip')" if "0 \<in> set q" "length ip' = length ip" for q ip'
    using that Suc.prems Suc.IH
    by (auto intro!: holds_res_if holds_res_rbindI [OF holds_rd_string [OF that(1)]] simp flip: that(2))
  have num: "holds_res (\<lambda>(v, q). 0 \<in> set q) (parse_number p)"
    unfolding parse_number_def using Suc.prems(1) by (rule parse_digits_safe)
  have store: "holds_res (\<lambda>ip'. length ip' = length ip) (wr ip i v)" for v
    using Suc.prems(2) by (intro holds_wr) simp
  show ?case
    unfolding parse_ip_loop.simps
  proof (rule holds_res_rbindI [OF holds_rd_string [OF Suc.prems(1)]], rule holds_res_if)
    fix c :: u8
    show "holds_res (\<lambda>(rc, ip'). length ip' = length ip) (rbind (parse_number p) (\<lambda>(v, p).
          rbind (wr ip i (ucast v)) (\<lambda>ip.
          if i < 3 then
            rbind (rd p 0) (\<lambda>c. if c \<noteq> 46 then Inr (- 1, ip) else parse_ip_loop left (i + 1) (drop 1 p) ip)
          else parse_ip_loop left (i + 1) p ip)))"
      by (rule holds_res_rbindI [OF num], clarify, rule holds_res_rbindI [OF store]) (rule tail)
  qed simp
qed simp

text \<open>A decimal number is read back.\<close>

lemma digit_ok: "n < 10 \<Longrightarrow> is_digit (48 + word_of_nat n)" "n < 10 \<Longrightarrow> ucast (48 + word_of_nat n :: u8) - 48 = (word_of_nat n :: u16)"
proof -
  assume "n < 10"
  then have "n \<in> {0, 1, 2, 3, 4, 5, 6, 7, 8, 9}" by auto
  then show "is_digit (48 + word_of_nat n)" "ucast (48 + word_of_nat n :: u8) - 48 = (word_of_nat n :: u16)"
    by (auto simp: word_le_nat_alt)
qed

lemma parse_digits_append:
  assumes "\<forall>c \<in> set ds. is_digit c"
  shows "parse_digits v (ds @ rest) = parse_digits (fold (\<lambda>c v. v * 10 + (ucast c - 48)) ds v) rest"
  using assms by (induction ds arbitrary: v) auto

lemma dec_digits: "\<forall>c \<in> set (dec n). is_digit c"
proof (induction n rule: dec.induct)
  case (1 n)
  then show ?case
    using digit_ok(1) [of n] digit_ok(1) [of "n mod 10"] by (subst dec.simps) auto
qed

lemma dec_value: "fold (\<lambda>c v. v * 10 + (ucast c - 48)) (dec n) 0 = (word_of_nat n :: u16)"
proof (induction n rule: dec.induct)
  case (1 n)
  show ?case
  proof (cases "n < 10")
    case True
    then show ?thesis using digit_ok(2) [of n] by (simp add: dec.simps [of n])
  next
    case False
    have "(word_of_nat (n div 10) :: u16) * 10 + word_of_nat (n mod 10) = word_of_nat (n div 10 * 10 + n mod 10)"
      by (simp only: of_nat_add of_nat_mult of_nat_numeral)
    then show ?thesis
      using 1 False digit_ok(2) [of "n mod 10"] by (simp add: dec.simps [of n])
  qed
qed

lemma parse_number_dec:
  assumes "\<not> is_digit c"
  shows "parse_number (dec n @ c # rest) = Inr (word_of_nat n, c # rest)"
  using assms by (auto simp: parse_number_def parse_digits_append [OF dec_digits] dec_value)

lemma dec_nonempty: "\<exists>c cs. dec n = c # cs \<and> is_digit c"
  using dec_digits [of n] by (cases "dec n") (auto simp: dec.simps [of n] split: if_splits)

lemma parse_ip_step:
  assumes "i < length ip" and "\<not> is_digit c"
  shows "parse_ip_loop (Suc left) i (dec (unat (b :: u8)) @ c # rest) ip =
    (if i < 3 then if c \<noteq> 46 then Inr (- 1, ip[i := b]) else parse_ip_loop left (i + 1) rest (ip[i := b])
     else parse_ip_loop left (i + 1) (c # rest) (ip[i := b]))"
proof -
  have "rd (dec (unat b) @ c # rest) 0 = Inr (hd (dec (unat b)))" "is_digit (hd (dec (unat b)))"
    using dec_nonempty [of "unat b"] by (auto simp: rd_def)
  moreover have "(ucast (word_of_nat (unat b) :: u16) :: u8) = b"
    by (simp, rule bit_word_eqI) (auto simp: bit_simps)
  ultimately show ?thesis
    using assms by (simp add: parse_number_dec wr_def rd_def)
qed

text \<open>
  An address is read back. The text that the programs print for an address, with anything
  that is not a digit behind it, is parsed to exactly this address.
\<close>

lemma parse_ip_dotted:
  assumes "length ip = 4" and "length old = 4" and "\<not> is_digit c"
  shows "parse_ip (dotted ip @ c # rest) old = Inr (0, ip)"
proof -
  from assms(1) obtain a b e f where ip: "ip = [a, b, e, f]" by (auto simp: numeral_eq_Suc length_Suc_conv)
  from assms(2) obtain q r s t where old: "old = [q, r, s, t]" by (auto simp: numeral_eq_Suc length_Suc_conv)
  have dot: "asc ''.'' = [46]" by (simp add: asc_def)
  have "\<not> is_digit (46 :: u8)" by simp
  note step = parse_ip_step [OF _ this] parse_ip_step [OF _ assms(3)]
  have "parse_ip (dotted ip @ c # rest) old =
      parse_ip_loop (Suc (Suc (Suc (Suc 0)))) 0 (dec (unat a) @ 46 # dec (unat b) @ 46 # dec (unat e) @ 46 # dec (unat f) @ c # rest) old"
    by (simp add: parse_ip_def dotted_def ip dot numeral_eq_Suc)
  also have "\<dots> = Inr (0, ip)"
    by (simp add: step ip old del: parse_ip_loop.simps(2))
  finally show ?thesis .
qed

text \<open>\<^verbatim>\<open>read_line\<close> stays inside its array and leaves a string of printable characters there.\<close>

lemma ucast_key: "32 \<le> k \<Longrightarrow> k < (127 :: u16) \<Longrightarrow> 32 \<le> (ucast k :: u8) \<and> (ucast k :: u8) \<le> 126"
proof -
  assume k: "32 \<le> k" "k < (127 :: u16)"
  then have "unat k < 127" "32 \<le> unat k" by (simp_all add: word_less_nat_alt word_le_nat_alt)
  moreover have "unat (ucast k :: u8) = unat k"
    using \<open>unat k < 127\<close> by (simp add: unsigned_ucast_eq take_bit_nat_eq_self)
  ultimately show ?thesis by (simp add: word_le_nat_alt)
qed

lemma read_loop_safe:
  assumes "length buf = mx"
  shows "len < mx \<Longrightarrow> plain (take len buf) \<Longrightarrow>
    holds_res (\<lambda>(buf', len', out', ks'). length buf' = mx \<and> len' < mx \<and> plain (take len' buf'))
      (read_loop kb fuel mx buf len out ks)"
  using assms
proof (induction fuel arbitrary: buf len out ks)
  case (Suc fuel)
  obtain k ks1 where k: "in_GetKey kb (in_Wait kb ks) = (k, ks1)" by fastforce
  have shorter: "plain (take (len - 1) buf)"
    using Suc.prems(2) set_take_subset_set_take [of "len - 1" len buf] by (auto simp: plain_def)
  have typed: "plain (take (len + 1) (buf[len := ucast k]))" if "32 \<le> k" "k < 127"
    using Suc.prems ucast_key [OF that] by (simp add: take_Suc_conv_app_nth)
  have stored: "wr buf len (ucast k) = Inr (buf[len := ucast k])" using Suc.prems by (simp add: wr_def)
  show ?case
    unfolding read_loop.simps k Let_def prod.case stored rbind_Inr
    by (intro holds_res_if Suc.IH) (use Suc.prems shorter typed in simp_all)
qed simp

lemma read_line_safe:
  assumes "length buf = mx" and "0 < mx"
  shows "holds_res (\<lambda>(buf', out, ks'). length buf' = mx \<and> 0 \<in> set buf' \<and> plain (takeWhile (\<lambda>c. c \<noteq> 0) buf'))
    (read_line kb fuel buf mx ks)"
  unfolding read_line_def
proof (rule holds_res_rbindI [OF read_loop_safe [OF assms(1,2)]])
  fix x :: "bytes \<times> nat \<times> bytes \<times> 'a"
  assume "case x of (buf', len', out', ks') \<Rightarrow> length buf' = mx \<and> len' < mx \<and> plain (take len' buf')"
  then obtain b n u v where x: "x = (b, n, u, v)" and b: "length b = mx" "n < mx" "plain (take n b)" by (cases x) auto
  have "b[n := 0] = take n b @ 0 # drop (Suc n) b" using b by (simp add: upd_conv_take_nth_drop)
  moreover have "0 \<notin> set (take n b)" using b(3) by (auto simp: plain_def word_le_nat_alt)
  ultimately show "holds_res (\<lambda>(buf', out, ks'). length buf' = mx \<and> 0 \<in> set buf' \<and> plain (takeWhile (\<lambda>c. c \<noteq> 0) buf'))
    (case x of (buf, len, out, ks) \<Rightarrow> rbind (wr buf len 0) (\<lambda>buf.
       Inr (buf, out @ [10], in_GetKeyReset kb (in_WaitForNoKey kb ks))))"
    using b by (simp add: x wr_def takeWhile_append)
qed simp

text \<open>Asking questions changes nothing but the context and the output.\<close>

definition asked :: "'a terminal_scheme \<Rightarrow> 'a terminal_scheme \<Rightarrow> bool" where
  "asked t t' \<longleftrightarrow> tcp_wf (tcp t') \<and> length (tcp_pkt (tcp t')) = length (tcp_pkt (tcp t)) \<and>
     t' = t\<lparr>tcp := tcp t', outp := outp t'\<rparr>"

lemma asked_trans: "asked t u \<Longrightarrow> asked u v \<Longrightarrow> asked t v"
  by (cases t; cases u; cases v) (simp add: asked_def)

lemma asked_putcs: "tcp_wf (tcp t) \<Longrightarrow> asked t (putcs cs t)"
  by (cases t) (simp add: asked_def putcs_def)

lemma asked_tcp: "tcp_wf c \<Longrightarrow> length (tcp_pkt c) = length (tcp_pkt (tcp t)) \<Longrightarrow> asked t (t\<lparr>tcp := c\<rparr>)"
  by (cases t) (simp add: asked_def)

lemma asked_wf: "asked t u \<Longrightarrow> tcp_wf (tcp u)"
  by (simp add: asked_def)

lemma asked_eq: "asked t u \<Longrightarrow> f u = f (t\<lparr>tcp := tcp u, outp := outp u\<rparr>)"
  by (simp add: asked_def)

lemma tcp_wf_daddr [simp]: "tcp_wf (set_daddr_bytes ip c) = tcp_wf c" "tcp_pkt (set_daddr_bytes ip c) = tcp_pkt c"
  by (simp_all add: tcp_wf_def set_daddr_bytes_def)

lemma ask_ip_safe:
  assumes "tcp_wf (tcp t)" and "0 < length line"
  shows "holds_res (\<lambda>(line', t', ks'). length line' = length line \<and> asked t t') (ask_ip kb fuel question line t ks)"
  using assms
proof (induction fuel arbitrary: line t ks)
  case (Suc fuel)
  have ip: "holds_res (\<lambda>(rc, ip'). length ip' = 4) (parse_ip line1 (daddr_bytes v))" if "0 \<in> set line1" for line1 v
    using parse_ip_loop_safe [OF that, of 0 4 "daddr_bytes v"] by (simp add: parse_ip_def daddr_bytes_def)
  have put: "asked t (putcs cs u)" "asked t (u\<lparr>tcp := set_daddr_bytes b (tcp u)\<rparr>)" if "asked t u" for cs u b
    using that asked_putcs [of u cs] asked_tcp [of "set_daddr_bytes b (tcp u)" u] asked_wf [OF that] by (auto intro: asked_trans)
  have tail: "holds_res (\<lambda>(line', t', ks'). length line' = length line \<and> asked t t') (ask_ip kb fuel question line1 u ks1)"
    if "length line1 = length line" "asked t u" for line1 u ks1
    using that Suc.prems(2) by (intro holds_res_mono [OF Suc.IH]) (auto dest: asked_wf intro: asked_trans)
  have "asked t (putcs question t)" using Suc.prems(1) by (rule asked_putcs)
  note put = put this
  show ?case
    unfolding ask_ip.simps Let_def
    by (rule holds_res_rbindI [OF read_line_safe [OF refl Suc.prems(2)]], clarify)
      (rule holds_res_rbindI [OF ip], assumption, clarify, rule holds_res_if, simp add: put, rule tail, simp_all add: put)
qed simp

section \<open>Concrete runs\<close>

text \<open>A keyboard for concrete runs: the keys of a list, then nothing.\<close>

definition script_keys :: "u16 list keyboard" where
  "script_keys = \<lparr>in_Wait = (\<lambda>ks. ks), in_GetKey = (\<lambda>ks. case ks of [] \<Rightarrow> (0, []) | k # ks \<Rightarrow> (k, ks)),
     in_WaitForNoKey = (\<lambda>ks. ks), in_GetKeyReset = (\<lambda>ks. ks)\<rparr>"

lemma con_ok_fresh: "con_ok fresh_console"
  by (simp add: con_ok_def fresh_console_def)

lemma fresh_displays: "plain s \<Longrightarrow> displays (con_puts (input_output (input_text s)) fresh_console) [] (input_text s)"
  by (rule input_displays [where old = blank_row])
    (use replicate_add [of 23 1 blank_row] in \<open>simp_all add: displays_def fresh_console_def con_ok_def plain_input_text\<close>)

end
