(* ===== verification/Irc_Text.thy ===== *)
theory Irc_Text
  imports Terminal
begin

text \<open>
  The string helpers of \<^verbatim>\<open>irc.c\<close>. They work in place on the arrays the lines are in: a pointer is an
  offset into its array, and a word is ended by storing a zero behind it. The second part states
  what they compute on plain lists of characters (\<open>word_of\<close>, \<open>param_of\<close>, \<open>params\<close>), and shows that
  the pointer code refines it without disturbing the strings in front of the pointer.
\<close>

section \<open>The code\<close>

text \<open>A string literal as it is in memory.\<close>

definition lit :: "string \<Rightarrow> bytes" where
  "lit s = asc s @ [0]"

text \<open>The loop of \<^verbatim>\<open>str_copy\<close>; \<open>src\<close> is the source array from \<^verbatim>\<open>i\<close> on.\<close>

fun copy_loop :: "bytes \<Rightarrow> bytes \<Rightarrow> nat \<Rightarrow> nat \<Rightarrow> bytes res" where
  "copy_loop dst [] i mx = Inl OutOfBounds"
| "copy_loop dst (ch # src) i mx =
     (if ch \<noteq> 0 \<and> i < mx - 1 then rbind (wr dst i ch) (\<lambda>dst. copy_loop dst src (i + 1) mx) else wr dst i 0)"

definition str_copy :: "bytes \<Rightarrow> bytes \<Rightarrow> nat \<Rightarrow> nat \<Rightarrow> bytes res" where
  "str_copy dst src p mx = copy_loop dst (drop p src) 0 mx"

definition lower :: "u8 \<Rightarrow> u8" where
  "lower ch = (if 65 \<le> ch \<and> ch \<le> 90 then ch + 32 else ch)"

text \<open>\<^verbatim>\<open>same\<close>: the arrays from the two pointers on.\<close>

fun same :: "bytes \<Rightarrow> bytes \<Rightarrow> bool res" where
  "same (a # as) (b # bs) =
     (let ca = lower a; cb = lower b in
      if ca \<noteq> cb then Inr False else if ca = 0 then Inr True else same as bs)"
| "same [] bs = Inl OutOfBounds"
| "same (a # as) [] = Inl OutOfBounds"

fun skip_spaces :: "bytes \<Rightarrow> nat \<Rightarrow> nat res" where
  "skip_spaces [] p = Inl OutOfBounds"
| "skip_spaces (ch # cs) p = (if ch = 32 then skip_spaces cs (p + 1) else Inr p)"

fun skip_word :: "bytes \<Rightarrow> nat \<Rightarrow> nat res" where
  "skip_word [] p = Inl OutOfBounds"
| "skip_word (ch # cs) p = (if ch \<noteq> 0 \<and> ch \<noteq> 32 then skip_word cs (p + 1) else Inr p)"

text \<open>\<^verbatim>\<open>next_word\<close> and \<^verbatim>\<open>next_param\<close>: the array after the call, the pointer returned, and the new \<^verbatim>\<open>*pp\<close>.\<close>

definition next_word :: "bytes \<Rightarrow> nat \<Rightarrow> (bytes \<times> nat \<times> nat) res" where
  "next_word buf p =
     rbind (skip_spaces (drop p buf) p) (\<lambda>start.
     rbind (skip_word (drop start buf) start) (\<lambda>p.
     rbind (rd buf p) (\<lambda>ch.
     if ch \<noteq> 0 then rbind (wr buf p 0) (\<lambda>buf. Inr (buf, start, p + 1)) else Inr (buf, start, p))))"

definition next_param :: "bytes \<Rightarrow> nat \<Rightarrow> (bytes \<times> nat \<times> nat) res" where
  "next_param buf p =
     rbind (skip_spaces (drop p buf) p) (\<lambda>p.
     rbind (rd buf p) (\<lambda>ch.
     if ch = 58 then rbind (c_str buf (p + 1)) (\<lambda>s. Inr (buf, p + 1, p + 1 + length s))
     else next_word buf p))"

text \<open>
  \<^verbatim>\<open>nick_of\<close>: the array after the call. The pointer it returns is \<open>nick_ptr\<close>, the array from the prefix on
  or, for a null pointer, the literal.
\<close>

fun nick_scan :: "bytes \<Rightarrow> nat \<Rightarrow> nat option res" where
  "nick_scan [] p = Inl OutOfBounds"
| "nick_scan (ch # cs) p =
     (if ch = 0 then Inr None else if ch = 33 \<or> ch = 64 then Inr (Some p) else nick_scan cs (p + 1))"

definition nick_of :: "bytes \<Rightarrow> nat option \<Rightarrow> bytes res" where
  "nick_of buf prefix = (case prefix of
     None \<Rightarrow> Inr buf
   | Some p \<Rightarrow> rbind (nick_scan (drop p buf) p) (\<lambda>r. case r of None \<Rightarrow> Inr buf | Some q \<Rightarrow> wr buf q 0))"

definition nick_ptr :: "bytes \<Rightarrow> nat option \<Rightarrow> bytes" where
  "nick_ptr buf prefix = (case prefix of None \<Rightarrow> lit ''?'' | Some p \<Rightarrow> drop p buf)"

definition is_channel :: "bytes \<Rightarrow> nat \<Rightarrow> bool res" where
  "is_channel buf p = rbind (rd buf p) (\<lambda>ch. Inr (ch = 35 \<or> ch = 38))"

fun is_numeric :: "nat \<Rightarrow> bytes \<Rightarrow> nat \<Rightarrow> bool res" where
  "is_numeric 0 buf p = rbind (rd buf p) (\<lambda>ch. Inr (ch = 0))"
| "is_numeric (Suc left) buf p = rbind (rd buf p) (\<lambda>ch. if \<not> is_digit ch then Inr False else is_numeric left buf (p + 1))"

section \<open>Strings in arrays\<close>

lemma c_str_iff: "c_str m p = Inr s \<longleftrightarrow> (\<exists>rest. drop p m = s @ 0 # rest) \<and> 0 \<notin> set s"
proof
  assume a: "c_str m p = Inr s"
  then have z: "0 \<in> set (drop p m)" and s: "s = takeWhile (\<lambda>c. c \<noteq> 0) (drop p m)" by (auto simp: c_str_def split: if_splits)
  from split_list_first [OF z] obtain ys zs where ys: "drop p m = ys @ 0 # zs" "0 \<notin> set ys" by blast
  with s have "s = ys" by (simp add: takeWhile_append)
  with ys show "(\<exists>rest. drop p m = s @ 0 # rest) \<and> 0 \<notin> set s" by blast
qed (auto simp: c_str_def takeWhile_append)

lemma c_strE:
  assumes "c_str m p = Inr s"
  obtains rest where "drop p m = s @ 0 # rest" and "0 \<notin> set s"
  using assms by (auto simp: c_str_iff)

lemma c_str_nth:
  assumes "c_str m p = Inr s"
  shows "p + length s < length m" and "i < length s \<Longrightarrow> m ! (p + i) = s ! i" and "m ! (p + length s) = 0"
proof -
  from assms obtain rest where r: "drop p m = s @ 0 # rest" by (rule c_strE)
  then have "length (drop p m) = length s + 1 + length rest" by simp
  then show l: "p + length s < length m" by simp
  have "m ! (p + i) = (s @ 0 # rest) ! i" if "i \<le> length s" for i
    using r l that by (simp flip: nth_drop)
  then show "m ! (p + length s) = 0" "i < length s \<Longrightarrow> m ! (p + i) = s ! i"
    by (simp_all add: nth_append)
qed

lemma c_str_rd: "c_str m p = Inr s \<Longrightarrow> rd m p = Inr (if s = [] then 0 else hd s)"
  using c_str_nth [of m p s] c_str_nth(2) [of m p s 0] by (auto simp: rd_def hd_conv_nth)

lemma c_str_drop: "c_str m p = Inr s \<Longrightarrow> i \<le> length s \<Longrightarrow> c_str m (p + i) = Inr (drop i s)"
proof -
  assume a: "c_str m p = Inr s" "i \<le> length s"
  then obtain rest where r: "drop p m = s @ 0 # rest" "0 \<notin> set s" by (blast elim: c_strE)
  have "drop (p + i) m = drop i (s @ 0 # rest)" using r(1) by (metis drop_drop add.commute)
  then have "drop (p + i) m = drop i s @ 0 # rest" using a(2) by simp
  then show ?thesis using r(2) by (auto simp: c_str_iff dest: in_set_dropD)
qed

text \<open>A zero stored inside a string cuts it there; a string that lies elsewhere stays.\<close>

lemma c_str_cut:
  assumes "c_str m p = Inr s" and "i < length s"
  shows "c_str (m[p + i := 0]) p = Inr (take i s)" and "c_str (m[p + i := 0]) (p + i + 1) = Inr (drop (i + 1) s)"
proof -
  from assms(1) obtain rest where r: "drop p m = s @ 0 # rest" "0 \<notin> set s" by (rule c_strE)
  have "drop p (m[p + i := 0]) = (s @ 0 # rest)[i := 0]" by (simp add: drop_update_swap r(1))
  also have "\<dots> = take i s @ 0 # drop (Suc i) s @ 0 # rest"
    using assms(2) by (simp add: list_update_append upd_conv_take_nth_drop)
  finally show "c_str (m[p + i := 0]) p = Inr (take i s)"
    using r(2) by (auto simp: c_str_iff dest: in_set_takeD)
  have "c_str m (p + (i + 1)) = Inr (drop (i + 1) s)" using assms by (intro c_str_drop) simp_all
  moreover have "drop (p + i + 1) (m[p + i := 0]) = drop (p + (i + 1)) m" by simp
  ultimately show "c_str (m[p + i := 0]) (p + i + 1) = Inr (drop (i + 1) s)" by (metis c_str_iff)
qed

lemma c_str_keep:
  assumes "c_str m j = Inr t" and "j + length t < e \<or> e < j"
  shows "c_str (m[e := 0]) j = Inr t"
proof -
  from assms(1) obtain rest where r: "drop j m = t @ 0 # rest" "0 \<notin> set t" by (rule c_strE)
  show ?thesis
  proof (cases "e < j")
    case True
    then have "drop j (m[e := 0]) = drop j m" by simp
    then show ?thesis using assms(1) by (metis c_str_iff)
  next
    case False
    with assms(2) obtain k where "e - j = length t + Suc k" by (auto dest: less_imp_Suc_add)
    with False have "drop j (m[e := 0]) = t @ 0 # rest[k := 0]"
      by (simp add: drop_update_swap r(1) list_update_append)
    then show ?thesis using r(2) by (auto simp: c_str_iff)
  qed
qed

section \<open>What the helpers compute\<close>

lemma str_copy_loop:
  assumes "0 \<notin> set s" and "0 < mx" and "mx \<le> length dst" and "i < mx"
  shows "copy_loop dst (s @ 0 # rest) i mx =
    Inr (take i dst @ take (mx - 1 - i) s @ 0 # drop (Suc i + length (take (mx - 1 - i) s)) dst)"
  using assms
proof (induction s arbitrary: dst i)
  case Nil
  then show ?case by (simp add: wr_def upd_conv_take_nth_drop)
next
  case (Cons c s)
  show ?case
  proof (cases "i < mx - 1")
    case True
    then obtain k where k: "mx - 1 - i = Suc k" "mx - 1 - (i + 1) = k" by (cases "mx - 1 - i") auto
    have "copy_loop dst ((c # s) @ 0 # rest) i mx = copy_loop (dst[i := c]) (s @ 0 # rest) (i + 1) mx"
      using True Cons.prems by (simp add: wr_def)
    also have "\<dots> = Inr (take (i + 1) (dst[i := c]) @ take k s @ 0 # drop (Suc (i + 1) + length (take k s)) (dst[i := c]))"
      using Cons.IH [of "dst[i := c]" "i + 1"] Cons.prems True k(2) by simp
    finally show ?thesis
      unfolding k(1) using Cons.prems True by (simp add: take_Suc_conv_app_nth)
  next
    case False
    then have "mx - 1 - i = 0" by simp
    then show ?thesis using False Cons.prems by (simp add: wr_def upd_conv_take_nth_drop)
  qed
qed

text \<open>\<^verbatim>\<open>str_copy\<close> copies the string, cut to the destination, and always ends it.\<close>

lemma str_copy_ok:
  assumes "c_str src p = Inr s" and "length dst = mx" and "0 < mx"
  shows "\<exists>dst'. str_copy dst src p mx = Inr dst' \<and> length dst' = mx \<and> c_str dst' 0 = Inr (take (mx - 1) s)"
proof -
  from assms(1) obtain rest where r: "drop p src = s @ 0 # rest" "0 \<notin> set s" by (rule c_strE)
  have "str_copy dst src p mx = Inr (take (mx - 1) s @ 0 # drop (1 + length (take (mx - 1) s)) dst)"
    using str_copy_loop [OF r(2) assms(3), of dst 0 rest] assms(2,3) by (simp add: str_copy_def r(1))
  moreover have "0 \<notin> set (take (mx - 1) s)" using r(2) by (auto dest: in_set_takeD)
  ultimately show ?thesis
    using assms(2,3) by (simp add: c_str_append)
qed

lemma lower_zero: "lower ch = 0 \<longleftrightarrow> ch = 0"
proof
  assume a: "lower ch = 0"
  show "ch = 0"
  proof (rule ccontr)
    assume "ch \<noteq> 0"
    with a have "65 \<le> ch" "ch \<le> 90" "ch + 32 = 0" by (auto simp: lower_def split: if_splits)
    then have "unat ch + 32 < 256" "unat (ch + 32) = 0" by (simp_all add: word_le_nat_alt)
    then show False by (simp add: unat_word_ariths)
  qed
qed (simp add: lower_def)

text \<open>\<^verbatim>\<open>same\<close> compares two strings without regard to case.\<close>

lemma same_ok:
  "0 \<notin> set s \<Longrightarrow> 0 \<notin> set t \<Longrightarrow> same (s @ 0 # xs) (t @ 0 # ys) = Inr (map lower s = map lower t)"
proof (induction s arbitrary: t)
  case Nil
  have z: "lower 0 = 0" by (simp add: lower_zero)
  show ?case
  proof (cases t)
    case (Cons b t')
    with Nil.prems(2) have "lower b \<noteq> 0" by (simp add: lower_zero)
    then show ?thesis by (simp add: Cons z)
  qed (simp add: z)
next
  case (Cons a s)
  show ?case
  proof (cases t)
    case Nil
    have "lower a \<noteq> 0" "lower 0 = 0" using Cons.prems(1) by (simp_all add: lower_zero)
    then show ?thesis by (simp add: Nil)
  next
    case (Cons b t')
    then have "lower b \<noteq> 0" "0 \<notin> set t'" using Cons.prems(2) by (simp_all add: lower_zero)
    then show ?thesis using Cons.prems(1) Cons.IH [of t'] by (auto simp: \<open>t = b # t'\<close> Let_def)
  qed
qed

lemma same_str:
  assumes "c_str m p = Inr s" and "c_str n q = Inr t"
  shows "same (drop p m) (drop q n) = Inr (map lower s = map lower t)"
  using assms by (auto simp: c_str_iff same_ok)

lemma c_str_lit [simp]: "0 \<notin> set (asc s) \<Longrightarrow> c_str (lit s) 0 = Inr (asc s)"
  by (simp add: lit_def c_str_append)

lemma is_channel_ok: "c_str m p = Inr s \<Longrightarrow> is_channel m p = Inr (s \<noteq> [] \<and> (hd s = 35 \<or> hd s = 38))"
  by (auto simp: is_channel_def c_str_rd)

lemma is_numeric_ok:
  "c_str m p = Inr s \<Longrightarrow> is_numeric n m p = Inr (length s = n \<and> (\<forall>c \<in> set s. is_digit c))"
proof (induction n arbitrary: p s)
  case 0
  then show ?case using c_str_rd [OF 0] by (cases s) (auto simp: c_str_iff)
next
  case (Suc n)
  show ?case
  proof (cases s)
    case Nil
    then show ?thesis using c_str_rd [OF Suc.prems] by simp
  next
    case (Cons c s')
    then have "c_str m (p + 1) = Inr s'" using c_str_drop [OF Suc.prems, of 1] by simp
    from Suc.IH [OF this] show ?thesis using c_str_rd [OF Suc.prems] Cons by auto
  qed
qed

text \<open>Words and parameters of a string.\<close>

abbreviation strip :: "bytes \<Rightarrow> bytes" where "strip s \<equiv> dropWhile (\<lambda>c. c = 32) s"

definition word_of :: "bytes \<Rightarrow> bytes" where
  "word_of s = takeWhile (\<lambda>c. c \<noteq> 32) (strip s)"

definition word_rest :: "bytes \<Rightarrow> bytes" where
  "word_rest s = drop 1 (dropWhile (\<lambda>c. c \<noteq> 32) (strip s))"

definition trailing :: "bytes \<Rightarrow> bool" where
  "trailing s \<longleftrightarrow> strip s \<noteq> [] \<and> hd (strip s) = 58"

definition param_of :: "bytes \<Rightarrow> bytes" where
  "param_of s = (if trailing s then tl (strip s) else word_of s)"

definition param_rest :: "bytes \<Rightarrow> bytes" where
  "param_rest s = (if trailing s then [] else word_rest s)"

lemma strip_length: "length (strip s) \<le> length s"
  by (rule length_dropWhile_le)

lemma word_rest_less: "s \<noteq> [] \<Longrightarrow> length (word_rest s) < length s"
proof -
  assume "s \<noteq> []"
  then have "0 < length s" by simp
  moreover have "length (dropWhile (\<lambda>c. c \<noteq> 32) (strip s)) \<le> length s"
    using length_dropWhile_le [of "\<lambda>c. c \<noteq> 32" "strip s"] strip_length [of s] by (rule order_trans)
  ultimately show ?thesis unfolding word_rest_def length_drop by linarith
qed

lemma param_rest_less: "s \<noteq> [] \<Longrightarrow> length (param_rest s) < length s"
  by (simp add: param_rest_def word_rest_less)

text \<open>All parameters of the rest of a line.\<close>

function params :: "bytes \<Rightarrow> bytes list" where
  "params s = (if s = [] then [] else param_of s # params (param_rest s))"
  by pat_completeness auto
termination by (relation "measure length") (auto intro: param_rest_less)

declare params.simps [simp del]

section \<open>The pointer code computes them\<close>

lemma skip_spaces_ok: "0 \<notin> set s \<Longrightarrow> skip_spaces (s @ 0 # rest) p = Inr (p + length (takeWhile (\<lambda>c. c = 32) s))"
  by (induction s arbitrary: p) auto

lemma skip_word_ok: "0 \<notin> set s \<Longrightarrow> skip_word (s @ 0 # rest) p = Inr (p + length (takeWhile (\<lambda>c. c \<noteq> 32) s))"
  by (induction s arbitrary: p) auto

lemma skip_spaces_str:
  assumes "c_str buf p = Inr s"
  shows "\<exists>q. skip_spaces (drop p buf) p = Inr q \<and> p \<le> q \<and> c_str buf q = Inr (strip s)"
proof -
  from assms obtain rest where r: "drop p buf = s @ 0 # rest" "0 \<notin> set s" by (rule c_strE)
  have "c_str buf (p + length (takeWhile (\<lambda>c. c = 32) s)) = Inr (strip s)"
    using c_str_drop [OF assms length_takeWhile_le] by (simp add: dropWhile_eq_drop)
  then show ?thesis using r by (simp add: skip_spaces_ok)
qed

text \<open>
  The result of taking \<open>w\<close> off the string at \<open>p\<close>, with \<open>r\<close> left: the pointers point to these strings, and
  every string that ends at \<open>p\<close> or in front of it is as it was.
\<close>

definition parsed :: "bytes \<Rightarrow> nat \<Rightarrow> bytes \<Rightarrow> bytes \<Rightarrow> bytes \<times> nat \<times> nat \<Rightarrow> bool" where
  "parsed buf p w r x \<longleftrightarrow> (case x of (buf', q, p') \<Rightarrow>
     length buf' = length buf \<and> p \<le> q \<and> q + length w \<le> p' \<and> c_str buf' q = Inr w \<and> c_str buf' p' = Inr r \<and>
     (\<forall>j t. c_str buf j = Inr t \<and> j + length t \<le> p \<longrightarrow> c_str buf' j = Inr t))"

lemma next_word_ok:
  assumes "c_str buf p = Inr s"
  shows "\<exists>x. next_word buf p = Inr x \<and> parsed buf p (word_of s) (word_rest s) x"
proof -
  from skip_spaces_str [OF assms] obtain q where
    q: "skip_spaces (drop p buf) p = Inr q" "p \<le> q" "c_str buf q = Inr (strip s)" by blast
  from q(3) obtain rest where r: "drop q buf = strip s @ 0 # rest" "0 \<notin> set (strip s)" by (rule c_strE)
  let ?w = "word_of s" and ?t = "strip s"
  let ?e = "q + length ?w"
  have w: "?w = take (length ?w) ?t" "length ?w \<le> length ?t"
    by (simp_all add: word_of_def takeWhile_eq_take [symmetric] length_takeWhile_le)
  have e: "skip_word (drop q buf) q = Inr ?e" using r by (simp add: skip_word_ok word_of_def)
  have tail: "c_str buf ?e = Inr (drop (length ?w) ?t)" using c_str_drop [OF q(3) w(2)] .
  have rest: "word_rest s = drop (length ?w + 1) ?t"
    by (simp add: word_rest_def word_of_def dropWhile_eq_drop)
  have run: "next_word buf p = rbind (rd buf ?e) (\<lambda>ch.
      if ch \<noteq> 0 then rbind (wr buf ?e 0) (\<lambda>buf. Inr (buf, q, ?e + 1)) else Inr (buf, q, ?e))"
    by (simp add: next_word_def q(1) e)
  show ?thesis
  proof (cases "length ?w = length ?t")
    case True
    then have "next_word buf p = Inr (buf, q, ?e)" using c_str_rd [OF tail] by (simp add: run)
    moreover have "c_str buf q = Inr ?w" using q(3) w(1) True by simp
    ultimately show ?thesis using q(2) tail True by (simp add: parsed_def rest)
  next
    case False
    then have lt: "length ?w < length ?t" using w(2) by simp
    have nz: "buf ! ?e \<noteq> 0" using c_str_nth(2) [OF q(3) lt] r(2) lt by (metis nth_mem)
    have in_buf: "?e < length buf" using c_str_nth(1) [OF q(3)] lt by simp
    have "next_word buf p = Inr (buf[?e := 0], q, ?e + 1)" using nz in_buf by (simp add: run rd_def wr_def)
    moreover have "c_str (buf[?e := 0]) j = Inr t" if "c_str buf j = Inr t" "j + length t \<le> p" for j t
    proof (rule c_str_keep [OF that(1)])
      have "j + length t \<noteq> ?e" using c_str_nth(3) [OF that(1)] nz by metis
      then show "j + length t < ?e \<or> ?e < j" using that(2) q(2) by linarith
    qed
    ultimately show ?thesis
      using c_str_cut [OF q(3) lt] w(1) q(2) by (simp add: parsed_def rest)
  qed
qed

lemma next_param_ok:
  assumes "c_str buf p = Inr s"
  shows "\<exists>x. next_param buf p = Inr x \<and> parsed buf p (param_of s) (param_rest s) x"
proof -
  from skip_spaces_str [OF assms] obtain q where
    q: "skip_spaces (drop p buf) p = Inr q" "p \<le> q" "c_str buf q = Inr (strip s)" by blast
  have run: "next_param buf p = (if trailing s then rbind (c_str buf (q + 1)) (\<lambda>s. Inr (buf, q + 1, q + 1 + length s)) else next_word buf q)"
    using c_str_rd [OF q(3)] by (auto simp: next_param_def q(1) trailing_def)
  show ?thesis
  proof (cases "trailing s")
    case True
    then have "strip s \<noteq> []" by (simp add: trailing_def)
    then have str: "c_str buf (q + 1) = Inr (tl (strip s))"
      using c_str_drop [OF q(3), of 1] by (cases "strip s") simp_all
    moreover have "c_str buf (q + 1 + length (tl (strip s))) = Inr []"
      using c_str_drop [OF str order_refl] by simp
    ultimately show ?thesis
      using True q(2) by (simp add: run parsed_def param_of_def param_rest_def)
  next
    case False
    from next_word_ok [OF q(3)] obtain x where
      "next_word buf q = Inr x" "parsed buf q (word_of s) (word_rest s) x"
      by (auto simp: word_of_def word_rest_def)
    then show ?thesis
      using False q(2) by (auto simp: run parsed_def param_of_def param_rest_def)
  qed
qed

text \<open>\<^verbatim>\<open>nick_of\<close> cuts the prefix at the first \<open>!\<close> or \<open>@\<close>.\<close>

definition nick_text :: "bytes option \<Rightarrow> bytes" where
  "nick_text prefix = (case prefix of None \<Rightarrow> asc ''?'' | Some s \<Rightarrow> takeWhile (\<lambda>c. c \<noteq> 33 \<and> c \<noteq> 64) s)"

lemma nick_scan_ok:
  "0 \<notin> set s \<Longrightarrow> nick_scan (s @ 0 # rest) p =
     Inr (let n = length (takeWhile (\<lambda>c. c \<noteq> 33 \<and> c \<noteq> 64) s) in if n < length s then Some (p + n) else None)"
  by (induction s arbitrary: p) (auto simp: Let_def)

lemma nick_of_ok:
  assumes "c_str buf p = Inr s"
  shows "\<exists>buf'. nick_of buf (Some p) = Inr buf' \<and> length buf' = length buf \<and> c_str buf' p = Inr (nick_text (Some s)) \<and>
    (\<forall>j t. c_str buf j = Inr t \<and> p + length s < j \<longrightarrow> c_str buf' j = Inr t)"
proof -
  from assms obtain rest where r: "drop p buf = s @ 0 # rest" "0 \<notin> set s" by (rule c_strE)
  define n where "n = length (takeWhile (\<lambda>c. c \<noteq> 33 \<and> c \<noteq> 64) s)"
  have nick: "nick_text (Some s) = take n s" by (simp add: nick_text_def n_def takeWhile_eq_take [symmetric])
  have run: "nick_of buf (Some p) = (if n < length s then wr buf (p + n) 0 else Inr buf)"
    using nick_scan_ok [OF r(2)] by (simp add: nick_of_def r(1) n_def Let_def)
  show ?thesis
  proof (cases "n < length s")
    case True
    then have "p + n < length buf" using c_str_nth(1) [OF assms] by simp
    then show ?thesis
      using True c_str_cut(1) [OF assms True] c_str_keep by (auto simp: run nick wr_def)
  qed (use assms in \<open>simp add: run nick\<close>)
qed

end
