(* ===== verification/Irc.thy ===== *)
theory Irc
  imports Irc_Text
begin

text \<open>
  The IRC client, \<^verbatim>\<open>irc.c\<close>: the lines of the server are assembled, parsed in place and logged, the
  lines typed become messages or commands. What the server makes the client send is only noted
  while a line is parsed, and sent afterwards. Functions that \<^verbatim>\<open>tcp_chat.c\<close> has under the same
  name carry the prefix \<open>irc\<close> here.
\<close>

section \<open>State and screen\<close>

abbreviation IRC_MAX_INPUT :: nat where "IRC_MAX_INPUT \<equiv> 100"
abbreviation RX_LINE :: nat where "RX_LINE \<equiv> 320"
abbreviation OUT_LINE :: nat where "OUT_LINE \<equiv> 256"
abbreviation MAX_NICK :: nat where "MAX_NICK \<equiv> 16"
abbreviation MAX_CHAN :: nat where "MAX_CHAN \<equiv> 32"

record irc = terminal +
  rxline :: bytes
  rxlen :: nat
  out_line :: bytes
  out_len :: nat
  mynick :: bytes
  cur_chan :: bytes
  pong_arg :: bytes
  pong_pending :: bool
  join_pending :: bool
  emit_n :: nat

definition irc_draw_input :: "irc \<Rightarrow> irc res" where
  "irc_draw_input c =
     rbind (draw_row (input c) (input_len c)) (\<lambda>row.
     rbind (rd_bytes row 0 SCREEN_COLS) (\<lambda>cs. Inr (putcs (at INPUT_ROW 0 @ cs @ at INPUT_ROW 0) c)))"

definition emit_start :: "irc \<Rightarrow> irc" where
  "emit_start c = (putcs (at INPUT_ROW 0) c)\<lparr>emit_n := 0\<rparr>"

text \<open>\<^verbatim>\<open>emit\<close>, for a string that has been read from its array.\<close>

fun emit :: "bytes \<Rightarrow> irc \<Rightarrow> irc" where
  "emit [] c = c"
| "emit (ch # s) c =
     (let ch = (if ch = 9 then 32 else ch) in
      if ch < 32 \<or> ch > 126 then emit s c
      else emit s ((putcs [ch] c)\<lparr>emit_n := emit_n c + 1\<rparr>))"

definition emit_end :: "irc \<Rightarrow> irc res" where
  "emit_end c =
     (let pad = pad_loop (emit_n c) in
      irc_draw_input (putcs [10] ((putcs pad c)\<lparr>emit_n := emit_n c + length pad\<rparr>)))"

definition irc_log_line :: "bytes \<Rightarrow> irc \<Rightarrow> irc res" where
  "irc_log_line s c = emit_end (emit s (emit_start c))"

definition log_line2 :: "bytes \<Rightarrow> bytes \<Rightarrow> irc \<Rightarrow> irc res" where
  "log_line2 a b c = emit_end (emit b (emit a (emit_start c)))"

definition log_line4 :: "bytes \<Rightarrow> bytes \<Rightarrow> bytes \<Rightarrow> bytes \<Rightarrow> irc \<Rightarrow> irc res" where
  "log_line4 a b c d st = emit_end (emit d (emit c (emit b (emit a (emit_start st)))))"

lemma emit_keeps [simp]:
  "tcp (emit s c) = tcp c" "input (emit s c) = input c" "input_len (emit s c) = input_len c"
  "window_open (emit s c) = window_open c" "rxline (emit s c) = rxline c" "rxlen (emit s c) = rxlen c"
  "out_line (emit s c) = out_line c" "out_len (emit s c) = out_len c" "mynick (emit s c) = mynick c"
  "cur_chan (emit s c) = cur_chan c" "pong_arg (emit s c) = pong_arg c"
  "pong_pending (emit s c) = pong_pending c" "join_pending (emit s c) = join_pending c"
  by (induction s arbitrary: c) (simp_all add: Let_def putcs_def)

section \<open>What the server sends\<close>

text \<open>The next parameter of the received line.\<close>

definition rx_param :: "nat \<Rightarrow> irc \<Rightarrow> (irc \<times> nat \<times> nat) res" where
  "rx_param p c = rbind (next_param (rxline c) p) (\<lambda>(buf, q, p). Inr (c\<lparr>rxline := buf\<rparr>, q, p))"

text \<open>\<^verbatim>\<open>next_param\<close> always moves on, so that the loop over the parameters ends.\<close>

lemma skip_word_mono: "skip_word cs p = Inr q \<Longrightarrow> p \<le> q"
  by (induction cs arbitrary: p) (force split: if_splits)+

lemma skip_spaces_mono: "skip_spaces cs p = Inr q \<Longrightarrow> p \<le> q"
  by (induction cs arbitrary: p) (force split: if_splits)+

lemma next_word_progress:
  "next_word buf p = Inr (buf', s, p') \<Longrightarrow> length buf' = length buf \<and> p \<le> p' \<and> (rd buf p = Inr ch \<and> ch \<noteq> 0 \<longrightarrow> p < p')"
proof -
  assume a: "next_word buf p = Inr (buf', s, p')"
  then obtain start q ch' where q: "skip_spaces (drop p buf) p = Inr start" "skip_word (drop start buf) start = Inr q"
    "rd buf q = Inr ch'" "if ch' \<noteq> 0 then buf' = buf[q := 0] \<and> p' = q + 1 else buf' = buf \<and> p' = q"
    by (auto simp: next_word_def wr_def rbind_eq_Inr_iff split: if_splits)
  have "p \<le> start" "start \<le> q" using skip_spaces_mono [OF q(1)] skip_word_mono [OF q(2)] .
  then show ?thesis using q(3,4) by (cases "p = q") (auto split: if_splits)
qed

lemma next_param_progress:
  assumes "next_param buf p = Inr (buf', s, p')" and "rd buf p = Inr ch" and "ch \<noteq> 0"
  shows "length buf' = length buf \<and> p < p'"
proof -
  from assms(1) obtain q ch' where q: "skip_spaces (drop p buf) p = Inr q" "rd buf q = Inr ch'"
    "if ch' = 58 then buf' = buf \<and> q + 1 \<le> p' else next_word buf q = Inr (buf', s, p')"
    by (auto simp: next_param_def rbind_eq_Inr_iff split: if_splits)
  have "p \<le> q" using skip_spaces_mono [OF q(1)] .
  then show ?thesis
    using q(2,3) assms(2,3) next_word_progress [of buf q buf' s p' ch'] by (cases "p = q") (auto split: if_splits)
qed

function emit_params :: "nat \<Rightarrow> irc \<Rightarrow> irc res" where
  "emit_params p c =
     rbind (rd (rxline c) p) (\<lambda>ch.
     if ch \<noteq> 0 then
       rbind (rx_param p c) (\<lambda>(c, q, p).
       rbind (c_str (rxline c) q) (\<lambda>s. emit_params p (emit (asc '' '') (emit s c))))
     else Inr c)"
  by pat_completeness auto
termination
proof (relation "measure (\<lambda>(p, c). length (rxline c) - p)", simp)
  fix p c ch x c' y q p' s
  assume a: "rd (rxline c) p = Inr ch" "ch \<noteq> 0" "rx_param p c = Inr x" "(c', y) = x" "(q, p') = y"
  from a(3) [folded a(4), folded a(5)] have "next_param (rxline c) p = Inr (rxline c', q, p')"
    by (auto simp: rx_param_def rbind_eq_Inr_iff)
  from next_param_progress [OF this a(1,2)] a(1) show
    "((p', emit (asc '' '') (emit s c')), p, c) \<in> measure (\<lambda>(p, c). length (rxline c) - p)"
    by (auto simp: rd_def split: if_splits)
qed

declare emit_params.simps [simp del]

text \<open>\<^verbatim>\<open>log_line4\<close> with the nick of the sender and a string of the received line.\<close>

definition log_nick :: "bytes \<Rightarrow> nat option \<Rightarrow> bytes \<Rightarrow> nat \<Rightarrow> irc \<Rightarrow> irc res" where
  "log_nick a prefix b q c =
     rbind (c_str (nick_ptr (rxline c) prefix) 0) (\<lambda>nick.
     rbind (c_str (rxline c) q) (\<lambda>s. log_line4 a nick b s c))"

definition show_numeric :: "bytes \<Rightarrow> nat \<Rightarrow> irc \<Rightarrow> irc res" where
  "show_numeric cmd p c =
     rbind (rx_param p c) (\<lambda>(c, _, p).
     rbind (emit_params p (emit_start c)) (\<lambda>c.
     rbind (emit_end c) (\<lambda>c.
     if cmd = asc ''433'' then irc_log_line (asc ''*** nick already in use, pick another with /nick'') c else Inr c)))"

definition show_privmsg :: "bytes \<Rightarrow> nat option \<Rightarrow> nat \<Rightarrow> irc \<Rightarrow> irc res" where
  "show_privmsg cmd prefix p c =
     rbind (rx_param p c) (\<lambda>(c, target, p).
     rbind (rx_param p c) (\<lambda>(c, txt, p).
     rbind (c_str (rxline c) txt) (\<lambda>s.
     if s \<noteq> [] \<and> hd s = 1 \<and> take 7 (tl s) = asc ''ACTION '' then log_nick (asc ''* '') prefix (asc '' '') (txt + 8) c
     else if cmd = asc ''NOTICE'' then log_nick (asc ''-'') prefix (asc ''- '') txt c
     else rbind (is_channel (rxline c) target) (\<lambda>ch.
       if ch then log_nick (asc ''<'') prefix (asc ''> '') txt c
       else log_nick (asc ''*'') prefix (asc ''* '') txt c))))"

definition show_nick :: "nat option \<Rightarrow> nat \<Rightarrow> irc \<Rightarrow> irc res" where
  "show_nick prefix p c =
     rbind (rx_param p c) (\<lambda>(c, txt, p).
     rbind (same (nick_ptr (rxline c) prefix) (mynick c)) (\<lambda>me.
     rbind (if me then str_copy (mynick c) (rxline c) txt (MAX_NICK + 1) else Inr (mynick c)) (\<lambda>nick.
       log_nick (asc ''* '') prefix (asc '' is now known as '') txt (c\<lparr>mynick := nick\<rparr>))))"

text \<open>The rest of \<^verbatim>\<open>handle_server_line\<close>, from \<^verbatim>\<open>nick = nick_of(prefix)\<close> on; \<open>s\<close> is the string at \<^verbatim>\<open>cmd\<close>.\<close>

definition server_message :: "bytes \<Rightarrow> nat \<Rightarrow> nat option \<Rightarrow> nat \<Rightarrow> irc \<Rightarrow> irc res" where
  "server_message s cmd prefix p c =
     rbind (nick_of (rxline c) prefix) (\<lambda>buf.
     let c = c\<lparr>rxline := buf\<rparr> in
     if s = asc ''PRIVMSG'' \<or> s = asc ''NOTICE'' then show_privmsg s prefix p c
     else if s = asc ''JOIN'' then
       rbind (rx_param p c) (\<lambda>(c, q, _). log_nick (asc ''* '') prefix (asc '' joined '') q c)
     else if s = asc ''PART'' then
       rbind (rx_param p c) (\<lambda>(c, q, _). log_nick (asc ''* '') prefix (asc '' left '') q c)
     else if s = asc ''QUIT'' then
       rbind (rx_param p c) (\<lambda>(c, q, _). log_nick (asc ''* '') prefix (asc '' quit: '') q c)
     else if s = asc ''NICK'' then show_nick prefix p c
     else if s = asc ''KICK'' then
       rbind (rx_param p c) (\<lambda>(c, q, _). log_nick (asc ''* '') prefix (asc '' kicked out of '') q c)
     else if s = asc ''TOPIC'' then
       rbind (rx_param p c) (\<lambda>(c, _, p).
       rbind (rx_param p c) (\<lambda>(c, q, _). log_nick (asc ''* '') prefix (asc '' set the topic: '') q c))
     else if s = asc ''MODE'' then log_nick (asc ''* '') prefix (asc '' sets mode '') p c
     else if s = asc ''ERROR'' then rbind (c_str (rxline c) p) (\<lambda>t. log_line2 (asc ''*** '') t c)
     else rbind (is_numeric 3 (rxline c) cmd) (\<lambda>num.
       if num then
         rbind (rd (cur_chan c) 0) (\<lambda>ch.
           show_numeric s p (if s = asc ''001'' \<and> ch \<noteq> 0 then c\<lparr>join_pending := True\<rparr> else c))
       else
         rbind (emit_params p (emit (asc '' '') (emit s (emit_start c)))) emit_end))"

definition handle_server_line :: "irc \<Rightarrow> irc res" where
  "handle_server_line c =
     rbind (rd (rxline c) 0) (\<lambda>ch.
     rbind (if ch = 58 then rbind (next_word (rxline c) 1) (\<lambda>(buf, q, p). Inr (buf, Some q, p))
            else Inr (rxline c, None, 0)) (\<lambda>(buf, prefix, p).
     rbind (next_word buf p) (\<lambda>(buf, cmd, p).
     rbind (c_str buf cmd) (\<lambda>s.
     if s = [] then Inr (c\<lparr>rxline := buf\<rparr>)
     else if s = asc ''PING'' then
       rbind (next_param buf p) (\<lambda>(buf, q, p).
       rbind (str_copy (pong_arg c) buf q 64) (\<lambda>a.
         Inr (c\<lparr>rxline := buf, pong_arg := a, pong_pending := True\<rparr>)))
     else server_message s cmd prefix p (c\<lparr>rxline := buf\<rparr>)))))"

definition rx_char :: "u8 \<Rightarrow> irc \<Rightarrow> irc res" where
  "rx_char ch c =
     (if ch = 13 then Inr c
      else if ch = 10 then
        rbind (wr (rxline c) (rxlen c) 0) (\<lambda>l. handle_server_line (c\<lparr>rxline := l, rxlen := 0\<rparr>))
      else if rxlen c < RX_LINE - 1 then
        rbind (wr (rxline c) (rxlen c) ch) (\<lambda>l. Inr (c\<lparr>rxline := l, rxlen := rxlen c + 1\<rparr>))
      else Inr c)"

fun irc_show_data :: "bytes \<Rightarrow> nat \<Rightarrow> irc \<Rightarrow> irc res" where
  "irc_show_data data 0 c = Inr c"
| "irc_show_data [] (Suc len) c = Inl OutOfBounds"
| "irc_show_data (b # data) (Suc len) c = rbind (rx_char b c) (irc_show_data data len)"

section \<open>Sending\<close>

text \<open>\<^verbatim>\<open>o_str\<close>: \<open>s\<close> is the array from the pointer on.\<close>

fun o_loop :: "bytes \<Rightarrow> bytes \<Rightarrow> nat \<Rightarrow> (bytes \<times> nat) res" where
  "o_loop [] obuf len = Inl OutOfBounds"
| "o_loop (ch # s) obuf len =
     (if ch \<noteq> 0 \<and> len < OUT_LINE - 2 then rbind (wr obuf len ch) (\<lambda>obuf. o_loop s obuf (len + 1)) else Inr (obuf, len))"

definition o_str :: "bytes \<Rightarrow> irc \<Rightarrow> irc res" where
  "o_str s c = rbind (o_loop s (out_line c) (out_len c)) (\<lambda>(obuf, len). Inr (c\<lparr>out_line := obuf, out_len := len\<rparr>))"

fun irc_drain :: "'d platform \<Rightarrow> nat \<Rightarrow> nat \<Rightarrow> irc \<Rightarrow> 'd \<Rightarrow> (irc \<times> 'd) res" where
  "irc_drain pf fuel 0 c d = Inr (c, d)"
| "irc_drain pf fuel (Suc left) c d =
     rbind (tcp_recv_timeout pf fuel (tcp c) 0 POLL_TICKS d) (\<lambda>(rc, t, d).
     let c = c\<lparr>tcp := t\<rparr> in
     rbind (if rc > 0 then irc_show_data (tcp_rx_buffer (tcp c)) (nat rc) c else Inr c) (\<lambda>c.
       irc_drain pf fuel left c d))"

definition o_send :: "'d platform \<Rightarrow> nat \<Rightarrow> irc \<Rightarrow> 'd \<Rightarrow> (irc \<times> 'd) res" where
  "o_send pf fuel c d =
     rbind (tcp_send pf fuel (tcp c) 0 None 0 d) (\<lambda>(_, t, d).
     rbind (irc_drain pf fuel 3 (c\<lparr>tcp := t, window_open := False\<rparr>) d) (\<lambda>(c, d).
     rbind (wr (out_line c) (out_len c) 13) (\<lambda>obuf.
     rbind (wr obuf (out_len c + 1) 10) (\<lambda>obuf.
     rbind (tcp_send pf fuel (tcp c) (out_len c + 2) (Some obuf) 0 d) (\<lambda>(rc, t, d).
     let c = c\<lparr>tcp := t, window_open := False, out_line := obuf, out_len := 0\<rparr> in
     rbind (if rc < 0 then irc_log_line (asc ''*** send failed'') c else Inr c) (\<lambda>c. Inr (c, d)))))))"

definition flush_pending :: "'d platform \<Rightarrow> nat \<Rightarrow> irc \<Rightarrow> 'd \<Rightarrow> (irc \<times> 'd) res" where
  "flush_pending pf fuel c d =
     rbind (if pong_pending c then
              rbind (o_str (lit ''PONG :'') (c\<lparr>pong_pending := False\<rparr>)) (\<lambda>c.
              rbind (o_str (pong_arg c) c) (\<lambda>c. o_send pf fuel c d))
            else Inr (c, d)) (\<lambda>(c, d).
     if join_pending c then
       let c = c\<lparr>join_pending := False\<rparr> in
       rbind (rd (cur_chan c) 0) (\<lambda>ch.
         if ch \<noteq> 0 then
           rbind (o_str (lit ''JOIN '') c) (\<lambda>c.
           rbind (o_str (cur_chan c) c) (\<lambda>c. o_send pf fuel c d))
         else Inr (c, d))
     else Inr (c, d))"

definition irc_poll_net :: "'d platform \<Rightarrow> nat \<Rightarrow> irc \<Rightarrow> 'd \<Rightarrow> (int \<times> irc \<times> 'd) res" where
  "irc_poll_net pf fuel c d =
     rbind (if \<not> window_open c
            then rbind (tcp_send pf fuel (tcp c) 0 None RX_WINDOW d) (\<lambda>(_, t, d).
                   Inr (c\<lparr>tcp := t, window_open := True\<rparr>, d))
            else Inr (c, d)) (\<lambda>(c, d).
     rbind (tcp_recv_timeout pf fuel (tcp c) 0 POLL_TICKS d) (\<lambda>(rc, t, d).
     let c = c\<lparr>tcp := t\<rparr> in
     if rc = - EAGAIN pf then Inr (0, c, d)
     else if rc = - ERESET then
       rbind (irc_log_line (asc ''*** connection reset by peer'') c) (\<lambda>c. Inr (- 1, c, d))
     else if rc < 0 then Inr (0, c, d)
     else if rc > 0 then
       rbind (irc_show_data (tcp_rx_buffer (tcp c)) (nat rc) (c\<lparr>window_open := False\<rparr>)) (\<lambda>c. Inr (0, c, d))
     else
       rbind (rd (tcp_pkt (tcp c)) (20 + 13)) (\<lambda>fl.
         if fl AND TCP_FIN \<noteq> 0 then
           rbind (irc_log_line (asc ''*** server closed the connection'') c) (\<lambda>c. Inr (- 1, c, d))
         else Inr (0, c, d))))"

section \<open>What is typed\<close>

definition clear_input :: "irc \<Rightarrow> irc res" where
  "clear_input c = irc_draw_input (c\<lparr>input_len := 0\<rparr>)"

text \<open>The two ways in which most commands end: a line sent, or a message about the usage.\<close>

definition clear_send :: "'d platform \<Rightarrow> nat \<Rightarrow> irc \<Rightarrow> 'd \<Rightarrow> (irc \<times> 'd) res" where
  "clear_send pf fuel c d = rbind (clear_input c) (\<lambda>c. o_send pf fuel c d)"

definition usage :: "string \<Rightarrow> irc \<Rightarrow> 'd \<Rightarrow> (int \<times> irc \<times> 'd) res" where
  "usage s c d = rbind (clear_input c) (\<lambda>c. rbind (irc_log_line (asc s) c) (\<lambda>c. Inr (0, c, d)))"

definition irc_help :: "irc \<Rightarrow> irc res" where
  "irc_help c =
     rbind (irc_log_line (asc ''*** /join #chan       /part [reason]     /nick name'') c) (\<lambda>c.
     rbind (irc_log_line (asc ''*** /msg nick text    /me action         /names'') c) (\<lambda>c.
     rbind (irc_log_line (asc ''*** /topic [text]     /raw irc command   /quit [reason]'') c) (\<lambda>c.
     irc_log_line (asc ''*** anything else is said on the current channel'') c)))"

definition say_line :: "'d platform \<Rightarrow> nat \<Rightarrow> irc \<Rightarrow> 'd \<Rightarrow> (int \<times> irc \<times> 'd) res" where
  "say_line pf fuel c d =
     rbind (rd (cur_chan c) 0) (\<lambda>ch.
     if ch = 0 then
       rbind (irc_log_line (asc ''*** you are not on a channel, try /join #chan'') c) (\<lambda>c.
       rbind (clear_input c) (\<lambda>c. Inr (0, c, d)))
     else
       rbind (o_str (lit ''PRIVMSG '') c) (\<lambda>c.
       rbind (o_str (cur_chan c) c) (\<lambda>c.
       rbind (o_str (lit '' :'') c) (\<lambda>c.
       rbind (o_str (input c) c) (\<lambda>c.
       rbind (clear_send pf fuel c d) (\<lambda>(c, d).
       rbind (c_str (mynick c) 0) (\<lambda>nick.
       rbind (c_str (input c) 0) (\<lambda>s.
       rbind (log_line4 (asc ''<'') nick (asc ''> '') s c) (\<lambda>c. Inr (0, c, d))))))))))"

text \<open>The commands; \<open>arg\<close> is the pointer to the argument in the input line.\<close>

definition cmd_join :: "'d platform \<Rightarrow> nat \<Rightarrow> nat \<Rightarrow> irc \<Rightarrow> 'd \<Rightarrow> (int \<times> irc \<times> 'd) res" where
  "cmd_join pf fuel arg c d =
     rbind (is_channel (input c) arg) (\<lambda>ch.
     if \<not> ch then usage ''*** usage: /join #channel'' c d
     else
       rbind (next_word (input c) arg) (\<lambda>(inp, q, _).
       rbind (str_copy (cur_chan c) inp q (MAX_CHAN + 1)) (\<lambda>chan.
       rbind (o_str (lit ''JOIN '') (c\<lparr>input := inp, cur_chan := chan\<rparr>)) (\<lambda>c.
       rbind (o_str (cur_chan c) c) (\<lambda>c.
       rbind (clear_send pf fuel c d) (\<lambda>(c, d). Inr (0, c, d)))))))"

text \<open>An optional last argument of \<^verbatim>\<open>/part\<close> and \<^verbatim>\<open>/topic\<close>.\<close>

definition o_trailing :: "nat \<Rightarrow> irc \<Rightarrow> irc res" where
  "o_trailing arg c =
     rbind (rd (input c) arg) (\<lambda>ch.
     if ch \<noteq> 0 then rbind (o_str (lit '' :'') c) (\<lambda>c. o_str (drop arg (input c)) c) else Inr c)"

definition cmd_part :: "'d platform \<Rightarrow> nat \<Rightarrow> nat \<Rightarrow> irc \<Rightarrow> 'd \<Rightarrow> (int \<times> irc \<times> 'd) res" where
  "cmd_part pf fuel arg c d =
     rbind (rd (cur_chan c) 0) (\<lambda>ch.
     if ch = 0 then usage ''*** you are not on a channel'' c d
     else
       rbind (o_str (lit ''PART '') c) (\<lambda>c.
       rbind (o_str (cur_chan c) c) (\<lambda>c.
       rbind (o_trailing arg c) (\<lambda>c.
       rbind (wr (cur_chan c) 0 0) (\<lambda>chan.
       rbind (clear_send pf fuel (c\<lparr>cur_chan := chan\<rparr>) d) (\<lambda>(c, d). Inr (0, c, d)))))))"

definition cmd_nick :: "'d platform \<Rightarrow> nat \<Rightarrow> nat \<Rightarrow> irc \<Rightarrow> 'd \<Rightarrow> (int \<times> irc \<times> 'd) res" where
  "cmd_nick pf fuel arg c d =
     rbind (rd (input c) arg) (\<lambda>ch.
     if ch = 0 then usage ''*** usage: /nick newname'' c d
     else
       rbind (o_str (lit ''NICK '') c) (\<lambda>c.
       rbind (o_str (drop arg (input c)) c) (\<lambda>c.
       rbind (clear_send pf fuel c d) (\<lambda>(c, d). Inr (0, c, d)))))"

definition cmd_msg :: "'d platform \<Rightarrow> nat \<Rightarrow> nat \<Rightarrow> irc \<Rightarrow> 'd \<Rightarrow> (int \<times> irc \<times> 'd) res" where
  "cmd_msg pf fuel arg c d =
     rbind (next_word (input c) arg) (\<lambda>(inp, to, arg).
     let c = c\<lparr>input := inp\<rparr> in
     rbind (rd (input c) to) (\<lambda>ch1.
     rbind (rd (input c) arg) (\<lambda>ch2.
     if ch1 = 0 \<or> ch2 = 0 then usage ''*** usage: /msg nick text'' c d
     else
       rbind (o_str (lit ''PRIVMSG '') c) (\<lambda>c.
       rbind (o_str (drop to (input c)) c) (\<lambda>c.
       rbind (o_str (lit '' :'') c) (\<lambda>c.
       rbind (o_str (drop arg (input c)) c) (\<lambda>c.
       rbind (clear_send pf fuel c d) (\<lambda>(c, d).
       rbind (c_str (input c) to) (\<lambda>s.
       rbind (c_str (input c) arg) (\<lambda>t.
       rbind (log_line4 (asc ''>'') s (asc ''< '') t c) (\<lambda>c. Inr (0, c, d))))))))))))"

definition cmd_me :: "'d platform \<Rightarrow> nat \<Rightarrow> nat \<Rightarrow> irc \<Rightarrow> 'd \<Rightarrow> (int \<times> irc \<times> 'd) res" where
  "cmd_me pf fuel arg c d =
     rbind (rd (cur_chan c) 0) (\<lambda>ch1.
     rbind (rd (input c) arg) (\<lambda>ch2.
     if ch1 = 0 \<or> ch2 = 0 then usage ''*** usage: /me does something, on a channel'' c d
     else
       rbind (o_str (lit ''PRIVMSG '') c) (\<lambda>c.
       rbind (o_str (cur_chan c) c) (\<lambda>c.
       rbind (o_str (asc '' :'' @ [1] @ asc ''ACTION '' @ [0]) c) (\<lambda>c.
       rbind (o_str (drop arg (input c)) c) (\<lambda>c.
       rbind (o_str [1, 0] c) (\<lambda>c.
       rbind (clear_send pf fuel c d) (\<lambda>(c, d).
       rbind (c_str (mynick c) 0) (\<lambda>nick.
       rbind (c_str (input c) arg) (\<lambda>s.
       rbind (log_line4 (asc ''* '') nick (asc '' '') s c) (\<lambda>c. Inr (0, c, d))))))))))))"

definition cmd_names :: "'d platform \<Rightarrow> nat \<Rightarrow> nat \<Rightarrow> irc \<Rightarrow> 'd \<Rightarrow> (int \<times> irc \<times> 'd) res" where
  "cmd_names pf fuel arg c d =
     rbind (rd (input c) arg) (\<lambda>ch1.
     rbind (rd (cur_chan c) 0) (\<lambda>ch2.
     if ch1 = 0 \<and> ch2 = 0 then usage ''*** usage: /names #channel'' c d
     else
       rbind (o_str (lit ''NAMES '') c) (\<lambda>c.
       rbind (o_str (if ch1 \<noteq> 0 then drop arg (input c) else cur_chan c) c) (\<lambda>c.
       rbind (clear_send pf fuel c d) (\<lambda>(c, d). Inr (0, c, d))))))"

definition cmd_topic :: "'d platform \<Rightarrow> nat \<Rightarrow> nat \<Rightarrow> irc \<Rightarrow> 'd \<Rightarrow> (int \<times> irc \<times> 'd) res" where
  "cmd_topic pf fuel arg c d =
     rbind (rd (cur_chan c) 0) (\<lambda>ch.
     if ch = 0 then usage ''*** you are not on a channel'' c d
     else
       rbind (o_str (lit ''TOPIC '') c) (\<lambda>c.
       rbind (o_str (cur_chan c) c) (\<lambda>c.
       rbind (o_trailing arg c) (\<lambda>c.
       rbind (clear_send pf fuel c d) (\<lambda>(c, d). Inr (0, c, d))))))"

definition cmd_raw :: "'d platform \<Rightarrow> nat \<Rightarrow> nat \<Rightarrow> irc \<Rightarrow> 'd \<Rightarrow> (int \<times> irc \<times> 'd) res" where
  "cmd_raw pf fuel arg c d =
     rbind (rd (input c) arg) (\<lambda>ch.
     if ch = 0 then usage ''*** usage: /raw WHOIS someone'' c d
     else
       rbind (o_str (drop arg (input c)) c) (\<lambda>c.
       rbind (clear_send pf fuel c d) (\<lambda>(c, d). Inr (0, c, d))))"

definition cmd_quit :: "'d platform \<Rightarrow> nat \<Rightarrow> nat \<Rightarrow> irc \<Rightarrow> 'd \<Rightarrow> (int \<times> irc \<times> 'd) res" where
  "cmd_quit pf fuel arg c d =
     rbind (o_str (lit ''QUIT :'') c) (\<lambda>c.
     rbind (rd (input c) arg) (\<lambda>ch.
     rbind (o_str (if ch \<noteq> 0 then drop arg (input c) else lit ''spectrum signing off'') c) (\<lambda>c.
     rbind (clear_send pf fuel c d) (\<lambda>(c, d). Inr (- 1, c, d)))))"

text \<open>Whether the command is one of these names.\<close>

fun is_cmd :: "bytes \<Rightarrow> string list \<Rightarrow> bool res" where
  "is_cmd cmd [] = Inr False"
| "is_cmd cmd (s # ss) = rbind (same cmd (lit s)) (\<lambda>b. if b then Inr True else is_cmd cmd ss)"

definition rif :: "bool res \<Rightarrow> 'a res \<Rightarrow> 'a res \<Rightarrow> 'a res" where
  "rif b x y = rbind b (\<lambda>b. if b then x else y)"

definition run_command :: "'d platform \<Rightarrow> nat \<Rightarrow> irc \<Rightarrow> 'd \<Rightarrow> (int \<times> irc \<times> 'd) res" where
  "run_command pf fuel c d =
     rbind (next_word (input c) 1) (\<lambda>(inp, cmd, p).
     let c = c\<lparr>input := inp\<rparr> in
     rbind (skip_spaces (drop p (input c)) p) (\<lambda>arg.
     let is = (\<lambda>ss. is_cmd (drop cmd (input c)) ss) in
     rif (is [''help'', ''h'']) (rbind (clear_input c) (\<lambda>c. rbind (irc_help c) (\<lambda>c. Inr (0, c, d))))
     (rif (is [''join'', ''j'']) (cmd_join pf fuel arg c d)
     (rif (is [''part'']) (cmd_part pf fuel arg c d)
     (rif (is [''nick'']) (cmd_nick pf fuel arg c d)
     (rif (is [''msg'', ''m'']) (cmd_msg pf fuel arg c d)
     (rif (is [''me'']) (cmd_me pf fuel arg c d)
     (rif (is [''names'']) (cmd_names pf fuel arg c d)
     (rif (is [''topic'']) (cmd_topic pf fuel arg c d)
     (rif (is [''raw'', ''quote'']) (cmd_raw pf fuel arg c d)
     (rif (is [''quit'']) (cmd_quit pf fuel arg c d)
     (rbind (clear_input c) (\<lambda>c.
      rbind (c_str (input c) cmd) (\<lambda>s.
      rbind (log_line2 (asc ''*** no such command, try /help: /'') s c) (\<lambda>c. Inr (0, c, d))))))))))))))))"

definition handle_input_line :: "'d platform \<Rightarrow> nat \<Rightarrow> irc \<Rightarrow> 'd \<Rightarrow> (int \<times> irc \<times> 'd) res" where
  "handle_input_line pf fuel c d =
     (if input_len c = 0 then Inr (0, c, d)
      else
        rbind (wr (input c) (input_len c) 0) (\<lambda>inp.
        let c = c\<lparr>input := inp\<rparr> in
        rbind (rd (input c) 0) (\<lambda>ch.
        if ch \<noteq> 47 then say_line pf fuel c d else run_command pf fuel c d)))"

definition irc_handle_key :: "'d platform \<Rightarrow> nat \<Rightarrow> u16 \<Rightarrow> irc \<Rightarrow> 'd \<Rightarrow> (int \<times> irc \<times> 'd) res" where
  "irc_handle_key pf fuel k c d =
     (if k = KEY_ENTER then handle_input_line pf fuel c d
      else if k = KEY_LEFT \<or> k = KEY_DELETE \<or> k = KEY_CTRL_DEL then
        (if input_len c \<noteq> 0 then rbind (irc_draw_input (c\<lparr>input_len := input_len c - 1\<rparr>)) (\<lambda>c. Inr (0, c, d))
         else Inr (0, c, d))
      else if k = KEY_QUIT then
        rbind (o_str (lit ''QUIT :spectrum signing off'') c) (\<lambda>c.
        rbind (o_send pf fuel c d) (\<lambda>(c, d). Inr (- 1, c, d)))
      else if 32 \<le> k \<and> k < 127 \<and> input_len c < IRC_MAX_INPUT then
        rbind (wr (input c) (input_len c) (ucast k)) (\<lambda>inp.
        rbind (irc_draw_input (c\<lparr>input := inp, input_len := input_len c + 1\<rparr>)) (\<lambda>c. Inr (0, c, d)))
      else Inr (0, c, d))"

section \<open>The main program\<close>

definition irc_turn ::
  "'d platform \<Rightarrow> 'k keyboard \<Rightarrow> nat \<Rightarrow> irc \<Rightarrow> 'k \<Rightarrow> 'd \<Rightarrow> (bool \<times> irc \<times> 'k \<times> 'd) res" where
  "irc_turn pf kb fuel c ks d =
     (let (k, ks) = in_GetKey kb ks in
      rbind (if k \<noteq> 0 then irc_handle_key pf fuel k c d else Inr (0, c, d)) (\<lambda>(rc, c, d).
      if rc < 0 then Inr (False, c, ks, d)
      else
        rbind (irc_poll_net pf fuel c d) (\<lambda>(rc, c, d).
        if rc < 0 then Inr (False, c, ks, d)
        else rbind (flush_pending pf fuel c d) (\<lambda>(c, d). Inr (True, c, ks, d)))))"

fun irc_loop :: "'d platform \<Rightarrow> 'k keyboard \<Rightarrow> nat \<Rightarrow> irc \<Rightarrow> 'k \<Rightarrow> 'd \<Rightarrow> (irc \<times> 'k \<times> 'd) res" where
  "irc_loop pf kb 0 c ks d = Inl OutOfFuel"
| "irc_loop pf kb (Suc fuel) c ks d =
     rbind (irc_turn pf kb fuel c ks d) (\<lambda>(go, c, ks, d).
       if go then irc_loop pf kb fuel c ks d else Inr (c, ks, d))"

definition irc_init :: irc where
  "irc_init = \<lparr>tcp = tcp_static, input = replicate (IRC_MAX_INPUT + 2) 0, input_len = 0, window_open = False, outp = [],
     rxline = replicate RX_LINE 0, rxlen = 0, out_line = replicate OUT_LINE 0, out_len = 0,
     mynick = replicate (MAX_NICK + 1) 0, cur_chan = replicate (MAX_CHAN + 1) 0, pong_arg = replicate 64 0,
     pong_pending = False, join_pending = False, emit_n = 0\<rparr>"

text \<open>The loop that asks for the nick until there is one, and the question for the channel.\<close>

fun ask_nick :: "'k keyboard \<Rightarrow> nat \<Rightarrow> bytes \<Rightarrow> irc \<Rightarrow> 'k \<Rightarrow> (bytes \<times> irc \<times> 'k) res" where
  "ask_nick kb 0 line c ks = Inl OutOfFuel"
| "ask_nick kb (Suc fuel) line c ks =
     rbind (rd (mynick c) 0) (\<lambda>ch.
     if ch \<noteq> 0 then Inr (line, c, ks)
     else
       rbind (read_line kb fuel line (length line) ks) (\<lambda>(line, out, ks).
       let c = putcs (asc ''Nick: '' @ out) c in
       rbind (next_word line 0) (\<lambda>(line, q, _).
       rbind (str_copy (mynick c) line q (MAX_NICK + 1)) (\<lambda>nick.
         ask_nick kb fuel line (c\<lparr>mynick := nick\<rparr>) ks))))"

definition ask_channel :: "'k keyboard \<Rightarrow> nat \<Rightarrow> bytes \<Rightarrow> irc \<Rightarrow> 'k \<Rightarrow> (irc \<times> 'k) res" where
  "ask_channel kb fuel line c ks =
     rbind (read_line kb fuel line (length line) ks) (\<lambda>(line, out, ks).
     let c = putcs (asc ''Channel (empty for none): '' @ out) c in
     rbind (next_word line 0) (\<lambda>(line, q, _).
     rbind (str_copy (cur_chan c) line q (MAX_CHAN + 1)) (\<lambda>chan.
     rbind (rd chan 0) (\<lambda>ch.
     rbind (is_channel chan 0) (\<lambda>ok.
     if ch \<noteq> 0 \<and> \<not> ok then
       rbind (wr chan 0 0) (\<lambda>chan.
         Inr (putcs (asc ''Channels start with #, ignoring it.'' @ [10]) (c\<lparr>cur_chan := chan\<rparr>), ks))
     else Inr (c\<lparr>cur_chan := chan\<rparr>, ks))))))"

text \<open>\<^verbatim>\<open>main\<close> up to the call of \<^verbatim>\<open>slip_init\<close>; \<open>line\<close> is its uninitialised array.\<close>

definition irc_setup :: "'k keyboard \<Rightarrow> nat \<Rightarrow> bytes \<Rightarrow> 'k \<Rightarrow> (irc \<times> 'k) res" where
  "irc_setup kb fuel line ks =
     (let ks = in_GetKeyReset kb ks;
          c = putcs ([12] @ asc ''Z80 IRC'' @ [10, 10]) irc_init;
          c = c\<lparr>tcp := (tcp c)\<lparr>tcp_ip := (tcp_ip (tcp c))\<lparr>saddr := 0x020200c0\<rparr>\<rparr>\<rparr>;
          c = putcs (asc ''My IP address: '' @ dotted (le32 (saddr (tcp_ip (tcp c)))) @ [10, 10]) c in
      rbind (ask_ip kb fuel (asc ''IRC server IP: '') line c ks) (\<lambda>(line, c, ks).
      rbind (read_line kb fuel line (length line) ks) (\<lambda>(line, out, ks).
      let c = putcs (asc ''Port [6667]: '' @ out) c in
      rbind (parse_number line) (\<lambda>(port, _).
      rbind (ask_nick kb fuel line c ks) (\<lambda>(line, c, ks).
      rbind (ask_channel kb fuel line c ks) (\<lambda>(c, ks).
      let c = c\<lparr>tcp := (tcp c)\<lparr>src_port := htons 32768, dst_port := htons (if port = 0 then 6667 else port)\<rparr>\<rparr> in
      Inr (putcs ([10] @ asc ''Connecting ...'' @ [10]) c, ks)))))))"

text \<open>The lines that register the client, both in one segment.\<close>

definition irc_register :: "'d platform \<Rightarrow> nat \<Rightarrow> irc \<Rightarrow> 'd \<Rightarrow> (irc \<times> 'd) res" where
  "irc_register pf fuel c d =
     rbind (o_str (lit ''NICK '') c) (\<lambda>c.
     rbind (o_str (mynick c) c) (\<lambda>c.
     rbind (o_str ([13, 10] @ lit ''USER '') c) (\<lambda>c.
     rbind (o_str (mynick c) c) (\<lambda>c.
     rbind (o_str (lit '' 0 * :'') c) (\<lambda>c.
     rbind (o_str (mynick c) c) (\<lambda>c. o_send pf fuel c d))))))"

definition irc_main :: "'d platform \<Rightarrow> 'k keyboard \<Rightarrow> nat \<Rightarrow> bytes \<Rightarrow> int \<Rightarrow> int \<Rightarrow> 'k \<Rightarrow> 'd \<Rightarrow> (int \<times> irc \<times> 'k \<times> 'd) res" where
  "irc_main pf kb fuel line baud parity ks d =
     rbind (irc_setup kb fuel line ks) (\<lambda>(c, ks).
     let (_, d) = slip_init pf baud parity d in
     rbind (tcp_connect pf fuel (tcp c) d) (\<lambda>(rc, t, d).
     let c = c\<lparr>tcp := t\<rparr> in
     if rc < 0 then Inr (1, putcs (asc ''Failed to connect: '' @ dec_int rc @ [10]) c, ks, d)
     else
       rbind (irc_log_line (asc ''*** connected. /help for commands, CAPS+SYM+C quits.'')
         (putcs [12] (c\<lparr>input_len := 0, rxlen := 0, out_len := 0, pong_pending := False, join_pending := False,
            window_open := False\<rparr>))) (\<lambda>c.
       rbind (irc_register pf fuel c d) (\<lambda>(c, d).
       rbind (irc_loop pf kb fuel c ks d) (\<lambda>(c, ks, d).
         Inr (0, putcs (at INPUT_ROW 0 @ [10]) c, ks, d))))))"

end
