(* ===== verification/Irc_Server.thy ===== *)
theory Irc_Server
  imports Irc
begin

text \<open>
  The lines of the server. \<open>server_texts\<close> says on plain strings which texts the client logs for a line;
  \<open>reacts\<close> adds what the client notes to send and the change of its own nick. The code that parses
  the line in place is shown to refine it, for every line, so that it also never leaves a buffer.
\<close>

section \<open>The screen\<close>

lemma emit_clean: "emit s c = (putcs (clean s) c)\<lparr>emit_n := emit_n c + length (clean s)\<rparr>"
proof (induction s arbitrary: c)
  case (Cons ch s)
  show ?case
    by (cases "visible ch = []") (auto simp: Cons visible_def putcs_def Let_def split: if_splits)
qed (simp add: putcs_def)

lemma emit_append: "emit t (emit s c) = emit (s @ t) c"
  by (simp add: emit_clean putcs_def clean_def)

lemma emit_start_rxline: "(emit_start c)\<lparr>rxline := buf\<rparr> = emit_start (c\<lparr>rxline := buf\<rparr>)"
  "rxline (emit_start c) = rxline c"
  by (simp_all add: emit_start_def putcs_def)

lemma log_line_pieces:
  "log_line2 a b c = irc_log_line (a @ b) c" "log_line4 a b d e c = irc_log_line (a @ b @ d @ e) c"
  by (simp_all add: log_line2_def log_line4_def irc_log_line_def emit_append)

text \<open>The state after a text has been logged.\<close>

definition irc_logged :: "bytes \<Rightarrow> irc \<Rightarrow> irc" where
  "irc_logged s c = c\<lparr>outp := outp c @ log_output (clean s) (input_text (typed c)),
     emit_n := length (clean s) + pad_count (length (clean s))\<rparr>"

lemma irc_logged_sel [simp]:
  "tcp (irc_logged s c) = tcp c" "input (irc_logged s c) = input c" "input_len (irc_logged s c) = input_len c"
  "window_open (irc_logged s c) = window_open c" "rxline (irc_logged s c) = rxline c" "rxlen (irc_logged s c) = rxlen c"
  "out_line (irc_logged s c) = out_line c" "out_len (irc_logged s c) = out_len c" "mynick (irc_logged s c) = mynick c"
  "cur_chan (irc_logged s c) = cur_chan c" "pong_arg (irc_logged s c) = pong_arg c"
  "pong_pending (irc_logged s c) = pong_pending c" "join_pending (irc_logged s c) = join_pending c"
  "typed (irc_logged s c) = typed c"
  "outp (irc_logged s c) = outp c @ log_output (clean s) (input_text (typed c))"
  by (simp_all add: irc_logged_def typed_def)

lemma irc_draw_input_ok:
  "input_len c \<le> length (input c) \<Longrightarrow> irc_draw_input c = Inr (putcs (input_output (input_text (typed c))) c)"
  by (simp add: irc_draw_input_def draw_row_ok rd_bytes_def typed_def input_output_def)

lemma emit_end_ok:
  assumes "input_len c \<le> length (input c)"
  shows "emit_end (emit s (emit_start c)) = Inr (irc_logged s c)"
  using assms
  by (simp add: emit_end_def emit_start_def emit_clean irc_draw_input_ok putcs_def pad_loop_eq typed_def irc_logged_def log_output_def)

lemma irc_log_line_ok: "input_len c \<le> length (input c) \<Longrightarrow> irc_log_line s c = Inr (irc_logged s c)"
  by (simp add: irc_log_line_def emit_end_ok)

section \<open>What a line means\<close>

definition has_prefix :: "bytes \<Rightarrow> bool" where
  "has_prefix line \<longleftrightarrow> line \<noteq> [] \<and> hd line = 58"

definition msg_prefix :: "bytes \<Rightarrow> bytes option" where
  "msg_prefix line = (if has_prefix line then Some (word_of (tl line)) else None)"

definition msg_tail :: "bytes \<Rightarrow> bytes" where
  "msg_tail line = (if has_prefix line then word_rest (tl line) else line)"

definition msg_cmd :: "bytes \<Rightarrow> bytes" where
  "msg_cmd line = word_of (msg_tail line)"

definition msg_rest :: "bytes \<Rightarrow> bytes" where
  "msg_rest line = word_rest (msg_tail line)"

definition params_text :: "bytes \<Rightarrow> bytes" where
  "params_text s = concat (map (\<lambda>q. q @ asc '' '') (params s))"

text \<open>The text of \<^verbatim>\<open>PRIVMSG\<close> and \<^verbatim>\<open>NOTICE\<close>: an action, a notice, something said on a channel or in private.\<close>

definition privmsg_text :: "bytes \<Rightarrow> bytes \<Rightarrow> bytes \<Rightarrow> bytes \<Rightarrow> bytes" where
  "privmsg_text cmd nick target s =
     (if s \<noteq> [] \<and> hd s = 1 \<and> take 7 (tl s) = asc ''ACTION '' then asc ''* '' @ nick @ asc '' '' @ drop 8 s
      else if cmd = asc ''NOTICE'' then asc ''-'' @ nick @ asc ''- '' @ s
      else if target \<noteq> [] \<and> (hd target = 35 \<or> hd target = 38) then asc ''<'' @ nick @ asc ''> '' @ s
      else asc ''*'' @ nick @ asc ''* '' @ s)"

definition numeric :: "bytes \<Rightarrow> bool" where
  "numeric cmd \<longleftrightarrow> length cmd = 3 \<and> (\<forall>c \<in> set cmd. is_digit c)"

definition message_texts :: "bytes \<Rightarrow> bytes \<Rightarrow> bytes \<Rightarrow> bytes list" where
  "message_texts cmd nick r =
     (if cmd = asc ''PRIVMSG'' \<or> cmd = asc ''NOTICE'' then
        [privmsg_text cmd nick (param_of r) (param_of (param_rest r))]
      else if cmd = asc ''JOIN'' then [asc ''* '' @ nick @ asc '' joined '' @ param_of r]
      else if cmd = asc ''PART'' then [asc ''* '' @ nick @ asc '' left '' @ param_of r]
      else if cmd = asc ''QUIT'' then [asc ''* '' @ nick @ asc '' quit: '' @ param_of r]
      else if cmd = asc ''NICK'' then [asc ''* '' @ nick @ asc '' is now known as '' @ param_of r]
      else if cmd = asc ''KICK'' then [asc ''* '' @ nick @ asc '' kicked out of '' @ param_of r]
      else if cmd = asc ''TOPIC'' then [asc ''* '' @ nick @ asc '' set the topic: '' @ param_of (param_rest r)]
      else if cmd = asc ''MODE'' then [asc ''* '' @ nick @ asc '' sets mode '' @ r]
      else if cmd = asc ''ERROR'' then [asc ''*** '' @ r]
      else if numeric cmd then
        params_text (param_rest r) #
        (if cmd = asc ''433'' then [asc ''*** nick already in use, pick another with /nick''] else [])
      else [cmd @ asc '' '' @ params_text r])"

definition server_texts :: "bytes \<Rightarrow> bytes list" where
  "server_texts line =
     (if msg_cmd line = [] \<or> msg_cmd line = asc ''PING'' then []
      else message_texts (msg_cmd line) (nick_text (msg_prefix line)) (msg_rest line))"

abbreviation c_val :: "bytes \<Rightarrow> bytes" where "c_val m \<equiv> takeWhile (\<lambda>c. c \<noteq> 0) m"

lemma c_str_val: "0 \<in> set m \<Longrightarrow> c_str m 0 = Inr (c_val m)"
  by (simp add: c_str_def)

lemma c_val_str: "c_str m 0 = Inr s \<Longrightarrow> c_val m = s"
  by (simp add: c_str_def split: if_splits)

text \<open>The line is the welcome and there is a channel to join; the line changes our own nick.\<close>

definition welcomes :: "bytes \<Rightarrow> bytes \<Rightarrow> bool" where
  "welcomes line chan \<longleftrightarrow> msg_cmd line = asc ''001'' \<and> chan \<noteq> []"

definition renames :: "bytes \<Rightarrow> bytes \<Rightarrow> bool" where
  "renames line me \<longleftrightarrow> msg_cmd line = asc ''NICK'' \<and> map lower (nick_text (msg_prefix line)) = map lower me"

text \<open>Only these texts have been logged, and only the received line has been changed.\<close>

definition noted :: "bytes list \<Rightarrow> irc \<Rightarrow> irc \<Rightarrow> bool" where
  "noted texts c c' \<longleftrightarrow> length (rxline c') = length (rxline c) \<and>
     outp c' = outp c @ concat (map (\<lambda>t. log_output (clean t) (input_text (typed c))) texts) \<and>
     c' = c\<lparr>rxline := rxline c', outp := outp c', emit_n := emit_n c'\<rparr>"

definition reacts :: "bytes \<Rightarrow> irc \<Rightarrow> irc \<Rightarrow> bool" where
  "reacts line c c' \<longleftrightarrow>
     noted (server_texts line) (c\<lparr>mynick := mynick c', pong_arg := pong_arg c',
       pong_pending := pong_pending c \<or> msg_cmd line = asc ''PING'',
       join_pending := join_pending c \<or> welcomes line (c_val (cur_chan c))\<rparr>) c' \<and>
     (if msg_cmd line = asc ''PING''
      then length (pong_arg c') = 64 \<and> c_str (pong_arg c') 0 = Inr (take 63 (param_of (msg_rest line)))
      else pong_arg c' = pong_arg c) \<and>
     (if renames line (c_val (mynick c))
      then length (mynick c') = 17 \<and> c_str (mynick c') 0 = Inr (take 16 (param_of (msg_rest line)))
      else mynick c' = mynick c)"

lemma noted_logged: "length buf = length (rxline c) \<Longrightarrow> noted [t] c (irc_logged t (c\<lparr>rxline := buf\<rparr>))"
  by (simp add: noted_def typed_def irc_logged_def)

section \<open>Reading parameters\<close>

text \<open>The nick of the sender, a string in front of the read pointer.\<close>

definition nick_at :: "bytes \<Rightarrow> nat option \<Rightarrow> nat \<Rightarrow> bytes \<Rightarrow> bool" where
  "nick_at buf prefix p nick \<longleftrightarrow> (case prefix of None \<Rightarrow> nick = asc ''?''
     | Some q \<Rightarrow> c_str buf q = Inr nick \<and> q + length nick \<le> p)"

lemma asc_no_zero: "0 \<notin> set (asc ''?'')"
  by (simp add: asc_def)

lemma nick_at_str: "nick_at buf prefix p nick \<Longrightarrow> c_str (nick_ptr buf prefix) 0 = Inr nick"
  by (cases prefix) (simp_all add: nick_at_def nick_ptr_def asc_no_zero c_str_iff)

lemma rx_param_ok:
  assumes "c_str (rxline c) p = Inr r" and "nick_at (rxline c) prefix p nick"
  shows "\<exists>buf q p'. rx_param p c = Inr (c\<lparr>rxline := buf\<rparr>, q, p') \<and> length buf = length (rxline c) \<and>
    c_str buf q = Inr (param_of r) \<and> q + length (param_of r) \<le> p' \<and> c_str buf p' = Inr (param_rest r) \<and>
    nick_at buf prefix p' nick \<and>
    (\<forall>j t. c_str (rxline c) j = Inr t \<and> j + length t \<le> p \<longrightarrow> c_str buf j = Inr t)"
proof -
  from next_param_ok [OF assms(1)] obtain buf q p' where
    x: "next_param (rxline c) p = Inr (buf, q, p')" "parsed (rxline c) p (param_of r) (param_rest r) (buf, q, p')"
    by (metis prod.exhaust)
  then have "nick_at buf prefix p' nick"
    using assms(2) by (auto simp: parsed_def nick_at_def split: option.splits)
  then show ?thesis using x by (intro exI [of _ buf]) (simp add: rx_param_def parsed_def)
qed

lemma emit_params_ok:
  assumes "c_str (rxline c) p = Inr r"
  shows "\<exists>buf. emit_params p c = Inr (emit (params_text r) (c\<lparr>rxline := buf\<rparr>)) \<and> length buf = length (rxline c)"
  using assms
proof (induction r arbitrary: p c rule: params.induct)
  case (1 r)
  have run: "emit_params p c = (if r \<noteq> [] then rbind (rx_param p c) (\<lambda>(c, q, p).
      rbind (c_str (rxline c) q) (\<lambda>s. emit_params p (emit (asc '' '') (emit s c)))) else Inr c)"
    using c_str_rd [OF "1.prems"] "1.prems" by (cases r) (auto simp: emit_params.simps [of p c] c_str_iff)
  show ?case
  proof (cases "r = []")
    case True
    then show ?thesis by (intro exI [of _ "rxline c"]) (simp add: run params_text_def params.simps)
  next
    case False
    from rx_param_ok [OF "1.prems", of None "asc ''?''"] obtain buf q p' where
      x: "rx_param p c = Inr (c\<lparr>rxline := buf\<rparr>, q, p')" "length buf = length (rxline c)"
        "c_str buf q = Inr (param_of r)" "c_str buf p' = Inr (param_rest r)" by (auto simp: nick_at_def)
    let ?c = "emit (param_of r @ asc '' '') (c\<lparr>rxline := buf\<rparr>)"
    from "1.IH" [OF False, of ?c p'] x obtain buf' where
      y: "emit_params p' ?c = Inr (emit (params_text (param_rest r)) (?c\<lparr>rxline := buf'\<rparr>))" "length buf' = length (rxline c)" by auto
    have "params_text r = (param_of r @ asc '' '') @ params_text (param_rest r)"
      using False by (simp add: params_text_def params.simps [of r])
    moreover have "?c\<lparr>rxline := buf'\<rparr> = emit (param_of r @ asc '' '') (c\<lparr>rxline := buf'\<rparr>)"
      by (simp add: emit_clean putcs_def)
    ultimately show ?thesis
      using y by (intro exI [of _ buf']) (simp add: run False x emit_append)
  qed
qed

text \<open>The texts of the branches.\<close>

lemma log_nick_ok:
  assumes "nick_at (rxline c) prefix p nick" and "c_str (rxline c) q = Inr s" and "input_len c \<le> length (input c)"
  shows "log_nick a prefix b q c = Inr (irc_logged (a @ nick @ b @ s) c)"
  using assms nick_at_str [OF assms(1)] by (simp add: log_nick_def log_line_pieces irc_log_line_ok)

lemma one_param_ok:
  assumes "c_str (rxline c) p = Inr r" and "nick_at (rxline c) prefix p nick" and "input_len c \<le> length (input c)"
  shows "\<exists>c'. rbind (rx_param p c) (\<lambda>(c, q, _). log_nick a prefix b q c) = Inr c' \<and>
    noted [a @ nick @ b @ param_of r] c c'"
proof -
  from rx_param_ok [OF assms(1,2)] obtain buf q p' where
    x: "rx_param p c = Inr (c\<lparr>rxline := buf\<rparr>, q, p')" "length buf = length (rxline c)"
      "c_str buf q = Inr (param_of r)" "nick_at buf prefix p' nick" by blast
  then show ?thesis
    using log_nick_ok [of "c\<lparr>rxline := buf\<rparr>" prefix p' nick q] assms(3) by (simp add: noted_logged)
qed

lemma topic_ok:
  assumes "c_str (rxline c) p = Inr r" and "nick_at (rxline c) prefix p nick" and "input_len c \<le> length (input c)"
  shows "\<exists>c'. rbind (rx_param p c) (\<lambda>(c, _, p). rbind (rx_param p c) (\<lambda>(c, q, _). log_nick a prefix b q c)) = Inr c' \<and>
    noted [a @ nick @ b @ param_of (param_rest r)] c c'"
proof -
  from rx_param_ok [OF assms(1,2)] obtain buf q p' where
    x: "rx_param p c = Inr (c\<lparr>rxline := buf\<rparr>, q, p')" "length buf = length (rxline c)"
      "c_str buf p' = Inr (param_rest r)" "nick_at buf prefix p' nick" by blast
  from one_param_ok [of "c\<lparr>rxline := buf\<rparr>" p' "param_rest r" prefix nick a b] x assms(3) obtain c' where
    "rbind (rx_param p' (c\<lparr>rxline := buf\<rparr>)) (\<lambda>(c, q, _). log_nick a prefix b q c) = Inr c'"
    "noted [a @ nick @ b @ param_of (param_rest r)] (c\<lparr>rxline := buf\<rparr>) c'" by auto
  then show ?thesis using x(1,2) by (cases c; cases c') (auto simp: noted_def typed_def)
qed

lemma privmsg_ok:
  assumes "c_str (rxline c) p = Inr r" and "nick_at (rxline c) prefix p nick" and "input_len c \<le> length (input c)"
  shows "\<exists>c'. show_privmsg cmd prefix p c = Inr c' \<and>
    noted [privmsg_text cmd nick (param_of r) (param_of (param_rest r))] c c'"
proof -
  let ?s = "param_of (param_rest r)"
  from rx_param_ok [OF assms(1,2)] obtain buf q p' where
    x: "rx_param p c = Inr (c\<lparr>rxline := buf\<rparr>, q, p')" "length buf = length (rxline c)"
      "c_str buf q = Inr (param_of r)" "q + length (param_of r) \<le> p'" "c_str buf p' = Inr (param_rest r)"
      "nick_at buf prefix p' nick" by blast
  from rx_param_ok [of "c\<lparr>rxline := buf\<rparr>" p' "param_rest r" prefix nick] x obtain buf2 q2 p2 where
    y: "rx_param p' (c\<lparr>rxline := buf\<rparr>) = Inr (c\<lparr>rxline := buf2\<rparr>, q2, p2)" "length buf2 = length (rxline c)"
      "c_str buf2 q2 = Inr ?s" "nick_at buf2 prefix p2 nick" "c_str buf2 q = Inr (param_of r)" by auto
  let ?c = "c\<lparr>rxline := buf2\<rparr>"
  have log: "log_nick a prefix b j ?c = Inr (irc_logged (a @ nick @ b @ t) ?c)" if "c_str buf2 j = Inr t" for a b j t
    using log_nick_ok [of ?c prefix p2 nick j t] y(4) that assms(3) by simp
  have action: "c_str buf2 (q2 + 8) = Inr (drop 8 ?s)" if "?s \<noteq> []" "take 7 (tl ?s) = asc ''ACTION ''"
  proof (rule c_str_drop [OF y(3)])
    have "length (take 7 (tl ?s)) = 7" using that(2) by (simp add: asc_def)
    then show "8 \<le> length ?s" using that(1) by (cases ?s) auto
  qed
  have "show_privmsg cmd prefix p c = Inr (irc_logged (privmsg_text cmd nick (param_of r) ?s) ?c)"
  proof (cases "?s \<noteq> [] \<and> hd ?s = 1 \<and> take 7 (tl ?s) = asc ''ACTION ''")
    case True
    then show ?thesis using log [OF action] by (simp add: show_privmsg_def x(1) y(1,3) privmsg_text_def)
  next
    case False
    then show ?thesis
      using log [OF y(3)] is_channel_ok [OF y(5)]
      by (auto simp: show_privmsg_def x(1) y(1,3) privmsg_text_def)
  qed
  then show ?thesis using noted_logged [OF y(2)] by simp
qed

lemma show_numeric_ok:
  assumes "c_str (rxline c) p = Inr r" and "input_len c \<le> length (input c)"
  shows "\<exists>c'. show_numeric cmd p c = Inr c' \<and> noted (params_text (param_rest r) #
    (if cmd = asc ''433'' then [asc ''*** nick already in use, pick another with /nick''] else [])) c c'"
proof -
  from rx_param_ok [OF assms(1), of None "asc ''?''"] obtain buf q p' where
    x: "rx_param p c = Inr (c\<lparr>rxline := buf\<rparr>, q, p')" "length buf = length (rxline c)"
      "c_str buf p' = Inr (param_rest r)" by (auto simp: nick_at_def)
  from emit_params_ok [of "emit_start (c\<lparr>rxline := buf\<rparr>)" p' "param_rest r"] x obtain buf2 where
    y: "emit_params p' (emit_start (c\<lparr>rxline := buf\<rparr>)) = Inr (emit (params_text (param_rest r)) (emit_start (c\<lparr>rxline := buf2\<rparr>)))"
      "length buf2 = length (rxline c)" by (auto simp: emit_start_rxline)
  let ?c = "c\<lparr>rxline := buf2\<rparr>"
  have "emit_end (emit (params_text (param_rest r)) (emit_start ?c)) = Inr (irc_logged (params_text (param_rest r)) ?c)"
    using assms(2) by (intro emit_end_ok) simp
  moreover have "noted (params_text (param_rest r) # [t]) c (irc_logged t (irc_logged (params_text (param_rest r)) ?c))" for t
    using y(2) by (simp add: noted_def typed_def irc_logged_def)
  ultimately show ?thesis
    using assms(2) noted_logged [OF y(2)] by (auto simp: show_numeric_def x(1) y(1) irc_log_line_ok)
qed

lemma unknown_ok:
  assumes "c_str (rxline c) p = Inr r" and "input_len c \<le> length (input c)"
  shows "\<exists>c'. rbind (emit_params p (emit (asc '' '') (emit s (emit_start c)))) emit_end = Inr c' \<and>
    noted [s @ asc '' '' @ params_text r] c c'"
proof -
  let ?c = "emit (s @ asc '' '') (emit_start c)"
  from emit_params_ok [of ?c p r] assms(1) obtain buf where
    x: "emit_params p ?c = Inr (emit (params_text r) (?c\<lparr>rxline := buf\<rparr>))" "length buf = length (rxline c)"
    by (auto simp: emit_start_rxline)
  have "?c\<lparr>rxline := buf\<rparr> = emit (s @ asc '' '') (emit_start (c\<lparr>rxline := buf\<rparr>))"
    by (simp add: emit_clean emit_start_def putcs_def)
  then show ?thesis
    using emit_end_ok [of "c\<lparr>rxline := buf\<rparr>" "s @ asc '' '' @ params_text r"] assms(2) noted_logged [OF x(2)] x(1)
    by (simp add: emit_append)
qed

lemma show_nick_ok:
  assumes "c_str (rxline c) p = Inr r" and "nick_at (rxline c) prefix p nick" and "input_len c \<le> length (input c)"
    and "length (mynick c) = 17" and "0 \<in> set (mynick c)"
  shows "\<exists>c'. show_nick prefix p c = Inr c' \<and>
    noted [asc ''* '' @ nick @ asc '' is now known as '' @ param_of r] (c\<lparr>mynick := mynick c'\<rparr>) c' \<and>
    (if map lower nick = map lower (c_val (mynick c)) then length (mynick c') = 17 \<and> c_str (mynick c') 0 = Inr (take 16 (param_of r))
     else mynick c' = mynick c)"
proof -
  from rx_param_ok [OF assms(1,2)] obtain buf q p' where
    x: "rx_param p c = Inr (c\<lparr>rxline := buf\<rparr>, q, p')" "length buf = length (rxline c)"
      "c_str buf q = Inr (param_of r)" "nick_at buf prefix p' nick" by blast
  define me where "me = (map lower nick = map lower (c_val (mynick c)))"
  have "same (nick_ptr buf prefix) (mynick c) = Inr me"
    using same_str [OF nick_at_str [OF x(4)] c_str_val [OF assms(5)]] by (simp add: me_def)
  moreover from str_copy_ok [OF x(3) assms(4)] obtain n where
    n: "str_copy (mynick c) buf q 17 = Inr n" "length n = 17" "c_str n 0 = Inr (take 16 (param_of r))" by auto
  define n' where "n' = (if me then n else mynick c)"
  have "log_nick (asc ''* '') prefix (asc '' is now known as '') q (c\<lparr>rxline := buf, mynick := n'\<rparr>) =
      Inr (irc_logged (asc ''* '' @ nick @ asc '' is now known as '' @ param_of r) (c\<lparr>rxline := buf, mynick := n'\<rparr>))"
    using log_nick_ok [of "c\<lparr>rxline := buf, mynick := n'\<rparr>" prefix p' nick q] x assms(3) by simp
  ultimately have run: "show_nick prefix p c =
      Inr (irc_logged (asc ''* '' @ nick @ asc '' is now known as '' @ param_of r) (c\<lparr>rxline := buf, mynick := n'\<rparr>))"
    using n(1) by (cases me) (simp_all add: show_nick_def x(1) n'_def)
  have "noted [t] (c\<lparr>mynick := n'\<rparr>) (irc_logged t (c\<lparr>rxline := buf, mynick := n'\<rparr>))" for t
    using x(2) by (simp add: noted_def typed_def irc_logged_def)
  with n(2,3) show ?thesis
    unfolding run me_def [symmetric] n'_def by (simp split: if_splits)
qed

section \<open>The whole line\<close>

text \<open>
  A reaction to the command \<open>s\<close> with the rest \<open>r\<close>: the part of \<open>reacts\<close> for a line that is not a \<^verbatim>\<open>PING\<close>.
\<close>

definition message_done :: "bytes \<Rightarrow> bytes \<Rightarrow> bytes \<Rightarrow> irc \<Rightarrow> irc \<Rightarrow> bool" where
  "message_done s nick r c c' \<longleftrightarrow>
     noted (message_texts s nick r) (c\<lparr>mynick := mynick c',
       join_pending := join_pending c \<or> (s = asc ''001'' \<and> c_val (cur_chan c) \<noteq> [])\<rparr>) c' \<and>
     (if s = asc ''NICK'' \<and> map lower nick = map lower (c_val (mynick c))
      then length (mynick c') = 17 \<and> c_str (mynick c') 0 = Inr (take 16 (param_of r)) else mynick c' = mynick c)"

lemma noted_done:
  assumes "noted texts c c'" and "message_texts s nick r = texts" and "s \<noteq> asc ''001''" and "s \<noteq> asc ''NICK''"
  shows "message_done s nick r c c'"
proof -
  have "mynick c' = mynick c" using assms(1) by (cases c; cases c') (auto simp: noted_def)
  then show ?thesis using assms by (simp add: message_done_def)
qed

lemma noted_rxline: "length buf = length (rxline c) \<Longrightarrow> noted texts (c\<lparr>rxline := buf\<rparr>) c' = noted texts c c'"
  by (cases c; cases c') (auto simp: noted_def typed_def)

lemma message_done_rxline:
  assumes "length buf = length (rxline c)"
  shows "message_done s n r (c\<lparr>rxline := buf\<rparr>) c' = message_done s n r c c'"
proof -
  have eq: "c\<lparr>rxline := buf, mynick := m, join_pending := j\<rparr> = (c\<lparr>mynick := m, join_pending := j\<rparr>)\<lparr>rxline := buf\<rparr>" for m j
    by simp
  have "noted t (c\<lparr>rxline := buf, mynick := m, join_pending := j\<rparr>) c' = noted t (c\<lparr>mynick := m, join_pending := j\<rparr>) c'" for t m j
    unfolding eq by (rule noted_rxline) (simp add: assms)
  then show ?thesis by (simp add: message_done_def del: if_split)
qed

lemma commands_distinct:
  "distinct [asc ''PRIVMSG'', asc ''NOTICE'', asc ''JOIN'', asc ''PART'', asc ''QUIT'', asc ''NICK'', asc ''KICK'', asc ''TOPIC'',
     asc ''MODE'', asc ''ERROR'', asc ''001'', asc ''433'', asc ''PING'', []]"
  by (simp add: asc_def)

lemmas commands_neq = commands_distinct [simplified] commands_distinct [THEN distinct_rev [THEN iffD2], simplified]

lemma numeric_001: "numeric (asc ''001'')" "numeric (asc ''433'')" "\<not> numeric (asc ''NICK'')"
  by (simp_all add: numeric_def asc_def)

text \<open>\<^verbatim>\<open>MODE\<close> and \<^verbatim>\<open>ERROR\<close> show the rest of the line as it is.\<close>

lemma mode_ok:
  assumes "nick_at (rxline c) prefix p nick" and "c_str (rxline c) p = Inr r" and "input_len c \<le> length (input c)"
  shows "\<exists>c'. log_nick a prefix b p c = Inr c' \<and> noted [a @ nick @ b @ r] c c'"
  using noted_logged [of "rxline c" c] log_nick_ok [OF assms] by simp

lemma error_ok:
  assumes "input_len c \<le> length (input c)"
  shows "\<exists>c'. irc_log_line t c = Inr c' \<and> noted [t] c c'"
  using noted_logged [of "rxline c" c] irc_log_line_ok [OF assms, of t] by simp

text \<open>The message after \<^verbatim>\<open>nick_of\<close>: a branch that only notes texts, and the branches behind the last command.\<close>

lemma dispatch_noted:
  assumes "\<exists>c'. m = Inr c' \<and> noted texts c c'" and "server_message s cmd prefix p (c\<lparr>rxline := buf\<rparr>) = m"
    and "message_texts s nick r = texts" and "s \<noteq> asc ''001''" and "s \<noteq> asc ''NICK''"
  shows "\<exists>c'. server_message s cmd prefix p (c\<lparr>rxline := buf\<rparr>) = Inr c' \<and> message_done s nick r c c'"
  using assms(1) unfolding assms(2) by (blast intro: noted_done [OF _ assms(3-5)])

lemma dispatch_other:
  assumes "c_str (rxline c) cmd = Inr s" and "c_str (rxline c) p = Inr r" and "input_len c \<le> length (input c)"
    and "0 \<in> set (cur_chan c)" and "nick_of buf prefix = Inr (rxline c)"
    and "s \<notin> {asc ''PRIVMSG'', asc ''NOTICE'', asc ''JOIN'', asc ''PART'', asc ''QUIT'', asc ''NICK'', asc ''KICK'',
      asc ''TOPIC'', asc ''MODE'', asc ''ERROR''}"
  shows "\<exists>c'. server_message s cmd prefix p (c\<lparr>rxline := buf\<rparr>) = Inr c' \<and> message_done s nick r c c'"
proof -
  have num: "is_numeric 3 (rxline c) cmd = Inr (numeric s)" using is_numeric_ok [OF assms(1), of 3] by (simp add: numeric_def)
  have chan: "rd (cur_chan c) 0 = Inr (if c_val (cur_chan c) = [] then 0 else hd (c_val (cur_chan c)))"
    by (rule c_str_rd [OF c_str_val [OF assms(4)]])
  have chan0: "hd (c_val (cur_chan c)) \<noteq> 0" if "c_val (cur_chan c) \<noteq> []"
    using that set_takeWhileD [of "hd (c_val (cur_chan c))"] by (metis hd_in_set)
  show ?thesis
  proof (cases "numeric s")
    case True
    define w where "w = (s = asc ''001'' \<and> c_val (cur_chan c) \<noteq> [])"
    let ?c = "c\<lparr>join_pending := join_pending c \<or> w\<rparr>"
    have "(if s = asc ''001'' \<and> (if c_val (cur_chan c) = [] then 0 else hd (c_val (cur_chan c))) \<noteq> 0
        then c\<lparr>join_pending := True\<rparr> else c) = ?c"
      using chan0 by (cases c) (auto simp: w_def)
    then have "server_message s cmd prefix p (c\<lparr>rxline := buf\<rparr>) = show_numeric s p ?c"
      using assms(6) True num by (simp add: server_message_def assms(5) chan)
    moreover from show_numeric_ok [of ?c p r s] assms(2,3) obtain c' where
      c': "show_numeric s p ?c = Inr c'" "noted (message_texts s nick r) ?c c'"
      using assms(6) True by (auto simp: message_texts_def)
    moreover have "mynick c' = mynick c" using c'(2) by (cases c; cases c') (auto simp: noted_def)
    ultimately show ?thesis using assms(6) by (auto simp: message_done_def w_def)
  next
    case False
    have "s \<noteq> asc ''001''" "s \<noteq> asc ''NICK''" using False numeric_001 assms(6) by auto
    then show ?thesis
      using assms(6) False num
      by (intro dispatch_noted [OF unknown_ok [OF assms(2,3), of s]]) (simp_all add: server_message_def assms(5) message_texts_def)
  qed
qed

lemma dispatch_ok:
  assumes "c_str (rxline c) cmd = Inr s" and "c_str (rxline c) p = Inr r" and "nick_at (rxline c) prefix p nick"
    and "input_len c \<le> length (input c)" and "length (mynick c) = 17" and "0 \<in> set (mynick c)" and "0 \<in> set (cur_chan c)"
    and "nick_of buf prefix = Inr (rxline c)"
  shows "\<exists>c'. server_message s cmd prefix p (c\<lparr>rxline := buf\<rparr>) = Inr c' \<and> message_done s nick r c c'"
proof -
  note run = server_message_def message_texts_def assms(2,8) commands_neq
  note one = one_param_ok [OF assms(2,3,4)]
  consider "s = asc ''PRIVMSG'' \<or> s = asc ''NOTICE''" | "s = asc ''JOIN''" | "s = asc ''PART''" | "s = asc ''QUIT''"
    | "s = asc ''NICK''" | "s = asc ''KICK''" | "s = asc ''TOPIC''" | "s = asc ''MODE''" | "s = asc ''ERROR''"
    | (other) "s \<notin> {asc ''PRIVMSG'', asc ''NOTICE'', asc ''JOIN'', asc ''PART'', asc ''QUIT'', asc ''NICK'', asc ''KICK'',
        asc ''TOPIC'', asc ''MODE'', asc ''ERROR''}" by blast
  then show ?thesis
  proof cases
    case 1
    then have "s \<noteq> asc ''001''" "s \<noteq> asc ''NICK''" using commands_neq by auto
    then show ?thesis
      by (intro dispatch_noted [OF privmsg_ok [OF assms(2,3,4), of s]]) (simp_all add: server_message_def assms(8) 1 message_texts_def)
  next
    case 2
    show ?thesis by (rule dispatch_noted [OF one [of "asc ''* ''" "asc '' joined ''"]]) (simp_all add: run 2)
  next
    case 3
    show ?thesis by (rule dispatch_noted [OF one [of "asc ''* ''" "asc '' left ''"]]) (simp_all add: run 3)
  next
    case 4
    show ?thesis by (rule dispatch_noted [OF one [of "asc ''* ''" "asc '' quit: ''"]]) (simp_all add: run 4)
  next
    case 5
    have "server_message s cmd prefix p (c\<lparr>rxline := buf\<rparr>) = show_nick prefix p c"
      "message_texts s nick r = [asc ''* '' @ nick @ asc '' is now known as '' @ param_of r]" "s \<noteq> asc ''001''"
      by (simp_all add: run 5)
    then show ?thesis using show_nick_ok [OF assms(2-6)] 5 by (simp only: message_done_def) simp
  next
    case 6
    show ?thesis by (rule dispatch_noted [OF one [of "asc ''* ''" "asc '' kicked out of ''"]]) (simp_all add: run 6)
  next
    case 7
    show ?thesis
      by (rule dispatch_noted [OF topic_ok [OF assms(2,3,4), of "asc ''* ''" "asc '' set the topic: ''"]]) (simp_all add: run 7)
  next
    case 8
    show ?thesis by (rule dispatch_noted [OF mode_ok [OF assms(3,2,4), of "asc ''* ''" "asc '' sets mode ''"]]) (simp_all add: run 8)
  next
    case 9
    show ?thesis by (rule dispatch_noted [OF error_ok [OF assms(4), of "asc ''*** '' @ r"]]) (simp_all add: run 9 log_line_pieces)
  next
    case other
    with assms(1,2,4,7,8) show ?thesis by (rule dispatch_other)
  qed
qed

text \<open>The prefix is cut before anything behind it is read.\<close>

lemma server_message_ok:
  assumes "c_str buf cmd = Inr s" and "s \<noteq> []" and "c_str buf p = Inr r" and "cmd + length s \<le> p"
    and "\<And>q. prefix = Some q \<Longrightarrow> \<exists>x. pre = Some x \<and> c_str buf q = Inr x \<and> q + length x \<le> cmd"
    and "prefix = None \<Longrightarrow> pre = None"
    and "length buf = length (rxline c)" and "input_len c \<le> length (input c)" and "length (mynick c) = 17" and "0 \<in> set (mynick c)"
    and "0 \<in> set (cur_chan c)"
  shows "\<exists>c'. server_message s cmd prefix p (c\<lparr>rxline := buf\<rparr>) = Inr c' \<and> message_done s (nick_text pre) r c c'"
proof -
  have "\<exists>buf'. nick_of buf prefix = Inr buf' \<and> length buf' = length buf \<and> c_str buf' cmd = Inr s \<and> c_str buf' p = Inr r \<and>
      nick_at buf' prefix p (nick_text pre)"
  proof (cases prefix)
    case None
    then show ?thesis using assms by (simp add: nick_of_def nick_at_def nick_text_def)
  next
    case (Some q)
    from assms(5) [OF Some] obtain x where x: "pre = Some x" "c_str buf q = Inr x" "q + length x \<le> cmd" by blast
    have "buf ! cmd \<noteq> 0" using c_str_nth(2) [OF assms(1), of 0] assms(1,2) by (cases s) (auto simp: c_str_iff)
    then have lt: "q + length x < cmd" using c_str_nth(3) [OF x(2)] x(3) by (metis le_neq_implies_less)
    moreover have "cmd < p" using assms(2,4) by (cases s) auto
    moreover have "length (nick_text (Some x)) \<le> length x" by (simp add: nick_text_def length_takeWhile_le)
    ultimately show ?thesis
      using nick_of_ok [OF x(2)] assms(1,3) by (auto simp: Some x(1) nick_at_def)
  qed
  then obtain buf' where b: "nick_of buf prefix = Inr buf'" "length buf' = length buf" "c_str buf' cmd = Inr s" "c_str buf' p = Inr r"
      "nick_at buf' prefix p (nick_text pre)" by blast
  from dispatch_ok [of "c\<lparr>rxline := buf'\<rparr>" cmd s p r prefix "nick_text pre" buf] b assms(8-11) obtain c' where
    "server_message s cmd prefix p (c\<lparr>rxline := buf\<rparr>) = Inr c'" "message_done s (nick_text pre) r (c\<lparr>rxline := buf'\<rparr>) c'" by auto
  moreover have "message_done s (nick_text pre) r (c\<lparr>rxline := buf'\<rparr>) c' = message_done s (nick_text pre) r c c'"
    using b(2) assms(7) by (intro message_done_rxline) simp
  ultimately show ?thesis by blast
qed

text \<open>The prefix of the line, and the two kinds of reaction behind the command.\<close>

lemma line_prefix_ok:
  assumes "c_str m 0 = Inr line"
  shows "\<exists>buf prefix p. (if (if line = [] then 0 else hd line) = 58
      then rbind (next_word m 1) (\<lambda>(buf, q, p). Inr (buf, Some q, p)) else Inr (m, None, 0)) = Inr (buf, prefix, p) \<and>
    length buf = length m \<and> c_str buf p = Inr (msg_tail line) \<and>
    (case prefix of None \<Rightarrow> msg_prefix line = None
     | Some q \<Rightarrow> \<exists>x. msg_prefix line = Some x \<and> c_str buf q = Inr x \<and> q + length x \<le> p)"
proof (cases "has_prefix line")
  case True
  then obtain l where l: "line = 58 # l" by (cases line) (auto simp: has_prefix_def)
  have "c_str m 1 = Inr l" using c_str_drop [OF assms, of 1] by (simp add: l)
  from next_word_ok [OF this] show ?thesis
    using True by (auto simp: l parsed_def msg_tail_def msg_prefix_def)
next
  case False
  then show ?thesis using assms by (auto simp: has_prefix_def msg_tail_def msg_prefix_def)
qed

lemma ping_reacts:
  assumes "msg_cmd line = asc ''PING''" and "c_str buf p = Inr (msg_rest line)" and "length (pong_arg c) = 64"
    and "length buf = length (rxline c)"
  shows "\<exists>c'. rbind (next_param buf p) (\<lambda>(buf, q, p). rbind (str_copy (pong_arg c) buf q 64) (\<lambda>a.
      Inr (c\<lparr>rxline := buf, pong_arg := a, pong_pending := True\<rparr>))) = Inr c' \<and> reacts line c c'"
proof -
  from next_param_ok [OF assms(2)] obtain buf3 q p3 where
    x: "next_param buf p = Inr (buf3, q, p3)" "length buf3 = length buf" "c_str buf3 q = Inr (param_of (msg_rest line))"
    by (auto simp: parsed_def)
  from str_copy_ok [OF x(3) assms(3)] obtain a where
    a: "str_copy (pong_arg c) buf3 q 64 = Inr a" "length a = 64" "c_str a 0 = Inr (take 63 (param_of (msg_rest line)))" by auto
  have "reacts line c (c\<lparr>rxline := buf3, pong_arg := a, pong_pending := True\<rparr>)"
    using assms(4) x(2) a(2,3)
    by (simp add: reacts_def server_texts_def noted_def welcomes_def renames_def assms(1) commands_neq)
  then show ?thesis using x(1) a(1) by simp
qed

lemma message_reacts:
  assumes "msg_cmd line \<noteq> []" and "msg_cmd line \<noteq> asc ''PING''"
    and "message_done (msg_cmd line) (nick_text (msg_prefix line)) (msg_rest line) c c'"
  shows "reacts line c c'"
proof -
  have n: "noted (message_texts (msg_cmd line) (nick_text (msg_prefix line)) (msg_rest line)) (c\<lparr>mynick := mynick c',
      join_pending := join_pending c \<or> welcomes line (c_val (cur_chan c))\<rparr>) c'"
    using assms(3) by (simp add: message_done_def welcomes_def)
  then have "pong_arg c' = pong_arg c" by (cases c; cases c') (auto simp: noted_def)
  moreover have "c\<lparr>mynick := mynick c', pong_arg := pong_arg c, pong_pending := pong_pending c, join_pending := j\<rparr> =
      c\<lparr>mynick := mynick c', join_pending := j\<rparr>" for j by (cases c) simp
  ultimately show ?thesis
    using assms n by (simp add: reacts_def server_texts_def renames_def message_done_def)
qed

lemma handle_server_line_reacts:
  assumes "c_str (rxline c) 0 = Inr line" and "length (pong_arg c) = 64" and "length (mynick c) = 17" and "0 \<in> set (mynick c)"
    and "0 \<in> set (cur_chan c)" and "input_len c \<le> length (input c)"
  shows "\<exists>c'. handle_server_line c = Inr c' \<and> reacts line c c'"
proof -
  let ?s = "msg_cmd line" and ?r = "msg_rest line"
  from line_prefix_ok [OF assms(1)] obtain buf prefix p where b: "(if (if line = [] then 0 else hd line) = 58
        then rbind (next_word (rxline c) 1) (\<lambda>(buf, q, p). Inr (buf, Some q, p)) else Inr (rxline c, None, 0)) = Inr (buf, prefix, p)"
      "length buf = length (rxline c)" "c_str buf p = Inr (msg_tail line)"
      and pre: "case prefix of None \<Rightarrow> msg_prefix line = None
        | Some q \<Rightarrow> \<exists>x. msg_prefix line = Some x \<and> c_str buf q = Inr x \<and> q + length x \<le> p" by blast
  from next_word_ok [OF b(3)] obtain buf2 cmd p2 where
    w: "next_word buf p = Inr (buf2, cmd, p2)" "length buf2 = length buf" "p \<le> cmd" "cmd + length ?s \<le> p2"
      "c_str buf2 cmd = Inr ?s" "c_str buf2 p2 = Inr ?r"
      "\<forall>j t. c_str buf j = Inr t \<and> j + length t \<le> p \<longrightarrow> c_str buf2 j = Inr t"
    by (auto simp: parsed_def msg_cmd_def msg_rest_def)
  have run: "handle_server_line c = (if ?s = [] then Inr (c\<lparr>rxline := buf2\<rparr>)
     else if ?s = asc ''PING'' then
       rbind (next_param buf2 p2) (\<lambda>(buf, q, p).
       rbind (str_copy (pong_arg c) buf q 64) (\<lambda>a.
         Inr (c\<lparr>rxline := buf, pong_arg := a, pong_pending := True\<rparr>)))
     else server_message ?s cmd prefix p2 (c\<lparr>rxline := buf2\<rparr>))"
    by (simp add: handle_server_line_def c_str_rd [OF assms(1)] b(1) w(1,5) del: if_split)
  consider "?s = []" | "?s = asc ''PING''" | (message) "?s \<noteq> []" "?s \<noteq> asc ''PING''" by blast
  then show ?thesis
  proof cases
    case 1
    then have "reacts line c (c\<lparr>rxline := buf2\<rparr>)"
      using b(2) w(2) by (simp add: reacts_def server_texts_def noted_def welcomes_def renames_def 1 commands_neq)
    then show ?thesis using 1 by (simp add: run)
  next
    case 2
    then show ?thesis using ping_reacts [OF 2 w(6) assms(2)] b(2) w(2) by (simp add: run 2 commands_neq)
  next
    case message
    from server_message_ok [OF w(5) message(1) w(6,4) _ _ _ assms(6,3,4,5), of prefix "msg_prefix line"] w(2,3,7) b(2) pre
    obtain c' where "server_message ?s cmd prefix p2 (c\<lparr>rxline := buf2\<rparr>) = Inr c'"
        "message_done ?s (nick_text (msg_prefix line)) ?r c c'"
      by (fastforce split: option.splits)
    then show ?thesis using message message_reacts by (simp add: run)
  qed
qed

end
