(* ===== verification/Irc_Session.thy ===== *)
theory Irc_Session
  imports Irc_Server
begin

text \<open>
  Whole turns of the IRC client: the invariant of its state and of what it draws, on every line
  and every keyboard, for every command, and what it queues and sends. The screen is reached
  through the interface \<open>log_screen\<close>, the connection through \<open>tcp_service\<close>.
\<close>

section \<open>The invariant\<close>

text \<open>
  \<open>irc_wf\<close> holds at every moment; \<open>irc_ok\<close> between two operations, when the input line holds only what
  was typed. While a command is executed its words are cut in the input line.
\<close>

definition irc_wf :: "irc \<Rightarrow> bool" where
  "irc_wf c \<longleftrightarrow> tcp_wf (tcp c) \<and> length (tcp_pkt (tcp c)) = 552 \<and>
     length (input c) = IRC_MAX_INPUT + 2 \<and> input_len c \<le> IRC_MAX_INPUT \<and>
     length (rxline c) = RX_LINE \<and> rxlen c < RX_LINE \<and>
     length (out_line c) = OUT_LINE \<and> out_len c \<le> OUT_LINE - 2 \<and>
     length (mynick c) = MAX_NICK + 1 \<and> 0 \<in> set (mynick c) \<and>
     length (cur_chan c) = MAX_CHAN + 1 \<and> 0 \<in> set (cur_chan c) \<and>
     length (pong_arg c) = 64 \<and> 0 \<in> set (pong_arg c)"

definition irc_ok :: "irc \<Rightarrow> bool" where
  "irc_ok c \<longleftrightarrow> irc_wf c \<and> plain (typed c)"

text \<open>The interface to the screen.\<close>

definition irc_log_out :: "bytes \<Rightarrow> irc \<Rightarrow> bytes" where
  "irc_log_out s c = (case irc_log_line s c of Inl _ \<Rightarrow> [] | Inr c' \<Rightarrow> drop (length (outp c)) (outp c'))"

lemma irc_wf_input: "irc_wf c \<Longrightarrow> input_len c \<le> length (input c)"
  by (simp add: irc_wf_def)

interpretation irc_screen: log_screen irc_ok "\<lambda>c. input_text (typed c)" irc_log_out
  by unfold_locales (auto simp: irc_ok_def plain_input_text irc_log_out_def irc_log_line_ok irc_wf_input clean_plain)

text \<open>What an operation may do: keep the invariant, and draw whole lines.\<close>

definition irc_mid :: "irc \<Rightarrow> irc \<Rightarrow> bool" where
  "irc_mid c c' \<longleftrightarrow> irc_wf c' \<and> (\<exists>xs. outp c' = outp c @ xs \<and> drawn xs)"

definition irc_next :: "irc \<Rightarrow> irc \<Rightarrow> bool" where
  "irc_next c c' \<longleftrightarrow> irc_mid c c' \<and> plain (typed c')"

lemma irc_mid_trans: "irc_mid a b \<Longrightarrow> irc_mid b c \<Longrightarrow> irc_mid a c"
  by (auto simp: irc_mid_def intro: drawn_append)

lemma irc_mid_refl: "irc_wf c \<Longrightarrow> irc_mid c c"
  by (auto simp: irc_mid_def intro: drawn_Nil)

lemma irc_next_refl: "irc_ok c \<Longrightarrow> irc_next c c"
  by (simp add: irc_next_def irc_ok_def irc_mid_refl)

lemma irc_next_trans: "irc_mid a b \<Longrightarrow> irc_next b c \<Longrightarrow> irc_next a c"
  by (auto simp: irc_next_def intro: irc_mid_trans)

lemma irc_next_ok: "irc_next c c' \<Longrightarrow> irc_ok c'"
  by (simp add: irc_next_def irc_mid_def irc_ok_def)

lemma irc_mid_wf: "irc_mid c c' \<Longrightarrow> irc_wf c'"
  by (simp add: irc_mid_def)

lemma irc_next_mid: "irc_next c c' \<Longrightarrow> irc_mid c c'"
  by (simp add: irc_next_def)

text \<open>Changes that are not drawn.\<close>

lemma irc_mid_eq: "irc_mid c c' \<Longrightarrow> irc_wf c2 \<Longrightarrow> outp c2 = outp c' \<Longrightarrow> irc_mid c c2"
  by (simp add: irc_mid_def)

lemma irc_next_eq: "irc_next c c' \<Longrightarrow> irc_wf c2 \<Longrightarrow> outp c2 = outp c' \<Longrightarrow> typed c2 = typed c' \<Longrightarrow> irc_next c c2"
  by (simp add: irc_next_def irc_mid_def)

lemma irc_wf_tcp: "irc_wf c \<Longrightarrow> tcp_kept (tcp c) t \<Longrightarrow> irc_wf (c\<lparr>tcp := t\<rparr>)"
  by (simp add: irc_wf_def tcp_kept_def)

lemma irc_wf_window [simp]: "irc_wf (c\<lparr>window_open := w\<rparr>) = irc_wf c"
  by (simp add: irc_wf_def)

lemma irc_next_tcp: "irc_next c c' \<Longrightarrow> tcp_kept (tcp c') t \<Longrightarrow> irc_next c (c'\<lparr>tcp := t\<rparr>)"
  by (auto simp: typed_def irc_next_def irc_mid_def intro: irc_wf_tcp)

lemma irc_next_window [simp]: "irc_next c (c'\<lparr>window_open := w\<rparr>) = irc_next c c'"
  by (simp add: irc_next_def irc_mid_def typed_def)

section \<open>The log and the input row\<close>

lemma irc_logged_next:
  assumes "irc_next c c'"
  shows "irc_log_line s c' = Inr (irc_logged s c')" and "irc_next c (irc_logged s c')"
proof -
  have ok: "irc_wf c'" "plain (typed c')" using irc_next_ok [OF assms] by (simp_all add: irc_ok_def)
  show "irc_log_line s c' = Inr (irc_logged s c')" using irc_wf_input [OF ok(1)] by (rule irc_log_line_ok)
  have "drawn (log_output (clean s) (input_text (typed c')))"
    using drawn_log [OF drawn_Nil plain_clean plain_input_text [OF ok(2)]] by simp
  moreover have "irc_wf (irc_logged s c')" using ok(1) by (simp add: irc_wf_def)
  ultimately show "irc_next c (irc_logged s c')"
    using assms by (auto simp: irc_next_def irc_mid_def intro: drawn_append)
qed

lemma holds_log: "irc_next c c' \<Longrightarrow> (\<And>c2. irc_next c c2 \<Longrightarrow> holds_res P (f c2)) \<Longrightarrow> holds_res P (rbind (irc_log_line s c') f)"
  by (simp add: irc_logged_next)

lemma irc_help_next: "irc_next c c' \<Longrightarrow> holds_res (irc_next c) (irc_help c')"
  unfolding irc_help_def by (intro holds_log, assumption+) (simp add: irc_logged_next [where c = c])

lemma irc_draw_next:
  assumes "irc_mid c c'" and "irc_wf c2" and "outp c2 = outp c'" and "plain (typed c2)"
  shows "holds_res (\<lambda>c3. irc_next c c3 \<and> input c3 = input c2) (irc_draw_input c2)"
proof -
  have "drawn (input_output (input_text (typed c2)))"
    using drawn_input [OF drawn_Nil plain_input_text [OF assms(4)]] by simp
  moreover have "irc_wf (putcs xs c2)" "typed (putcs xs c2) = typed c2" for xs
    using assms(2) by (simp_all add: irc_wf_def putcs_def typed_def)
  ultimately have "irc_next c (putcs (input_output (input_text (typed c2))) c2)"
    using assms(1,3,4) by (auto simp: irc_next_def irc_mid_def putcs_def intro: drawn_append)
  then show ?thesis
    using irc_draw_input_ok [OF irc_wf_input [OF assms(2)]] by (simp add: putcs_def)
qed

lemma clear_input_next:
  assumes "irc_mid c c'"
  shows "holds_res (\<lambda>c2. irc_next c c2 \<and> input c2 = input c') (clear_input c')"
  unfolding clear_input_def using assms irc_mid_wf [OF assms]
  by (intro holds_res_mono [OF irc_draw_next [OF assms]]) (simp_all add: irc_wf_def typed_def)

section \<open>Received data\<close>

lemma reacts_next:
  assumes "irc_ok c" and "reacts line c c'"
  shows "irc_next c c' \<and> input c' = input c"
proof -
  have wf: "irc_wf c" and pl: "plain (typed c)" using assms(1) by (simp_all add: irc_ok_def)
  from assms(2) obtain P J where "noted (server_texts line) (c\<lparr>mynick := mynick c', pong_arg := pong_arg c',
      pong_pending := P, join_pending := J\<rparr>) c'" unfolding reacts_def by blast
  moreover define b where "b = c\<lparr>mynick := mynick c', pong_arg := pong_arg c', pong_pending := P, join_pending := J\<rparr>"
  ultimately have n: "noted (server_texts line) b c'" by simp
  have zero: "0 \<in> set m" if "c_str m 0 = Inr s" for m s using that by (auto simp: c_str_def split: if_splits)
  have "length (mynick c') = 17 \<and> 0 \<in> set (mynick c')" "length (pong_arg c') = 64 \<and> 0 \<in> set (pong_arg c')"
    using assms(2) wf by (auto simp: reacts_def irc_wf_def zero split: if_splits)
  then have "irc_wf b" using wf by (simp add: irc_wf_def b_def)
  then have "irc_wf c'" "input c' = input b" "input_len c' = input_len b"
    using n by (cases b; cases c'; auto simp: noted_def irc_wf_def)+
  moreover have "drawn (log_output (clean t) (input_text (typed b)))" for t
    using drawn_log [OF drawn_Nil plain_clean plain_input_text [of "typed b"]] pl by (simp add: b_def typed_def)
  then have "drawn (concat (map (\<lambda>t. log_output (clean t) (input_text (typed b))) ts))" for ts
    by (induction ts) (auto intro: drawn_Nil drawn_append)
  ultimately show ?thesis
    using n pl by (auto simp: irc_next_def irc_mid_def noted_def typed_def b_def)
qed

lemma rx_char_next:
  assumes "irc_next c c'"
  shows "holds_res (\<lambda>c2. irc_next c c2 \<and> input c2 = input c') (rx_char ch c')"
proof -
  have wf: "irc_wf c'" and ok: "irc_ok c'" using irc_next_ok [OF assms] by (simp_all add: irc_ok_def)
  then have len: "rxlen c' < length (rxline c')" by (simp add: irc_wf_def)
  let ?c = "c'\<lparr>rxline := (rxline c')[rxlen c' := 0], rxlen := 0\<rparr>"
  have "irc_ok ?c" using ok by (simp add: irc_ok_def irc_wf_def typed_def)
  moreover have "c_str (rxline ?c) 0 = Inr (c_val (rxline ?c))"
    using len set_update_memI [of "rxlen c'" "rxline c'" 0] by (intro c_str_val) simp
  from handle_server_line_reacts [OF this] obtain c2 where
    "handle_server_line ?c = Inr c2" "reacts (c_val (rxline ?c)) ?c c2"
    using wf by (auto simp: irc_wf_def)
  ultimately have line: "holds_res (\<lambda>c2. irc_next c c2 \<and> input c2 = input c') (handle_server_line ?c)"
    using reacts_next [of ?c] irc_next_trans [of c ?c] irc_next_mid [OF assms]
      irc_mid_eq [of c c' ?c] by (auto simp: irc_ok_def)
  have store: "irc_next c (c'\<lparr>rxline := (rxline c')[rxlen c' := ch], rxlen := rxlen c' + 1\<rparr>)" if "rxlen c' < 319"
    using that wf by (intro irc_next_eq [OF assms]) (simp_all add: irc_wf_def typed_def)
  show ?thesis
    using assms len line store by (simp add: rx_char_def wr_def)
qed

lemma irc_show_data_next:
  "irc_next c c' \<Longrightarrow> len \<le> length data \<Longrightarrow> holds_res (\<lambda>c2. irc_next c c2 \<and> input c2 = input c') (irc_show_data data len c')"
proof (induction len arbitrary: data c')
  case (Suc len)
  from Suc.prems(2) obtain b bs where data: "data = b # bs" by (cases data) auto
  show ?case
    unfolding data irc_show_data.simps
    by (rule holds_res_rbindI [OF rx_char_next [OF Suc.prems(1)]])
      (use Suc.prems(2) in \<open>auto simp: data intro!: holds_res_mono [OF Suc.IH]\<close>)
qed simp

section \<open>Sending\<close>

text \<open>The line that is being built, and a string put at its end.\<close>

definition queued :: "irc \<Rightarrow> bytes" where
  "queued c = take (out_len c) (out_line c)"

definition puts_queue :: "bytes \<Rightarrow> irc \<Rightarrow> irc \<Rightarrow> bool" where
  "puts_queue s c c' \<longleftrightarrow> irc_wf c' \<and> queued c' = take 254 (queued c @ s) \<and>
     c' = c\<lparr>out_line := out_line c', out_len := out_len c'\<rparr>"

lemma o_loop_ok:
  "0 \<notin> set s \<Longrightarrow> length obuf = 256 \<Longrightarrow> len \<le> 254 \<Longrightarrow>
   \<exists>obuf' len'. o_loop (s @ 0 # rest) obuf len = Inr (obuf', len') \<and> length obuf' = 256 \<and> len' \<le> 254 \<and>
     take len' obuf' = take 254 (take len obuf @ s)"
proof (induction s arbitrary: obuf len)
  case (Cons ch s)
  show ?case
  proof (cases "len < 254")
    case True
    have "take (len + 1) (obuf[len := ch]) = take len obuf @ [ch]"
      using True Cons.prems by (simp add: take_Suc_conv_app_nth)
    then show ?thesis using Cons.IH [of "obuf[len := ch]" "len + 1"] Cons.prems True by (auto simp: wr_def)
  next
    case False
    then show ?thesis using Cons.prems by simp
  qed
qed simp

lemma o_str_ok:
  assumes "irc_wf c" and "c_str s 0 = Inr t"
  shows "\<exists>c'. o_str s c = Inr c' \<and> puts_queue t c c'"
proof -
  from assms(2) obtain rest where r: "s = t @ 0 # rest" "0 \<notin> set t" by (auto elim: c_strE)
  from o_loop_ok [OF r(2), of "out_line c" "out_len c" rest] assms(1) obtain obuf len where
    "o_loop s (out_line c) (out_len c) = Inr (obuf, len)" "length obuf = 256" "len \<le> 254"
    "take len obuf = take 254 (queued c @ t)" by (auto simp: irc_wf_def r(1) queued_def)
  then show ?thesis
    using assms(1) by (auto simp: o_str_def puts_queue_def irc_wf_def queued_def)
qed

lemma holds_o_str:
  assumes "irc_mid c c'" and "0 \<in> set s"
  shows "holds_res (\<lambda>c2. irc_mid c c2 \<and> c2 = c'\<lparr>out_line := out_line c2, out_len := out_len c2\<rparr>) (o_str s c')"
proof -
  from o_str_ok [OF irc_mid_wf [OF assms(1)] c_str_val [OF assms(2)]] obtain c2 where
    c2: "o_str s c' = Inr c2" "irc_wf c2" "c2 = c'\<lparr>out_line := out_line c2, out_len := out_len c2\<rparr>"
    by (auto simp: puts_queue_def)
  have "outp c2 = outp c'" using c2(3) by (cases c2; cases c') auto
  then show ?thesis using c2 assms(1) by (auto intro: irc_mid_eq)
qed

lemma irc_ack_next:
  assumes "irc_next c c'"
  shows "holds_res (\<lambda>(rc, t, d'). irc_next c (c'\<lparr>tcp := t\<rparr>)) (tcp_send pf fuel (tcp c') 0 None w d)"
  using irc_next_ok [OF assms] tcp_wf_room [of "tcp c'"]
  by (intro holds_res_mono [OF stack.send_safe]) (auto simp: irc_ok_def irc_wf_def data_ok_def intro: irc_next_tcp [OF assms])

lemma irc_recv_next:
  assumes "irc_next c c'" and "0 \<le> EAGAIN pf"
  shows "holds_res (\<lambda>(rc, t, d'). irc_next c (c'\<lparr>tcp := t\<rparr>) \<and> nat rc \<le> length (tcp_rx_buffer t))
    (tcp_recv_timeout pf fuel (tcp c') 0 to d)"
  using irc_next_ok [OF assms(1)] assms(2)
  by (intro holds_res_mono [OF stack.recv_safe]) (auto simp: irc_ok_def irc_wf_def rx_bound_def intro: irc_next_tcp [OF assms(1)])

lemma irc_drain_next:
  "irc_next c c' \<Longrightarrow> 0 \<le> EAGAIN pf \<Longrightarrow>
   holds_res (\<lambda>(c2, d'). irc_next c c2 \<and> input c2 = input c') (irc_drain pf fuel left c' d)"
proof (induction left arbitrary: c' d)
  case (Suc left)
  have shw: "holds_res (\<lambda>c2. irc_next c c2 \<and> input c2 = input c')
      (if rc > 0 then irc_show_data (tcp_rx_buffer (tcp c3)) (nat rc) c3 else Inr c3)"
    if "irc_next c c3" "nat rc \<le> length (tcp_rx_buffer (tcp c3))" "input c3 = input c'" for rc c3
    using irc_show_data_next [OF that(1,2)] that by simp
  show ?case
    unfolding irc_drain.simps
  proof (rule holds_res_rbindI [OF irc_recv_next [OF Suc.prems]], clarify)
    fix rc t d1
    assume t: "irc_next c (c'\<lparr>tcp := t\<rparr>)" "nat rc \<le> length (tcp_rx_buffer t)"
    have next_turn: "holds_res (\<lambda>(c2, d'). irc_next c c2 \<and> input c2 = input c') (irc_drain pf fuel left c2 d1)"
      if "irc_next c c2 \<and> input c2 = input c'" for c2
      using that Suc.IH [of c2 d1] Suc.prems(2) by simp
    show "holds_res (\<lambda>(c2, d'). irc_next c c2 \<and> input c2 = input c') (let c = c'\<lparr>tcp := t\<rparr> in
       rbind (if 0 < rc then irc_show_data (tcp_rx_buffer (tcp c)) (nat rc) c else Inr c) (\<lambda>c. irc_drain pf fuel left c d1))"
      unfolding Let_def by (rule holds_res_rbindI [OF shw next_turn]) (use t in simp_all)
  qed
qed simp

lemma o_send_next:
  assumes "irc_next c c'" and "0 \<le> EAGAIN pf"
  shows "holds_res (\<lambda>(c2, d'). irc_next c c2 \<and> input c2 = input c') (o_send pf fuel c' d)"
  unfolding o_send_def
proof (rule holds_res_rbindI [OF irc_ack_next [OF assms(1)]], clarify,
    rule holds_res_rbindI [OF irc_drain_next [OF _ assms(2)]], simp, clarify)
  fix c2 :: irc and e and t :: tcp_context
  assume c2: "irc_next c c2" and inp: "input c2 = input (c'\<lparr>tcp := t, window_open := False\<rparr>)"
  have wf: "irc_wf c2" using irc_next_ok [OF c2] by (simp add: irc_ok_def)
  let ?o = "(out_line c2)[out_len c2 := 13, out_len c2 + 1 := 10]"
  have store: "wr (out_line c2) (out_len c2) 13 = Inr ((out_line c2)[out_len c2 := 13])"
    "wr ((out_line c2)[out_len c2 := 13]) (out_len c2 + 1) 10 = Inr ?o"
    using wf by (simp_all add: wr_def irc_wf_def)
  have send: "holds_res (\<lambda>(rc, t, d'). tcp_kept (tcp c2) t) (tcp_send pf fuel (tcp c2) (out_len c2 + 2) (Some ?o) 0 e)"
    using wf by (intro holds_res_mono [OF stack.send_safe]) (auto simp: irc_wf_def data_ok_def)
  have sent: "irc_next c (c2\<lparr>tcp := t, window_open := False, out_line := ?o, out_len := 0\<rparr>)" if "tcp_kept (tcp c2) t" for t
    using irc_wf_tcp [OF wf that] by (intro irc_next_eq [OF c2]) (simp_all add: irc_wf_def typed_def)
  have fail: "holds_res (\<lambda>c3. irc_next c c3 \<and> input c3 = input c') (if rc < 0 then irc_log_line s c3 else Inr c3)"
    if "irc_next c c3" "input c3 = input c'" for rc :: int and s c3
    using irc_logged_next [OF that(1), of s] that by simp
  show "holds_res (\<lambda>(c2, d'). irc_next c c2 \<and> input c2 = input c')
     (rbind (wr (out_line c2) (out_len c2) 13) (\<lambda>obuf.
     rbind (wr obuf (out_len c2 + 1) 10) (\<lambda>obuf.
     rbind (tcp_send pf fuel (tcp c2) (out_len c2 + 2) (Some obuf) 0 e) (\<lambda>(rc, t, d).
     let c = c2\<lparr>tcp := t, window_open := False, out_line := obuf, out_len := 0\<rparr> in
     rbind (if rc < 0 then irc_log_line (asc ''*** send failed'') c else Inr c) (\<lambda>c. Inr (c, d))))))"
    unfolding store rbind_Inr Let_def
    by (rule holds_res_rbindI [OF send], clarify, rule holds_res_rbindI [OF fail [OF sent]]) (use inp in simp_all)
qed

lemma clear_send_next:
  assumes "irc_mid c c'" and "0 \<le> EAGAIN pf"
  shows "holds_res (\<lambda>(c2, d'). irc_next c c2 \<and> input c2 = input c') (clear_send pf fuel c' d)"
  unfolding clear_send_def
  by (rule holds_res_rbindI [OF clear_input_next [OF assms(1)]], rule holds_res_mono [OF o_send_next [OF _ assms(2)]]) auto

lemma irc_poll_net_next:
  assumes "irc_next c c'" and "0 \<le> EAGAIN pf"
  shows "holds_res (\<lambda>(rc, c2, d'). irc_next c c2) (irc_poll_net pf fuel c' d)"
proof -
  have opened: "holds_res (\<lambda>(c2, d'). irc_next c c2)
      (if \<not> window_open c' then rbind (tcp_send pf fuel (tcp c') 0 None RX_WINDOW d) (\<lambda>(_, t, d).
         Inr (c'\<lparr>tcp := t, window_open := True\<rparr>, d)) else Inr (c', d))"
    using assms(1) by (auto intro!: holds_res_rbindI [OF irc_ack_next [OF assms(1)]])
  have log: "holds_res (\<lambda>(rc, c2, d'). irc_next c c2) (rbind (irc_log_line s c2) (\<lambda>c. Inr (r, c, e)))"
    if "irc_next c c2" for s c2 r and e :: 'a
    using irc_logged_next [OF that] by simp
  have shw: "holds_res (\<lambda>(rc, c2, d'). irc_next c c2) (rbind (irc_show_data data len (c2\<lparr>window_open := w\<rparr>)) (\<lambda>c. Inr (r, c, e)))"
    if "irc_next c c2" "len \<le> length data" for c2 r data len w and e :: 'a
    by (rule holds_res_rbindI [OF irc_show_data_next]) (use that in auto)
  have flags: "holds_res (\<lambda>(rc, c2, d'). irc_next c c2) (rbind (rd (tcp_pkt (tcp c2)) (20 + 13)) (\<lambda>fl.
      if fl AND TCP_FIN \<noteq> 0 then rbind (irc_log_line (asc ''*** server closed the connection'') c2) (\<lambda>c. Inr (- 1, c, e))
      else Inr (0, c2, e)))" if "irc_next c c2" for c2 and e :: 'a
  proof -
    have "33 < length (tcp_pkt (tcp c2))" using irc_next_ok [OF that] by (simp add: irc_ok_def irc_wf_def)
    then show ?thesis using that by (auto simp: rd_def intro!: log)
  qed
  show ?thesis
    unfolding irc_poll_net_def
  proof (rule holds_res_rbindI [OF opened], clarify, rule holds_res_rbindI [OF irc_recv_next [OF _ assms(2)]], assumption, clarify)
    fix c1 :: irc and rc t and e :: 'a
    assume t: "irc_next c (c1\<lparr>tcp := t\<rparr>)" "nat rc \<le> length (tcp_rx_buffer t)"
    show "holds_res (\<lambda>(rc, c2, d'). irc_next c c2) (let c = c1\<lparr>tcp := t\<rparr> in
       if rc = - EAGAIN pf then Inr (0, c, e)
       else if rc = - ERESET then rbind (irc_log_line (asc ''*** connection reset by peer'') c) (\<lambda>c. Inr (- 1, c, e))
       else if rc < 0 then Inr (0, c, e)
       else if rc > 0 then rbind (irc_show_data (tcp_rx_buffer (tcp c)) (nat rc) (c\<lparr>window_open := False\<rparr>)) (\<lambda>c. Inr (0, c, e))
       else rbind (rd (tcp_pkt (tcp c)) (20 + 13)) (\<lambda>fl.
         if fl AND TCP_FIN \<noteq> 0 then rbind (irc_log_line (asc ''*** server closed the connection'') c) (\<lambda>c. Inr (- 1, c, e))
         else Inr (0, c, e)))"
      unfolding Let_def
      by (intro holds_res_if log [OF t(1)] shw [OF t(1)] flags [OF t(1)]) (use t in simp_all)
  qed
qed

text \<open>A string queued and the rest of the operation; with it the commands go through one by one.\<close>

lemma holds_queue:
  assumes "irc_mid c c'" and "0 \<in> set s"
    and "\<And>c2. irc_mid c c2 \<Longrightarrow> input c2 = input c' \<Longrightarrow> cur_chan c2 = cur_chan c' \<Longrightarrow> mynick c2 = mynick c' \<Longrightarrow>
      pong_arg c2 = pong_arg c' \<Longrightarrow> typed c2 = typed c' \<Longrightarrow> holds_res P (f c2)"
  shows "holds_res P (rbind (o_str s c') f)"
proof (rule holds_res_rbindI [OF holds_o_str [OF assms(1,2)]], elim conjE)
  fix c2
  assume c2: "irc_mid c c2" "c2 = c'\<lparr>out_line := out_line c2, out_len := out_len c2\<rparr>"
  obtain o' n where "c2 = c'\<lparr>out_line := o', out_len := n\<rparr>" using c2(2) by blast
  then show "holds_res P (f c2)" using assms(3) [OF c2(1)] by (simp add: typed_def)
qed

lemma zero_in_lit [simp]: "0 \<in> set (lit s)"
  by (simp add: lit_def)

lemma irc_wf_strings:
  assumes "irc_mid c c'"
  shows "0 \<in> set (cur_chan c')" and "0 \<in> set (mynick c')" and "0 \<in> set (pong_arg c')"
    and "\<exists>ch. rd (cur_chan c') 0 = Inr ch" and "length (cur_chan c') = 33"
  using irc_mid_wf [OF assms] by (auto simp: irc_wf_def rd_def)

lemma send_done:
  assumes "irc_mid c c'" and "0 \<le> EAGAIN pf"
  shows "holds_res (\<lambda>(rc, c2, d'). irc_next c c2) (rbind (clear_send pf fuel c' d) (\<lambda>(c, d). Inr (r, c, d)))"
  by (rule holds_res_rbindI [OF clear_send_next [OF assms]]) auto

lemma usage_next:
  assumes "irc_mid c c'"
  shows "holds_res (\<lambda>(rc, c2, d'). irc_next c c2) (usage s c' d)"
  unfolding usage_def
  by (rule holds_res_rbindI [OF clear_input_next [OF assms]]) (use irc_logged_next in auto)

lemma flush_pending_next:
  assumes "irc_next c c'" and "0 \<le> EAGAIN pf"
  shows "holds_res (\<lambda>(c2, d'). irc_next c c2) (flush_pending pf fuel c' d)"
proof -
  have sent: "holds_res (\<lambda>(c2, d'). irc_next c c2) (o_send pf fuel c2 e)" if "irc_mid c c2" "plain (typed c2)" for c2 e
    using that by (intro holds_res_mono [OF o_send_next [OF _ assms(2)]]) (auto simp: irc_next_def)
  have pend: "irc_mid c (c2\<lparr>pong_pending := b\<rparr>)" "irc_mid c (c2\<lparr>join_pending := b\<rparr>)" if "irc_next c c2" for c2 b
    using irc_next_ok [OF that] by (auto intro!: irc_mid_eq [OF irc_next_mid [OF that]] simp: irc_ok_def irc_wf_def)
  have pl: "plain (typed c2)" if "irc_next c c2" for c2 using that by (simp add: irc_next_def)
  have pong: "holds_res (\<lambda>(c2, d'). irc_next c c2) (if pong_pending c' then
              rbind (o_str (lit ''PONG :'') (c'\<lparr>pong_pending := False\<rparr>)) (\<lambda>c.
              rbind (o_str (pong_arg c) c) (\<lambda>c. o_send pf fuel c d))
            else Inr (c', d))"
    using assms(1) pl [OF assms(1)] irc_wf_strings(3) [OF irc_next_mid [OF assms(1)]]
    by (auto intro!: holds_queue [where c = c] pend sent simp: typed_def)
  have join: "holds_res (\<lambda>(c2, d'). irc_next c c2) (if join_pending c2 then
       let c = c2\<lparr>join_pending := False\<rparr> in
       rbind (rd (cur_chan c) 0) (\<lambda>ch.
         if ch \<noteq> 0 then rbind (o_str (lit ''JOIN '') c) (\<lambda>c. rbind (o_str (cur_chan c) c) (\<lambda>c. o_send pf fuel c e)) else Inr (c, e))
     else Inr (c2, e))" if "irc_next c c2" for c2 e
  proof -
    let ?c = "c2\<lparr>join_pending := False\<rparr>"
    have c: "irc_mid c ?c" "plain (typed ?c)" using pend [OF that] pl [OF that] by (simp_all add: typed_def)
    then have "irc_next c ?c" by (simp add: irc_next_def)
    moreover obtain ch where "rd (cur_chan ?c) 0 = Inr ch" using irc_wf_strings(4) [OF c(1)] by blast
    moreover have "holds_res (\<lambda>(c2, d'). irc_next c c2) (rbind (o_str (lit ''JOIN '') ?c) (\<lambda>c. rbind (o_str (cur_chan c) c) (\<lambda>c. o_send pf fuel c e)))"
      using c irc_wf_strings by (auto intro!: holds_queue [where c = c] sent)
    ultimately show ?thesis using that by (simp add: Let_def)
  qed
  show ?thesis
    unfolding flush_pending_def by (rule holds_res_rbindI [OF pong], clarify, rule join)
qed

section \<open>The commands\<close>

text \<open>The line typed, as the commands find it: cut into words, with the read pointer inside a string.\<close>

definition arg_ok :: "irc \<Rightarrow> nat \<Rightarrow> bool" where
  "arg_ok c arg \<longleftrightarrow> (\<exists>s. c_str (input c) arg = Inr s)"

lemma arg_okD: "arg_ok c arg \<Longrightarrow> \<exists>ch. rd (input c) arg = Inr ch" "arg_ok c arg \<Longrightarrow> 0 \<in> set (drop arg (input c))"
  by (auto simp: arg_ok_def c_str_rd) (auto simp: c_str_def split: if_splits)

lemma arg_ok_cong: "input c2 = input c \<Longrightarrow> arg_ok c2 arg = arg_ok c arg"
  by (simp add: arg_ok_def)

lemma irc_mid_input: "irc_mid c c' \<Longrightarrow> length inp = length (input c') \<Longrightarrow> irc_mid c (c'\<lparr>input := inp\<rparr>)"
  by (simp add: irc_mid_def irc_wf_def)

lemma irc_mid_chan: "irc_mid c c' \<Longrightarrow> length ch = 33 \<Longrightarrow> 0 \<in> set ch \<Longrightarrow> irc_mid c (c'\<lparr>cur_chan := ch\<rparr>)"
  by (simp add: irc_mid_def irc_wf_def)

lemma cut_word:
  assumes "arg_ok c arg"
  shows "\<exists>inp q p. next_word (input c) arg = Inr (inp, q, p) \<and> length inp = length (input c) \<and>
    arg_ok (c\<lparr>input := inp\<rparr>) q \<and> arg_ok (c\<lparr>input := inp\<rparr>) p"
proof -
  from assms obtain s where "c_str (input c) arg = Inr s" by (auto simp: arg_ok_def)
  from next_word_ok [OF this] show ?thesis by (auto simp: parsed_def arg_ok_def)
qed

lemma say_line_next:
  assumes "irc_next c c'" and "0 \<in> set (input c')" and "0 \<le> EAGAIN pf"
  shows "holds_res (\<lambda>(rc, c2, d'). irc_next c c2) (say_line pf fuel c' d)"
proof -
  note m = irc_next_mid [OF assms(1)]
  obtain ch where ch: "rd (cur_chan c') 0 = Inr ch" using irc_wf_strings(4) [OF m] by blast
  have no_chan: "holds_res (\<lambda>(rc, c2, d'). irc_next c c2) (rbind (irc_log_line s c') (\<lambda>c. rbind (clear_input c) (\<lambda>c. Inr (0, c, d))))" for s
    unfolding irc_logged_next(1) [OF assms(1)] rbind_Inr
    by (rule holds_res_rbindI [OF clear_input_next [OF irc_next_mid [OF irc_logged_next(2) [OF assms(1)]]]]) auto
  have echo: "holds_res (\<lambda>(rc, c2, d'). irc_next c c2) (rbind (c_str (mynick c2) 0) (\<lambda>nick.
       rbind (c_str (input c2) 0) (\<lambda>s. rbind (log_line4 (asc ''<'') nick (asc ''> '') s c2) (\<lambda>c. Inr (0, c, e)))))"
    if "irc_next c c2" "input c2 = input c'" for c2 and e :: 'a
    using irc_logged_next [OF that(1)] c_str_val [OF irc_wf_strings(2) [OF irc_next_mid [OF that(1)]]] c_str_val [OF assms(2)] that(2)
    by (simp add: log_line_pieces)
  have send: "holds_res (\<lambda>(rc, c2, d'). irc_next c c2) (rbind (clear_send pf fuel c2 d) (\<lambda>(c, d).
       rbind (c_str (mynick c) 0) (\<lambda>nick.
       rbind (c_str (input c) 0) (\<lambda>s. rbind (log_line4 (asc ''<'') nick (asc ''> '') s c) (\<lambda>c. Inr (0, c, d))))))"
    if "irc_mid c c2" "input c2 = input c'" for c2
    by (rule holds_res_rbindI [OF clear_send_next [OF that(1) assms(3)]]) (auto intro!: echo simp: that(2))
  show ?thesis
    unfolding say_line_def ch rbind_Inr
    by (rule holds_res_if, rule no_chan, rule holds_queue [OF m], simp, rule holds_queue, assumption, simp add: irc_wf_strings(1) [OF m],
        rule holds_queue, assumption, simp, rule holds_queue, assumption, use assms(2) in simp, rule send, assumption, simp)
qed

text \<open>The shape all the other commands have: strings are queued, the input row is cleared, the line is sent.\<close>

lemma cmd_join_next:
  assumes "irc_mid c c'" and "arg_ok c' arg" and "0 \<le> EAGAIN pf"
  shows "holds_res (\<lambda>(rc, c2, d'). irc_next c c2) (cmd_join pf fuel arg c' d)"
proof -
  obtain ok where ok: "is_channel (input c') arg = Inr ok" using arg_okD(1) [OF assms(2)] by (auto simp: is_channel_def)
  from cut_word [OF assms(2)] obtain inp q p where w: "next_word (input c') arg = Inr (inp, q, p)" "length inp = length (input c')"
    "arg_ok (c'\<lparr>input := inp\<rparr>) q" by blast
  from w(3) obtain s where "c_str inp q = Inr s" by (auto simp: arg_ok_def)
  from str_copy_ok [OF this irc_wf_strings(5) [OF assms(1)]] obtain chan where
    chan: "str_copy (cur_chan c') inp q 33 = Inr chan" "length chan = 33" "c_str chan 0 = Inr (take 32 s)" by auto
  have z: "0 \<in> set chan" using chan(3) by (auto simp: c_str_def split: if_splits)
  have mid: "irc_mid c (c'\<lparr>input := inp, cur_chan := chan\<rparr>)"
    using irc_mid_chan [OF irc_mid_input [OF assms(1) w(2)] chan(2) z] .
  show ?thesis
    unfolding cmd_join_def ok rbind_Inr
  proof (rule holds_res_if)
    show "holds_res (\<lambda>(rc, c2, d'). irc_next c c2) (rbind (next_word (input c') arg) (\<lambda>(inp, q, _).
       rbind (str_copy (cur_chan c') inp q (MAX_CHAN + 1)) (\<lambda>chan.
       rbind (o_str (lit ''JOIN '') (c'\<lparr>input := inp, cur_chan := chan\<rparr>)) (\<lambda>c.
       rbind (o_str (cur_chan c) c) (\<lambda>c. rbind (clear_send pf fuel c d) (\<lambda>(c, d). Inr (0, c, d)))))))"
      using mid z by (simp add: w(1) chan(1)) (auto intro!: holds_queue [where c = c] send_done assms(3))
  qed (rule usage_next [OF assms(1)])
qed

lemma o_trailing_queue:
  assumes "irc_mid c c'" and "arg_ok c' arg"
    and "\<And>c2. irc_mid c c2 \<Longrightarrow> input c2 = input c' \<Longrightarrow> cur_chan c2 = cur_chan c' \<Longrightarrow> holds_res P (f c2)"
  shows "holds_res P (rbind (o_trailing arg c') f)"
proof -
  obtain ch where ch: "rd (input c') arg = Inr ch" using arg_okD(1) [OF assms(2)] by blast
  have "holds_res P (rbind (o_str (lit '' :'') c') (\<lambda>c. rbind (o_str (drop arg (input c)) c) f))"
    using arg_okD(2) [OF assms(2)] by (auto intro!: holds_queue [where c = c] assms)
  then show ?thesis
    using assms(1,3) by (simp add: o_trailing_def ch rbind_assoc)
qed

lemma cmd_part_next:
  assumes "irc_mid c c'" and "arg_ok c' arg" and "0 \<le> EAGAIN pf"
  shows "holds_res (\<lambda>(rc, c2, d'). irc_next c c2) (cmd_part pf fuel arg c' d)"
proof -
  obtain ch where ch: "rd (cur_chan c') 0 = Inr ch" using irc_wf_strings(4) [OF assms(1)] by blast
  have part: "holds_res (\<lambda>(rc, c2, d'). irc_next c c2) (rbind (wr (cur_chan c2) 0 0) (\<lambda>chan.
       rbind (clear_send pf fuel (c2\<lparr>cur_chan := chan\<rparr>) d) (\<lambda>(c, d). Inr (0, c, d))))" if "irc_mid c c2" for c2
    using irc_wf_strings(5) [OF that] irc_mid_chan [OF that] set_update_memI [of 0 "cur_chan c2" 0]
    by (auto simp: wr_def intro!: send_done assms(3))
  show ?thesis
    unfolding cmd_part_def ch rbind_Inr
    by (rule holds_res_if, rule usage_next [OF assms(1)], rule holds_queue [OF assms(1)], simp, rule holds_queue, assumption,
        simp add: irc_wf_strings(1) [OF assms(1)], rule o_trailing_queue, assumption, rule arg_ok_cong [THEN iffD2, OF _ assms(2)], simp, rule part)
qed

lemma cmd_topic_next:
  assumes "irc_mid c c'" and "arg_ok c' arg" and "0 \<le> EAGAIN pf"
  shows "holds_res (\<lambda>(rc, c2, d'). irc_next c c2) (cmd_topic pf fuel arg c' d)"
proof -
  obtain ch where ch: "rd (cur_chan c') 0 = Inr ch" using irc_wf_strings(4) [OF assms(1)] by blast
  show ?thesis
    unfolding cmd_topic_def ch rbind_Inr
    by (rule holds_res_if, rule usage_next [OF assms(1)], rule holds_queue [OF assms(1)], simp, rule holds_queue, assumption,
        simp add: irc_wf_strings(1) [OF assms(1)], rule o_trailing_queue, assumption, rule arg_ok_cong [THEN iffD2, OF _ assms(2)], simp,
        rule send_done [OF _ assms(3)])
qed

lemma cmd_text_next:
  assumes "irc_mid c c'" and "arg_ok c' arg" and "0 \<le> EAGAIN pf"
  shows "holds_res (\<lambda>(rc, c2, d'). irc_next c c2) (cmd_nick pf fuel arg c' d)"
    and "holds_res (\<lambda>(rc, c2, d'). irc_next c c2) (cmd_raw pf fuel arg c' d)"
    and "holds_res (\<lambda>(rc, c2, d'). irc_next c c2) (cmd_quit pf fuel arg c' d)"
proof -
  obtain ch where ch: "rd (input c') arg = Inr ch" using arg_okD(1) [OF assms(2)] by blast
  note z = arg_okD(2) [OF assms(2)]
  show "holds_res (\<lambda>(rc, c2, d'). irc_next c c2) (cmd_nick pf fuel arg c' d)"
    unfolding cmd_nick_def ch rbind_Inr
    by (rule holds_res_if, rule usage_next [OF assms(1)], rule holds_queue [OF assms(1)], simp, rule holds_queue, assumption,
        simp add: z, rule send_done [OF _ assms(3)])
  show "holds_res (\<lambda>(rc, c2, d'). irc_next c c2) (cmd_raw pf fuel arg c' d)"
    unfolding cmd_raw_def ch rbind_Inr
    by (rule holds_res_if, rule usage_next [OF assms(1)], rule holds_queue [OF assms(1) z], rule send_done [OF _ assms(3)])
  have "holds_res (\<lambda>(rc, c2, d'). irc_next c c2) (rbind (rd (input c2) arg) (\<lambda>ch.
      rbind (o_str (if ch \<noteq> 0 then drop arg (input c2) else lit ''spectrum signing off'') c2) (\<lambda>c.
      rbind (clear_send pf fuel c d) (\<lambda>(c, d). Inr (- 1, c, d)))))" if "irc_mid c c2" "input c2 = input c'" for c2
    using that z by (auto simp: ch intro!: holds_queue [where c = c] send_done assms(3))
  then show "holds_res (\<lambda>(rc, c2, d'). irc_next c c2) (cmd_quit pf fuel arg c' d)"
    unfolding cmd_quit_def by (intro holds_queue [OF assms(1)]) simp_all
qed

lemma cmd_names_next:
  assumes "irc_mid c c'" and "arg_ok c' arg" and "0 \<le> EAGAIN pf"
  shows "holds_res (\<lambda>(rc, c2, d'). irc_next c c2) (cmd_names pf fuel arg c' d)"
proof -
  obtain ch1 ch2 where ch: "rd (input c') arg = Inr ch1" "rd (cur_chan c') 0 = Inr ch2"
    using arg_okD(1) [OF assms(2)] irc_wf_strings(4) [OF assms(1)] by blast
  show ?thesis
    unfolding cmd_names_def ch rbind_Inr
    by (rule holds_res_if, rule usage_next [OF assms(1)], rule holds_queue [OF assms(1)], simp, rule holds_queue, assumption,
        simp add: arg_okD(2) [OF assms(2)] irc_wf_strings(1) [OF assms(1)], rule send_done [OF _ assms(3)])
qed

lemma echo_next:
  assumes "irc_next c c2" and "c_str m p = Inr s" and "c_str n q = Inr t"
  shows "holds_res (\<lambda>(rc, c3, d'). irc_next c c3)
    (rbind (c_str m p) (\<lambda>s. rbind (c_str n q) (\<lambda>t. rbind (log_line4 a s b t c2) (\<lambda>c. Inr (r, c, e)))))"
  using irc_logged_next [OF assms(1)] by (simp add: assms(2,3) log_line_pieces)

lemma cmd_msg_next:
  assumes "irc_mid c c'" and "arg_ok c' arg" and "0 \<le> EAGAIN pf"
  shows "holds_res (\<lambda>(rc, c2, d'). irc_next c c2) (cmd_msg pf fuel arg c' d)"
proof -
  from cut_word [OF assms(2)] obtain inp q p where w: "next_word (input c') arg = Inr (inp, q, p)" "length inp = length (input c')"
    "arg_ok (c'\<lparr>input := inp\<rparr>) q" "arg_ok (c'\<lparr>input := inp\<rparr>) p" by blast
  let ?c = "c'\<lparr>input := inp\<rparr>"
  have mid: "irc_mid c ?c" by (rule irc_mid_input [OF assms(1) w(2)])
  obtain s t where st: "c_str inp q = Inr s" "c_str inp p = Inr t" using w(3,4) by (auto simp: arg_ok_def)
  have z: "0 \<in> set (drop q inp)" "0 \<in> set (drop p inp)" using arg_okD(2) [OF w(3)] arg_okD(2) [OF w(4)] by simp_all
  have send: "holds_res (\<lambda>(rc, c2, d'). irc_next c c2) (rbind (clear_send pf fuel c2 d) (\<lambda>(c, d).
       rbind (c_str (input c) q) (\<lambda>s. rbind (c_str (input c) p) (\<lambda>t.
       rbind (log_line4 (asc ''>'') s (asc ''< '') t c) (\<lambda>c. Inr (0, c, d))))))" if "irc_mid c c2" "input c2 = inp" for c2
    by (rule holds_res_rbindI [OF clear_send_next [OF that(1) assms(3)]], clarify, rule echo_next) (use that st in simp_all)
  obtain ch1 ch2 where ch: "rd (input ?c) q = Inr ch1" "rd (input ?c) p = Inr ch2" using arg_okD(1) [OF w(3)] arg_okD(1) [OF w(4)] by blast
  show ?thesis
    unfolding cmd_msg_def w(1) rbind_Inr prod.case Let_def ch
    by (rule holds_res_if, rule usage_next [OF mid], rule holds_queue [OF mid], simp, rule holds_queue, assumption, simp add: z,
        rule holds_queue, assumption, simp, rule holds_queue, assumption, simp add: z, rule send, assumption, simp)
qed

lemma cmd_me_next:
  assumes "irc_mid c c'" and "arg_ok c' arg" and "0 \<le> EAGAIN pf"
  shows "holds_res (\<lambda>(rc, c2, d'). irc_next c c2) (cmd_me pf fuel arg c' d)"
proof -
  obtain ch1 ch2 where ch: "rd (cur_chan c') 0 = Inr ch1" "rd (input c') arg = Inr ch2"
    using arg_okD(1) [OF assms(2)] irc_wf_strings(4) [OF assms(1)] by blast
  obtain t where t: "c_str (input c') arg = Inr t" using assms(2) by (auto simp: arg_ok_def)
  have send: "holds_res (\<lambda>(rc, c2, d'). irc_next c c2) (rbind (clear_send pf fuel c2 d) (\<lambda>(c, d).
       rbind (c_str (mynick c) 0) (\<lambda>nick. rbind (c_str (input c) arg) (\<lambda>s.
       rbind (log_line4 (asc ''* '') nick (asc '' '') s c) (\<lambda>c. Inr (0, c, d))))))" if "irc_mid c c2" "input c2 = input c'" for c2
    by (rule holds_res_rbindI [OF clear_send_next [OF that(1) assms(3)]], clarify, rule echo_next [OF _ c_str_val])
      (use that t irc_wf_strings(2) irc_next_mid in auto)
  show ?thesis
    unfolding cmd_me_def ch rbind_Inr
    by (rule holds_res_if, rule usage_next [OF assms(1)], rule holds_queue [OF assms(1)], simp, rule holds_queue, assumption,
        simp add: irc_wf_strings(1) [OF assms(1)], rule holds_queue, assumption, simp, rule holds_queue, assumption,
        simp add: arg_okD(2) [OF assms(2)], rule holds_queue, assumption, simp, rule send, assumption, simp)
qed

lemma is_cmd_defined: "c_str cmd 0 = Inr s \<Longrightarrow> \<exists>b. is_cmd cmd ss = Inr b"
proof (induction ss)
  case (Cons n ss)
  have "c_str (lit n) 0 = Inr (c_val (lit n))" by (rule c_str_val) simp
  from same_str [OF Cons.prems this] Cons show ?case by auto
qed auto

lemma holds_rif: "\<exists>v. b = Inr v \<Longrightarrow> holds_res P x \<Longrightarrow> holds_res P y \<Longrightarrow> holds_res P (rif b x y)"
  by (auto simp: rif_def)

lemma run_command_next:
  assumes "irc_mid c c'" and "arg_ok c' 1" and "0 \<le> EAGAIN pf"
  shows "holds_res (\<lambda>(rc, c2, d'). irc_next c c2) (run_command pf fuel c' d)"
proof -
  from cut_word [OF assms(2)] obtain inp q p where w: "next_word (input c') 1 = Inr (inp, q, p)" "length inp = length (input c')"
    "arg_ok (c'\<lparr>input := inp\<rparr>) q" "arg_ok (c'\<lparr>input := inp\<rparr>) p" by blast
  let ?c = "c'\<lparr>input := inp\<rparr>"
  have mid: "irc_mid c ?c" by (rule irc_mid_input [OF assms(1) w(2)])
  obtain s where s: "c_str inp q = Inr s" using w(3) by (auto simp: arg_ok_def)
  then have "c_str (drop q inp) 0 = Inr s" by (simp add: c_str_iff)
  from is_cmd_defined [OF this] have cmd: "\<exists>v. is_cmd (drop q (input ?c)) ss = Inr v" for ss by simp
  obtain arg where arg: "skip_spaces (drop p (input ?c)) p = Inr arg" "arg_ok ?c arg"
    using w(4) skip_spaces_str by (fastforce simp: arg_ok_def)
  have helped: "holds_res (\<lambda>(rc, c2, d'). irc_next c c2) (rbind (clear_input ?c) (\<lambda>c. rbind (irc_help c) (\<lambda>c. Inr (0, c, d))))"
    by (rule holds_res_rbindI [OF clear_input_next [OF mid]], rule holds_res_rbindI [OF irc_help_next]) auto
  have unknown: "holds_res (\<lambda>(rc, c2, d'). irc_next c c2) (rbind (clear_input ?c) (\<lambda>c.
      rbind (c_str (input c) q) (\<lambda>s. rbind (log_line2 (asc ''*** no such command, try /help: /'') s c) (\<lambda>c. Inr (0, c, d)))))"
    by (rule holds_res_rbindI [OF clear_input_next [OF mid]]) (auto simp: s log_line_pieces intro!: holds_log)
  show ?thesis
    unfolding run_command_def w(1) rbind_Inr prod.case Let_def arg(1)
    by (intro holds_rif cmd helped unknown cmd_join_next cmd_part_next cmd_text_next cmd_msg_next cmd_me_next cmd_names_next
        cmd_topic_next mid arg(2) assms(3))
qed

lemma handle_input_line_next:
  assumes "irc_next c c'" and "0 \<le> EAGAIN pf"
  shows "holds_res (\<lambda>(rc, c2, d'). irc_next c c2) (handle_input_line pf fuel c' d)"
proof (cases "input_len c' = 0")
  case False
  have wf: "irc_wf c'" and pl: "plain (typed c')" using irc_next_ok [OF assms(1)] by (simp_all add: irc_ok_def)
  then have len: "input_len c' \<le> 100" "length (input c') = 102" by (simp_all add: irc_wf_def)
  let ?inp = "(input c')[input_len c' := 0]"
  let ?c = "c'\<lparr>input := ?inp\<rparr>"
  have z: "?inp = typed c' @ 0 # drop (Suc (input_len c')) (input c')"
    using len by (simp add: typed_def upd_conv_take_nth_drop)
  have "typed ?c = typed c'" by (simp add: typed_def)
  then have ok: "irc_next c ?c"
    using wf by (intro irc_next_eq [OF assms(1)]) (simp_all add: irc_wf_def)
  have "c_str ?inp 0 = Inr (typed c')" unfolding z using plain_no_zero [OF pl] by (rule c_str_append)
  from c_str_drop [OF this, of 1] have "arg_ok ?c 1"
    using False len by (auto simp: arg_ok_def typed_def)
  then have "holds_res (\<lambda>(rc, c2, d'). irc_next c c2) (run_command pf fuel ?c d)"
    by (rule run_command_next [OF irc_next_mid [OF ok] _ assms(2)])
  moreover have "holds_res (\<lambda>(rc, c2, d'). irc_next c c2) (say_line pf fuel ?c d)"
    using z by (intro say_line_next [OF ok _ assms(2)]) simp
  moreover have "rd ?inp 0 = Inr (?inp ! 0)" "wr (input c') (input_len c') 0 = Inr ?inp" using len by (simp_all add: rd_def wr_def)
  ultimately show ?thesis
    using False by (simp add: handle_input_line_def Let_def)
qed (use assms(1) in \<open>simp add: handle_input_line_def\<close>)

section \<open>Every turn keeps the invariant\<close>

lemma irc_handle_key_next:
  assumes "irc_next c c'" and "0 \<le> EAGAIN pf"
  shows "holds_res (\<lambda>(rc, c2, d'). irc_next c c2) (irc_handle_key pf fuel k c' d)"
proof -
  have wf: "irc_wf c'" and pl: "plain (typed c')" using irc_next_ok [OF assms(1)] by (simp_all add: irc_ok_def)
  then have len: "input_len c' \<le> 100" "length (input c') = 102" by (simp_all add: irc_wf_def)
  note m = irc_next_mid [OF assms(1)]
  have draw: "holds_res (\<lambda>(rc, c2, d'). irc_next c c2) (rbind (irc_draw_input c2) (\<lambda>c. Inr (r, c, d)))"
    if "irc_wf c2" "outp c2 = outp c'" "plain (typed c2)" for c2 r
    by (rule holds_res_rbindI [OF irc_draw_next [OF m that]]) simp
  have quit: "holds_res (\<lambda>(rc, c2, d'). irc_next c c2) (rbind (o_str (lit t) c') (\<lambda>c. rbind (o_send pf fuel c d) (\<lambda>(c, d). Inr (- 1, c, d))))" for t
    by (rule holds_queue [OF m]) (auto simp: pl irc_next_def intro!: holds_res_rbindI [OF o_send_next [OF _ assms(2), of c]])
  have store: "wr (input c') (input_len c') v = Inr ((input c')[input_len c' := v])" for v using len by (simp add: wr_def)
  have longer: "plain (typed (c'\<lparr>input := (input c')[input_len c' := ucast k], input_len := input_len c' + 1\<rparr>))" if "32 \<le> k" "k < 127"
    using pl ucast_key [OF that] len by (simp add: typed_def take_Suc_conv_app_nth)
  have wf1: "irc_wf (c'\<lparr>input_len := input_len c' - 1\<rparr>)" using wf by (auto simp: irc_wf_def)
  have shorter: "plain (typed (c'\<lparr>input_len := input_len c' - 1\<rparr>))"
    using pl set_take_subset_set_take [of "input_len c' - 1" "input_len c'" "input c'"] by (auto simp: typed_def plain_def)
  show ?thesis
    unfolding irc_handle_key_def store rbind_Inr
    by (intro holds_res_if handle_input_line_next [OF assms] draw quit) (use assms(1) wf wf1 longer shorter in \<open>auto simp: irc_wf_def\<close>)
qed

lemma irc_turn_next:
  assumes "irc_next c c'" and "0 \<le> EAGAIN pf"
  shows "holds_res (\<lambda>(go, c2, ks', d'). irc_next c c2) (irc_turn pf kb fuel c' ks d)"
proof -
  obtain k ks1 where k: "in_GetKey kb ks = (k, ks1)" by fastforce
  have key: "holds_res (\<lambda>(rc, c2, d'). irc_next c c2) (if k \<noteq> 0 then irc_handle_key pf fuel k c' d else Inr (0, c', d))"
    using assms(1) irc_handle_key_next [OF assms] by simp
  show ?thesis
    unfolding irc_turn_def k Let_def prod.case
    by (rule holds_res_rbindI [OF key], clarify, rule holds_res_if, simp,
        rule holds_res_rbindI [OF irc_poll_net_next [OF _ assms(2)]], assumption, clarify, rule holds_res_if, simp,
        rule holds_res_rbindI [OF flush_pending_next [OF _ assms(2)]]) auto
qed

lemma irc_loop_next:
  "irc_next c c' \<Longrightarrow> 0 \<le> EAGAIN pf \<Longrightarrow> holds_res (\<lambda>(c2, ks', d'). irc_next c c2) (irc_loop pf kb fuel c' ks d)"
proof (induction fuel arbitrary: c' ks d)
  case (Suc fuel)
  show ?case
    unfolding irc_loop.simps
    by (rule holds_res_rbindI [OF irc_turn_next [OF Suc.prems]], clarify, rule holds_res_if, rule Suc.IH) (simp_all add: Suc.prems)
qed simp

lemma irc_register_next:
  assumes "irc_next c c'" and "0 \<le> EAGAIN pf"
  shows "holds_res (\<lambda>(c2, d'). irc_next c c2) (irc_register pf fuel c' d)"
proof -
  note m = irc_next_mid [OF assms(1)]
  note z = irc_wf_strings(2) [OF m]
  have pl: "plain (typed c')" using assms(1) by (simp add: irc_next_def)
  have send: "holds_res (\<lambda>(c2, d'). irc_next c c2) (o_send pf fuel c2 d)" if "irc_mid c c2" "typed c2 = typed c'" for c2
    using that pl by (intro holds_res_mono [OF o_send_next [OF _ assms(2)]]) (auto simp: irc_next_def)
  show ?thesis
    unfolding irc_register_def
    by (rule holds_queue [OF m], simp, rule holds_queue, assumption, simp add: z, rule holds_queue, assumption, simp,
        rule holds_queue, assumption, simp add: z, rule holds_queue, assumption, simp, rule holds_queue, assumption, simp add: z,
        rule send, assumption, simp)
qed

section \<open>The whole program\<close>

lemma asked_irc_wf: "irc_wf c \<Longrightarrow> asked c c' \<Longrightarrow> irc_wf c'"
  by (cases c; cases c') (auto simp: asked_def irc_wf_def)

lemma read_word:
  assumes "0 \<in> set line" and "length dst = mx" and "0 < mx"
  shows "\<exists>line' q p dst'. next_word line 0 = Inr (line', q, p) \<and> length line' = length line \<and>
    str_copy dst line' q mx = Inr dst' \<and> length dst' = mx \<and> 0 \<in> set dst'"
proof -
  from next_word_ok [OF c_str_val [OF assms(1)]] obtain line' q p s where
    w: "next_word line 0 = Inr (line', q, p)" "length line' = length line" "c_str line' q = Inr s" by (auto simp: parsed_def)
  from str_copy_ok [OF w(3) assms(2,3)] w(1,2) show ?thesis by (fastforce simp: c_str_def split: if_splits)
qed

lemma ask_nick_safe:
  assumes "irc_wf c" and "0 < length line"
  shows "holds_res (\<lambda>(line', c', ks'). irc_wf c' \<and> length line' = length line) (ask_nick kb fuel line c ks)"
  using assms
proof (induction fuel arbitrary: line c ks)
  case (Suc fuel)
  have ch: "rd (mynick c) 0 = Inr (mynick c ! 0)" using Suc.prems(1) by (simp add: irc_wf_def rd_def)
  have again: "holds_res (\<lambda>(line', c', ks'). irc_wf c' \<and> length line' = length line)
      (rbind (next_word l 0) (\<lambda>(line, q, _). rbind (str_copy (mynick (putcs x c)) line q (MAX_NICK + 1)) (\<lambda>nick.
         ask_nick kb fuel line ((putcs x c)\<lparr>mynick := nick\<rparr>) ks1)))" if "0 \<in> set l" "length l = length line" for l x ks1
  proof -
    note l = that
    have "length (mynick (putcs x c)) = MAX_NICK + 1" using Suc.prems(1) by (simp add: irc_wf_def putcs_def)
    from read_word [OF l(1) this] obtain line' q p nick where
      w: "next_word l 0 = Inr (line', q, p)" "length line' = length line" "str_copy (mynick (putcs x c)) line' q (MAX_NICK + 1) = Inr nick"
        "length nick = MAX_NICK + 1" "0 \<in> set nick" using l(2) by auto
    have "irc_wf ((putcs x c)\<lparr>mynick := nick\<rparr>)" using Suc.prems(1) w(4,5) by (simp add: irc_wf_def putcs_def)
    from Suc.IH [OF this, of line' ks1] Suc.prems(2) w(2) show ?thesis unfolding w(1,3) rbind_Inr prod.case by simp
  qed
  show ?case
    unfolding ask_nick.simps ch rbind_Inr Let_def
    by (rule holds_res_if, simp add: Suc.prems, rule holds_res_rbindI [OF read_line_safe [OF refl Suc.prems(2)]], clarify,
        erule notE, rule again)
qed simp

lemma ask_channel_safe:
  assumes "irc_wf c" and "0 < length line"
  shows "holds_res (\<lambda>(c', ks'). irc_wf c') (ask_channel kb fuel line c ks)"
proof -
  have chan: "holds_res (\<lambda>(c', ks'). irc_wf c') (rbind (next_word l 0) (\<lambda>(line, q, _).
     rbind (str_copy (cur_chan (putcs x c)) line q (MAX_CHAN + 1)) (\<lambda>chan.
     rbind (rd chan 0) (\<lambda>ch. rbind (is_channel chan 0) (\<lambda>ok.
     if ch \<noteq> 0 \<and> \<not> ok then
       rbind (wr chan 0 0) (\<lambda>chan.
         Inr (putcs (asc ''Channels start with #, ignoring it.'' @ [10]) ((putcs x c)\<lparr>cur_chan := chan\<rparr>), ks1))
     else Inr ((putcs x c)\<lparr>cur_chan := chan\<rparr>, ks1))))))" if "0 \<in> set l" for l x ks1
  proof -
    have "length (cur_chan (putcs x c)) = MAX_CHAN + 1" using assms(1) by (simp add: irc_wf_def putcs_def)
    from read_word [OF that this] obtain line' q p ch where
      w: "next_word l 0 = Inr (line', q, p)" "str_copy (cur_chan (putcs x c)) line' q (MAX_CHAN + 1) = Inr ch"
        "length ch = MAX_CHAN + 1" "0 \<in> set ch" by auto
    have wf: "irc_wf (putcs y ((putcs x c)\<lparr>cur_chan := d\<rparr>))" "irc_wf ((putcs x c)\<lparr>cur_chan := d\<rparr>)" if "length d = 33" "0 \<in> set d" for d y
      using assms(1) that by (simp_all add: irc_wf_def putcs_def)
    show ?thesis
      unfolding w(1,2) rbind_Inr prod.case
      using w(3,4) wf set_update_memI [of 0 ch 0] by (auto simp: rd_def wr_def is_channel_def)
  qed
  show ?thesis
    unfolding ask_channel_def Let_def
    by (rule holds_res_rbindI [OF read_line_safe [OF refl assms(2)]], clarify, rule chan)
qed

lemma irc_setup_safe:
  assumes "0 < length line"
  shows "holds_res (\<lambda>(c, ks'). irc_wf c) (irc_setup kb fuel line ks)"
proof -
  define c0 where "c0 = putcs (asc ''My IP address: '' @ dotted (le32 0x020200c0) @ [10, 10])
    ((putcs ([12] @ asc ''Z80 IRC'' @ [10, 10]) irc_init)\<lparr>tcp := tcp_static\<lparr>tcp_ip := (tcp_ip tcp_static)\<lparr>saddr := 0x020200c0\<rparr>\<rparr>\<rparr>)"
  have wf0: "irc_wf c0" by (simp add: c0_def putcs_def irc_init_def tcp_static_def tcp_wf_def irc_wf_def)
  have ip: "holds_res (\<lambda>(line', c', ks'). length line' = length line \<and> irc_wf c')
      (ask_ip kb fuel (asc ''IRC server IP: '') line c0 (in_GetKeyReset kb ks))"
  proof -
    have "tcp_wf (tcp c0)" using wf0 by (simp add: irc_wf_def)
    then show ?thesis by (rule holds_res_mono [OF ask_ip_safe [OF _ assms]]) (auto intro: asked_irc_wf [OF wf0])
  qed
  have num: "holds_res (\<lambda>_. True) (parse_number l)" if "0 \<in> set l" for l
    using holds_res_mono [OF parse_digits_safe [OF that]] by (simp add: parse_number_def)
  have put: "irc_wf (putcs x c)" "irc_wf (c\<lparr>tcp := (tcp c)\<lparr>src_port := a, dst_port := b\<rparr>\<rparr>)" if "irc_wf c" for x c a b
    using that by (simp_all add: irc_wf_def putcs_def tcp_wf_def)
  have eq: "irc_setup kb fuel line ks = rbind (ask_ip kb fuel (asc ''IRC server IP: '') line c0 (in_GetKeyReset kb ks)) (\<lambda>(line, c, ks).
      rbind (read_line kb fuel line (length line) ks) (\<lambda>(line, out, ks).
      let c = putcs (asc ''Port [6667]: '' @ out) c in
      rbind (parse_number line) (\<lambda>(port, _).
      rbind (ask_nick kb fuel line c ks) (\<lambda>(line, c, ks).
      rbind (ask_channel kb fuel line c ks) (\<lambda>(c, ks).
      let c = c\<lparr>tcp := (tcp c)\<lparr>src_port := htons 32768, dst_port := htons (if port = 0 then 6667 else port)\<rparr>\<rparr> in
      Inr (putcs ([10] @ asc ''Connecting ...'' @ [10]) c, ks))))))"
    by (simp add: irc_setup_def Let_def putcs_def irc_init_def c0_def)
  show ?thesis
    unfolding eq Let_def
    by (rule holds_res_rbindI [OF ip], clarify, rule holds_res_rbindI [OF read_line_safe [OF refl]], use assms in simp, clarify,
        rule holds_res_rbindI [OF num], assumption, clarify, rule holds_res_rbindI [OF ask_nick_safe], rule put(1), assumption,
        use assms in simp, clarify, rule holds_res_rbindI [OF ask_channel_safe], assumption, use assms in simp, clarify)
      (simp add: put)
qed

end
