(* ===== verification/Irc_Talk.thy ===== *)
theory Irc_Talk
  imports Irc_Session
begin

text \<open>
  What the IRC client does with the stream of the server and with what is typed, from the
  packets on the line to the rows of the screen, and the properties of the client.
\<close>

section \<open>The stream of the server\<close>

text \<open>The client sees of a line what fits its buffer, up to the first zero.\<close>

definition received :: "bytes \<Rightarrow> bytes" where
  "received l = c_val (take 319 l)"

lemma received_id: "0 \<notin> set l \<Longrightarrow> length l \<le> 319 \<Longrightarrow> received l = l"
  by (auto simp: received_def takeWhile_eq_all_conv)

fun rx_segments :: "bytes list \<Rightarrow> irc \<Rightarrow> irc res" where
  "rx_segments [] c = Inr c"
| "rx_segments (s # ss) c = rbind (irc_show_data s (length s) c) (rx_segments ss)"

fun reacts_all :: "bytes list \<Rightarrow> irc \<Rightarrow> irc \<Rightarrow> bool" where
  "reacts_all [] c c' \<longleftrightarrow> c' = c"
| "reacts_all (l # ls) c c' \<longleftrightarrow> (\<exists>c1. reacts l c c1 \<and> reacts_all ls c1 c')"

lemma irc_show_data_append:
  "irc_show_data (xs @ ys) (length xs + n) c = rbind (irc_show_data xs (length xs) c) (irc_show_data ys n)"
  by (induction xs arbitrary: c) (auto simp: rbind_assoc intro: rbind_cong)

lemma rx_segments_concat: "rx_segments segs c = irc_show_data (concat segs) (length (concat segs)) c"
proof (induction segs arbitrary: c)
  case (Cons s segs)
  then have "rx_segments segs = irc_show_data (concat segs) (length (concat segs))" by (rule ext)
  then show ?case using irc_show_data_append [of s "concat segs" "length (concat segs)" c] by simp
qed simp

lemma irc_show_data_take: "len \<le> length data \<Longrightarrow> irc_show_data data len c = irc_show_data (take len data) len c"
  by (induction data len c rule: irc_show_data.induct) (auto intro: rbind_cong)

lemma rx_chars_stored:
  "10 \<notin> set xs \<Longrightarrow> 13 \<notin> set xs \<Longrightarrow> irc_wf c \<Longrightarrow>
   \<exists>buf n. irc_show_data xs (length xs) c = Inr (c\<lparr>rxline := buf, rxlen := n\<rparr>) \<and> length buf = 320 \<and> n \<le> 319 \<and>
     take n buf = take 319 (take (rxlen c) (rxline c) @ xs)"
proof (induction xs arbitrary: c)
  case Nil
  then show ?case by (intro exI [of _ "rxline c"] exI [of _ "rxlen c"]) (simp add: irc_wf_def)
next
  case (Cons x xs)
  show ?case
  proof (cases "rxlen c < 319")
    case True
    let ?c = "c\<lparr>rxline := (rxline c)[rxlen c := x], rxlen := rxlen c + 1\<rparr>"
    have len: "rxlen c < length (rxline c)" "irc_wf ?c" using Cons.prems(3) True by (simp_all add: irc_wf_def)
    have "take (rxlen c + 1) ((rxline c)[rxlen c := x]) = take (rxlen c) (rxline c) @ [x]"
      using len(1) by (simp add: take_Suc_conv_app_nth)
    then show ?thesis
      using Cons.IH [of ?c] Cons.prems len True by (auto simp: rx_char_def wr_def)
  next
    case False
    then have "rx_char x c = Inr c" using Cons.prems by (simp add: rx_char_def)
    moreover have "length (take (rxlen c) (rxline c)) = 319" using False Cons.prems(3) by (simp add: irc_wf_def)
    ultimately show ?thesis using Cons.IH [of c] Cons.prems by auto
  qed
qed

lemma reacts_rxline:
  assumes "length buf = length (rxline c)"
  shows "reacts line (c\<lparr>rxline := buf\<rparr>) c' = reacts line c c'"
proof -
  have eq: "c\<lparr>rxline := buf, mynick := m, pong_arg := a, pong_pending := b, join_pending := j\<rparr> =
      (c\<lparr>mynick := m, pong_arg := a, pong_pending := b, join_pending := j\<rparr>)\<lparr>rxline := buf\<rparr>" for m a b j
    by simp
  have "noted t (c\<lparr>rxline := buf, mynick := m, pong_arg := a, pong_pending := b, join_pending := j\<rparr>) c' =
      noted t (c\<lparr>mynick := m, pong_arg := a, pong_pending := b, join_pending := j\<rparr>) c'" for t m a b j
    unfolding eq by (rule noted_rxline) (simp add: assms)
  then show ?thesis by (simp add: reacts_def del: if_split)
qed

lemma reacts_rxlen: "reacts line c c' \<Longrightarrow> rxlen c' = rxlen c"
  by (cases c; cases c') (auto simp: reacts_def noted_def)

lemma rx_line:
  assumes "10 \<notin> set l" and "13 \<notin> set l" and "irc_wf c" and "rxlen c = 0"
  shows "\<exists>c'. irc_show_data (l @ [13, 10]) (length l + 2) c = Inr c' \<and> reacts (received l) c c'"
proof -
  from rx_chars_stored [OF assms(1-3)] assms(4) obtain buf n where
    s: "irc_show_data l (length l) c = Inr (c\<lparr>rxline := buf, rxlen := n\<rparr>)" "length buf = 320" "n \<le> 319"
      "take n buf = take 319 l" by auto
  let ?c = "c\<lparr>rxline := buf[n := 0], rxlen := 0\<rparr>"
  have "buf[n := 0] = take n buf @ 0 # drop (Suc n) buf" using s(2,3) by (simp add: upd_conv_take_nth_drop)
  then have b: "buf[n := 0] = take 319 l @ 0 # drop (Suc n) buf" by (simp only: s(4))
  have "c_str (rxline ?c) 0 = Inr (received l)"
    unfolding c_str_def by (auto simp: b received_def takeWhile_append simp flip: takeWhile_eq_all_conv)
  from handle_server_line_reacts [OF this] assms(3) obtain c' where
    c': "handle_server_line ?c = Inr c'" "reacts (received l) ?c c'" by (auto simp: irc_wf_def)
  have "?c = c\<lparr>rxline := buf[n := 0]\<rparr>" using assms(4) by (cases c) simp
  then have "reacts (received l) c c'"
    using c'(2) reacts_rxline [of "buf[n := 0]" c] s(2) assms(3) by (simp add: irc_wf_def)
  moreover have "irc_show_data [13, 10] (Suc (Suc 0)) (c\<lparr>rxline := buf, rxlen := n\<rparr>) = Inr c'"
    using c'(1) s(2,3) by (simp add: rx_char_def wr_def)
  ultimately show ?thesis
    using irc_show_data_append [of l "[13, 10]" "Suc (Suc 0)" c] s(1) by simp
qed

lemma rx_lines:
  "\<forall>l \<in> set ls. 10 \<notin> set l \<and> 13 \<notin> set l \<Longrightarrow> irc_ok c \<Longrightarrow> rxlen c = 0 \<Longrightarrow>
   \<exists>c'. irc_show_data (concat (map (\<lambda>l. l @ [13, 10]) ls)) (length (concat (map (\<lambda>l. l @ [13, 10]) ls))) c = Inr c' \<and>
     reacts_all (map received ls) c c'"
proof (induction ls arbitrary: c)
  case (Cons l ls)
  let ?rest = "concat (map (\<lambda>l. l @ [13, 10]) ls)"
  from rx_line [of l c] Cons.prems obtain c1 where
    c1: "irc_show_data (l @ [13, 10]) (length l + 2) c = Inr c1" "reacts (received l) c c1" by (auto simp: irc_ok_def)
  have "irc_ok c1" "rxlen c1 = 0"
    using reacts_next [OF Cons.prems(2) c1(2)] reacts_rxlen [OF c1(2)] Cons.prems(3) irc_next_ok by auto
  from Cons.IH [OF _ this] Cons.prems(1) obtain c' where
    "irc_show_data ?rest (length ?rest) c1 = Inr c'" "reacts_all (map received ls) c1 c'" by auto
  then show ?case
    using irc_show_data_append [of "l @ [13, 10]" ?rest "length ?rest" c] c1 by (auto simp: add.assoc)
qed simp

section \<open>The texts on the screen\<close>

lemma reacts_outp:
  assumes "reacts line c c'"
  shows "outp c' = outp c @ concat (map (\<lambda>t. log_output (clean t) (input_text (typed c))) (server_texts line))"
    and "typed c' = typed c" and "tcp c' = tcp c" and "window_open c' = window_open c"
proof -
  from assms obtain m a b j where "noted (server_texts line) (c\<lparr>mynick := m, pong_arg := a, pong_pending := b, join_pending := j\<rparr>) c'"
    unfolding reacts_def by blast
  then show "outp c' = outp c @ concat (map (\<lambda>t. log_output (clean t) (input_text (typed c))) (server_texts line))"
    "typed c' = typed c" "tcp c' = tcp c" "window_open c' = window_open c"
    by (cases c; cases c'; auto simp: noted_def typed_def)+
qed

text \<open>With the interface \<open>log_screen\<close>: the texts are the new end of the log.\<close>

lemma reacts_displays:
  assumes "reacts line c c'" and "irc_ok c" and "displays con log (input_text (typed c))"
  shows "\<exists>out. outp c' = outp c @ out \<and>
    displays (con_puts out con) (log @ concat (map (\<lambda>t. log_rows (clean t)) (server_texts line))) (input_text (typed c))"
proof -
  let ?ts = "map clean (server_texts line)"
  have "map (\<lambda>t. irc_log_out t c) ?ts = map (\<lambda>t. log_output (clean t) (input_text (typed c))) (server_texts line)"
    using irc_screen.log_out_eq [OF assms(2) plain_clean] by simp
  then have "outp c' = outp c @ concat (map (\<lambda>t. irc_log_out t c) ?ts)"
    using reacts_outp(1) [OF assms(1)] by (simp only:)
  moreover have "displays (con_puts (concat (map (\<lambda>t. irc_log_out t c) ?ts)) con) (log @ concat (map log_rows ?ts)) (input_text (typed c))"
    by (rule irc_screen.logs_display [OF assms(3,2)]) (simp add: plain_clean)
  ultimately show ?thesis by (auto simp: comp_def)
qed

lemma word_of_word: "32 \<notin> set w \<Longrightarrow> w \<noteq> [] \<Longrightarrow> word_of (w @ 32 # r) = w \<and> word_rest (w @ 32 # r) = r"
  by (cases w) (auto simp: word_of_def word_rest_def takeWhile_append dropWhile_append)

text \<open>A message on a channel.\<close>

lemma privmsg_texts:
  assumes "nick \<noteq> []" and "set nick \<inter> {32, 33, 64} = {}" and "32 \<notin> set host"
    and "chan = 35 # ch" and "32 \<notin> set ch" and "txt = [] \<or> hd txt \<noteq> 1"
  shows "server_texts (58 # nick @ 33 # host @ asc '' PRIVMSG '' @ chan @ asc '' :'' @ txt) = [asc ''<'' @ nick @ asc ''> '' @ txt]"
proof -
  let ?tail = "asc ''PRIVMSG '' @ chan @ asc '' :'' @ txt"
  have sp: "asc '' PRIVMSG '' = 32 # asc ''PRIVMSG''  @ [32]" "asc ''PRIVMSG '' = asc ''PRIVMSG'' @ [32]" "asc '' :'' = [32, 58]"
    by (simp_all add: asc_def)
  have "word_of ((nick @ 33 # host) @ 32 # ?tail) = nick @ 33 # host \<and> word_rest ((nick @ 33 # host) @ 32 # ?tail) = ?tail"
    using assms(2,3) by (intro word_of_word) auto
  then have pre: "msg_prefix (58 # nick @ 33 # host @ asc '' PRIVMSG '' @ chan @ asc '' :'' @ txt) = Some (nick @ 33 # host)"
    "msg_tail (58 # nick @ 33 # host @ asc '' PRIVMSG '' @ chan @ asc '' :'' @ txt) = ?tail"
    by (simp_all add: msg_prefix_def msg_tail_def has_prefix_def sp)
  have "word_of (asc ''PRIVMSG'' @ 32 # chan @ 32 # 58 # txt) = asc ''PRIVMSG'' \<and>
      word_rest (asc ''PRIVMSG'' @ 32 # chan @ 32 # 58 # txt) = chan @ 32 # 58 # txt"
    by (rule word_of_word) (simp_all add: asc_def)
  then have cmd: "word_of ?tail = asc ''PRIVMSG''" "word_rest ?tail = chan @ 32 # 58 # txt" by (simp_all add: sp)
  have "word_of (chan @ 32 # 58 # txt) = chan \<and> word_rest (chan @ 32 # 58 # txt) = 58 # txt"
    using assms(4,5) by (intro word_of_word) auto
  then have par: "param_of (chan @ 32 # 58 # txt) = chan" "param_rest (chan @ 32 # 58 # txt) = 58 # txt" "param_of (58 # txt) = txt"
    by (simp_all add: param_of_def param_rest_def trailing_def assms(4))
  have "takeWhile (\<lambda>c. c \<noteq> 33 \<and> c \<noteq> 64) (nick @ 33 # host) = nick"
    using assms(2) by (auto simp: takeWhile_append)
  then have nick: "nick_text (Some (nick @ 33 # host)) = nick" by (simp add: nick_text_def)
  have "asc ''PRIVMSG'' \<noteq> asc ''PING''" "asc ''PRIVMSG'' \<noteq> []" "asc ''PRIVMSG'' \<noteq> asc ''NOTICE''" by (simp_all add: asc_def)
  moreover from this have "privmsg_text (asc ''PRIVMSG'') nick chan txt = asc ''<'' @ nick @ asc ''> '' @ txt"
    using assms(4,6) by (auto simp: privmsg_text_def)
  ultimately show ?thesis
    unfolding server_texts_def msg_cmd_def msg_rest_def pre cmd nick by (simp add: message_texts_def par)
qed

text \<open>A ping.\<close>

lemma ping_message:
  "msg_cmd (asc ''PING :'' @ tok) = asc ''PING'' \<and> param_of (msg_rest (asc ''PING :'' @ tok)) = tok \<and>
   server_texts (asc ''PING :'' @ tok) = []"
proof -
  have eq: "asc ''PING :'' @ tok = asc ''PING'' @ 32 # 58 # tok" "\<not> has_prefix (asc ''PING :'' @ tok)"
    by (simp_all add: asc_def has_prefix_def)
  have "word_of (asc ''PING'' @ 32 # 58 # tok) = asc ''PING'' \<and> word_rest (asc ''PING'' @ 32 # 58 # tok) = 58 # tok"
    by (rule word_of_word) (simp_all add: asc_def)
  then show ?thesis
    using eq by (simp add: msg_cmd_def msg_rest_def msg_tail_def server_texts_def) (simp add: param_of_def trailing_def)
qed

section \<open>Lines on the wire\<close>

text \<open>A segment with one line: it is acknowledged, and the line is reacted to.\<close>

lemma irc_poll_line:
  assumes "irc_ok c" and "rxlen c = 0" and "window_open c" and "1 < tcp_seq (tcp c)" and "packet_for (tcp c) m"
    and "seg_flags m AND TCP_RST = 0" and "data_segment m" and "tcp_ack (tcp c) \<le> seg_seq m" and "arrives pf POLL_TICKS m d d1"
    and "length m + 2 < fuel" and "0 \<le> EAGAIN pf" and "drop (20 + unat (seg_ths m)) m = l @ [13, 10]" and "10 \<notin> set l" and "13 \<notin> set l"
  defines "t \<equiv> tcp_sent (taken m (tcp c)) 0 []"
  shows "\<exists>c'. irc_poll_net pf fuel c d = Inr (0, c', puts pf (slip_frame esc_byte (tcp_packet (taken m (tcp c)) 0 [])) d1) \<and>
    reacts (received l) (c\<lparr>tcp := t, window_open := False\<rparr>) c' \<and> irc_ok (c\<lparr>tcp := t, window_open := False\<rparr>)"
proof -
  define n where "n = length m - 20 - unat (seg_ths m)"
  let ?c = "c\<lparr>tcp := t, window_open := False\<rparr>"
  have wf: "tcp_wf (tcp c)" "irc_wf c" using assms(1) by (simp_all add: irc_ok_def irc_wf_def)
  have recv: "tcp_recv_timeout pf fuel (tcp c) 0 POLL_TICKS d =
      Inr (int n, t, puts pf (slip_frame esc_byte (tcp_packet (taken m (tcp c)) 0 [])) d1)"
    unfolding n_def t_def using assms by (intro tcp_recv_taken wf) simp_all
  have n: "0 < n" using assms(7) by (auto simp: data_segment_def n_def)
  have data: "take n (tcp_rx_buffer t) = l @ [13, 10]"
    using rx_buffer_taken [OF assms(7), of "tcp c"] assms(5,12) by (simp add: packet_for_def n_def t_def)
  have kept: "tcp_kept (tcp c) t" and len: "n \<le> length (tcp_rx_buffer t)"
    using stack.recv_safe [OF wf(1) assms(11), of fuel 0 POLL_TICKS d] recv by (simp_all add: rx_bound_def)
  have ok: "irc_ok ?c" using irc_wf_tcp [OF wf(2) kept] assms(1) by (simp add: irc_ok_def typed_def)
  have "n = length (take n (tcp_rx_buffer t))" using len by simp
  then have nl: "n = length l + 2" by (simp add: data)
  from rx_line [OF assms(13,14), of ?c] ok assms(2) obtain c' where
    c': "irc_show_data (l @ [13, 10]) (length l + 2) ?c = Inr c'" "reacts (received l) ?c c'" by (auto simp: irc_ok_def)
  have "irc_show_data (tcp_rx_buffer t) n ?c = Inr c'"
    using irc_show_data_take [OF len, of ?c] c'(1) unfolding data by (simp only: nl)
  then have "irc_poll_net pf fuel c d = Inr (0, c', puts pf (slip_frame esc_byte (tcp_packet (taken m (tcp c)) 0 [])) d1)"
    using n assms(3,11) recv by (simp add: irc_poll_net_def)
  then show ?thesis using c'(2) ok by blast
qed

text \<open>An idle poll, and a line that is sent on an idle connection and answered.\<close>

lemma irc_drain_idle:
  assumes "reads pf es d d'" and "Some END \<notin> set es" and "length es = 6" and "tcp_wf (tcp c)" and "0 < EAGAIN pf" and "2 \<le> fuel"
  shows "irc_drain pf fuel 3 c d = Inr (c, d')"
proof -
  obtain f where f: "fuel = Suc (Suc f)" using assms(6) by (metis add_2_eq_Suc le_Suc_ex)
  obtain e1 e2 e3 where es: "es = e1 @ e2 @ e3" "length e1 = 2" "length e2 = 2" "length e3 = 2"
  proof
    show "es = take 2 es @ take 2 (drop 2 es) @ drop 4 es" by (metis append_take_drop_id drop_drop numeral_Bit0)
  qed (use assms(3) in simp_all)
  then obtain d1 d2 where r: "reads pf e1 d d1" "reads pf e2 d1 d2" "reads pf e3 d2 d'" using assms(1) by (auto simp: reads_append)
  have idle: "tcp_recv_timeout pf fuel (tcp c) 0 POLL_TICKS x = Inr (- EAGAIN pf, tcp c, y)"
    if "reads pf e x y" "length e = 2" "Some END \<notin> set e" for e x y
    unfolding f using that by (intro tcp_recv_idle [OF _ _ _ assms(4,5)]) simp_all
  show ?thesis
    using idle [OF r(1)] idle [OF r(2)] idle [OF r(3)] es assms(2,5) by (simp add: numeral_3_eq_3)
qed

lemma o_send_answered:
  assumes "irc_wf c" and "1 < tcp_seq (tcp c)" and "reads pf es (puts pf (slip_frame esc_byte (tcp_packet (tcp c) 0 [])) d) d1"
    and "Some END \<notin> set es" and "length es = 6" and "bare_segment (tcp c) a"
    and "arrives pf RS232_TPS a (puts pf (slip_frame esc_byte (tcp_packet (tcp_sent (tcp c) 0 []) 0 (queued c @ [13, 10]))) d1) d2"
    and "length a + 3 < fuel" and "0 < EAGAIN pf"
  shows "\<exists>t obuf. o_send pf fuel c d = Inr (c\<lparr>tcp := t, window_open := False, out_line := obuf, out_len := 0\<rparr>, d2) \<and>
    tcp_kept (tcp c) t \<and> tcp_ack t = tcp_ack (tcp c) \<and> length obuf = 256"
proof -
  let ?t = "tcp_sent (tcp c) 0 []"
  let ?o = "(out_line c)[out_len c := 13, out_len c + 1 := 10]"
  have c: "tcp_wf (tcp c)" "length (tcp_pkt (tcp c)) = 552" "length (out_line c) = 256" "out_len c \<le> 254"
    using assms(1) by (simp_all add: irc_wf_def)
  have t: "tcp_wf ?t" "tcp_seq ?t = tcp_seq (tcp c)" "tcp_ack ?t = tcp_ack (tcp c)" "length (tcp_pkt ?t) = 552" "bare_segment ?t a"
    using tcp_wf_sent [of "tcp c" "[]" 0] c assms(6) by (simp_all add: tcp_sent_def bare_segment_def packet_for_def)
  obtain f where f: "fuel = Suc f" using assms(8) by (cases fuel) auto
  have ack: "tcp_send pf fuel (tcp c) 0 None 0 d = Inr (0, ?t, puts pf (slip_frame esc_byte (tcp_packet (tcp c) 0 [])) d)"
    unfolding f tcp_send_def by (rule tcp_send_ack [OF c(1) assms(2)])
  have drain: "irc_drain pf fuel 3 (c\<lparr>tcp := ?t, window_open := False\<rparr>) (puts pf (slip_frame esc_byte (tcp_packet (tcp c) 0 [])) d) =
      Inr (c\<lparr>tcp := ?t, window_open := False\<rparr>, d1)"
    using assms(3-5,8,9) t(1) by (intro irc_drain_idle) simp_all
  have payload: "tcp_payload ?t (out_len c + 2) (Some ?o) = queued c @ [13, 10]"
    using c(3,4) by (simp add: tcp_payload_def queued_def take_Suc_conv_app_nth)
  have "data_ok (out_len c + 2) (Some ?o)" "out_len c + 2 + 40 \<le> length (tcp_pkt ?t)" using c(3,4) t(4) by (simp_all add: data_ok_def)
  from tcp_send_answered [OF t(1) _ _ this(2,1) t(5), where w = 0 and retries = 0 and fuel = fuel and d = d1 and pf = pf] payload assms(2,7-9) t(2)
  obtain t' where sent: "tcp_send pf fuel ?t (out_len c + 2) (Some ?o) 0 d1 = Inr (0, t', d2)" "tcp_ack t' = tcp_ack (tcp c)"
    using t(3) by (auto simp: tcp_send_def)
  have "tcp_kept ?t t'"
    using holds_res_InrD [OF stack.send_safe [OF t(1) \<open>out_len c + 2 + 40 \<le> length (tcp_pkt ?t)\<close> \<open>data_ok (out_len c + 2) (Some ?o)\<close>] sent(1)] by simp
  moreover have "tcp_kept (tcp c) ?t" using c(1,2) by (intro tcp_kept_sent) simp_all
  ultimately have kept: "tcp_kept (tcp c) t'" by (rule tcp_kept_trans [rotated])
  have "wr (out_line c) (out_len c) 13 = Inr ((out_line c)[out_len c := 13])"
    "wr ((out_line c)[out_len c := 13]) (out_len c + 1) 10 = Inr ?o" using c(3,4) by (simp_all add: wr_def)
  then have "o_send pf fuel c d = Inr (c\<lparr>tcp := t', window_open := False, out_line := ?o, out_len := 0\<rparr>, d2)"
    using sent(1) by (simp add: o_send_def ack drain)
  moreover have "length ?o = 256" using c(3) by simp
  ultimately show ?thesis using kept sent(2) by blast
qed

text \<open>The same on a scripted line: idle while the connection is drained, then the answer.\<close>

lemma o_send_script:
  assumes "irc_wf c" and "1 < tcp_seq (tcp c)" and "bare_segment (tcp c) a" and "length a + 3 < fuel"
  defines "closed \<equiv> tcp_packet (tcp c) 0 []" and "sent \<equiv> tcp_packet (tcp_sent (tcp c) 0 []) 0 (queued c @ [13, 10])"
  shows "\<exists>t obuf. o_send script_line fuel c (replicate 6 None @ map Some (slip_frame esc_byte a) @ rx, tx) =
    Inr (c\<lparr>tcp := t, window_open := False, out_line := obuf, out_len := 0\<rparr>,
      (rx, tx @ slip_frame esc_byte closed @ slip_frame esc_byte sent)) \<and> tcp_kept (tcp c) t \<and> tcp_ack t = tcp_ack (tcp c) \<and> length obuf = 256"
proof -
  let ?a = "map Some (slip_frame esc_byte a) @ rx"
  have idle: "reads script_line (replicate 6 None) (puts script_line (slip_frame esc_byte (tcp_packet (tcp c) 0 [])) (replicate 6 None @ ?a, tx))
      (?a, tx @ slip_frame esc_byte closed)"
    unfolding puts_script closed_def by (rule reads_script)
  have "arrives script_line RS232_TPS a (puts script_line (slip_frame esc_byte (tcp_packet (tcp_sent (tcp c) 0 []) 0 (queued c @ [13, 10])))
      (?a, tx @ slip_frame esc_byte closed)) (rx, (tx @ slip_frame esc_byte closed) @ slip_frame esc_byte sent)"
    unfolding puts_script sent_def by (rule arrives_script) simp
  from o_send_answered [OF assms(1,2) idle _ _ assms(3) this assms(4)] show ?thesis by auto
qed

text \<open>Strings queued one after the other.\<close>

lemma puts_queue_trans:
  assumes "puts_queue s c c1" and "puts_queue t c1 c2" and "length (queued c) + length s \<le> 254"
  shows "puts_queue (s @ t) c c2"
proof -
  have "queued c1 = queued c @ s" using assms(1,3) by (simp add: puts_queue_def)
  moreover have "c2 = c\<lparr>out_line := out_line c2, out_len := out_len c2\<rparr>"
    using assms(1,2) by (cases c; cases c1; cases c2) (auto simp: puts_queue_def)
  ultimately show ?thesis using assms(2) by (simp add: puts_queue_def)
qed

lemma puts_queue_sel:
  assumes "puts_queue s c c'"
  shows "irc_wf c'" and "tcp c' = tcp c" and "input c' = input c" and "input_len c' = input_len c" and "outp c' = outp c"
    and "mynick c' = mynick c" and "cur_chan c' = cur_chan c" and "pong_arg c' = pong_arg c"
    and "pong_pending c' = pong_pending c" and "join_pending c' = join_pending c"
    and "length (queued c) + length s \<le> 254 \<Longrightarrow> queued c' = queued c @ s"
proof -
  show "irc_wf c'" "length (queued c) + length s \<le> 254 \<Longrightarrow> queued c' = queued c @ s" using assms by (simp_all add: puts_queue_def)
  obtain u n where "c' = c\<lparr>out_line := u, out_len := n\<rparr>" using assms unfolding puts_queue_def by blast
  then show "tcp c' = tcp c" "input c' = input c" "input_len c' = input_len c" "outp c' = outp c" "mynick c' = mynick c"
    "cur_chan c' = cur_chan c" "pong_arg c' = pong_arg c" "pong_pending c' = pong_pending c" "join_pending c' = join_pending c" by simp_all
qed

text \<open>The answer to a ping.\<close>

lemma flush_pong:
  assumes "irc_wf c" and "pong_pending c" and "\<not> join_pending c" and "out_len c = 0" and "c_str (pong_arg c) 0 = Inr tok"
    and "length tok \<le> 63" and "1 < tcp_seq (tcp c)" and "bare_segment (tcp c) a" and "length a + 3 < fuel"
  shows "\<exists>c'. flush_pending script_line fuel c (replicate 6 None @ map Some (slip_frame esc_byte a) @ rx, tx) =
      Inr (c', (rx, tx @ slip_frame esc_byte (tcp_packet (tcp c) 0 []) @
        slip_frame esc_byte (tcp_packet (tcp_sent (tcp c) 0 []) 0 (asc ''PONG :'' @ tok @ [13, 10])))) \<and> \<not> pong_pending c'"
proof -
  let ?c = "c\<lparr>pong_pending := False\<rparr>"
  have "irc_wf ?c" "0 \<notin> set (asc ''PONG :'')" using assms(1) by (simp_all add: irc_wf_def asc_def)
  from o_str_ok [OF this(1) c_str_lit [OF this(2)]] obtain c2 where
    c2: "o_str (lit ''PONG :'') ?c = Inr c2" "puts_queue (asc ''PONG :'') ?c c2" by blast
  from o_str_ok [OF puts_queue_sel(1) [OF c2(2)], of "pong_arg c2" tok] puts_queue_sel(8) [OF c2(2)] assms(5) obtain c3 where
    c3: "o_str (pong_arg c2) c2 = Inr c3" "puts_queue tok c2 c3" by auto
  have q: "queued ?c = []" "length (asc ''PONG :'') = 6" using assms(4) by (simp_all add: queued_def asc_def)
  then have all: "puts_queue (asc ''PONG :'' @ tok) ?c c3" by (intro puts_queue_trans [OF c2(2) c3(2)]) simp
  note sel = puts_queue_sel [OF all]
  have "queued c3 = asc ''PONG :'' @ tok" using sel(11) q assms(6) by simp
  with o_send_script [OF sel(1) _ _ assms(9), where rx = rx and tx = tx] sel(2) assms(7,8) obtain t obuf where
    "o_send script_line fuel c3 (replicate 6 None @ map Some (slip_frame esc_byte a) @ rx, tx) =
      Inr (c3\<lparr>tcp := t, window_open := False, out_line := obuf, out_len := 0\<rparr>, (rx, tx @ slip_frame esc_byte (tcp_packet (tcp c) 0 []) @
        slip_frame esc_byte (tcp_packet (tcp_sent (tcp c) 0 []) 0 (asc ''PONG :'' @ tok @ [13, 10]))))" by auto
  then show ?thesis
    using assms(2,3) c2(1) c3(1) sel(9,10) by (simp add: flush_pending_def)
qed

section \<open>Properties\<close>

text \<open>A session for concrete runs: on the channel \<open>#z\<close>, with the nick \<open>me\<close>, and the text \<open>s\<close> typed.\<close>

definition demo_irc :: "bytes \<Rightarrow> irc" where
  "demo_irc s = irc_init\<lparr>tcp := demo_tcp 7 100, input := s @ replicate (102 - length s) 0, input_len := length s,
     window_open := True, mynick := asc ''me'' @ replicate 15 0, cur_chan := asc ''#z'' @ replicate 31 0\<rparr>"

lemma demo_irc_sel [simp]:
  "tcp (demo_irc s) = demo_tcp 7 100" "input_len (demo_irc s) = length s" "window_open (demo_irc s)" "outp (demo_irc s) = []"
  "rxlen (demo_irc s) = 0" "out_len (demo_irc s) = 0" "typed (demo_irc s) = s" "\<not> join_pending (demo_irc s)"
  "\<not> pong_pending (demo_irc s)"
  by (simp_all add: demo_irc_def irc_init_def typed_def)

lemma demo_irc_ok: "length s \<le> 100 \<Longrightarrow> plain s \<Longrightarrow> irc_ok (demo_irc s)"
proof -
  have "length (input (demo_irc s)) = max 102 (length s)" by (simp add: demo_irc_def)
  then show "length s \<le> 100 \<Longrightarrow> plain s \<Longrightarrow> ?thesis"
    unfolding irc_ok_def irc_wf_def by (simp add: demo_irc_def irc_init_def asc_def typed_def)
qed

text \<open>
  C35: a turn of the IRC client is safe whatever the server sends and whatever is typed, for every
  command. It never leaves a buffer, keeps the invariant of the state (the lengths of all its
  arrays, the strings in them ended, only printable characters typed, a well-formed
  connection), and all it prints are whole log lines and input rows, so that the screen stays in
  order and no received byte reaches the console as a control code.
\<close>

theorem irc_turn_safe:
  assumes "irc_ok c" and "0 \<le> EAGAIN pf" and "con_ok con"
  shows "holds_res (\<lambda>(go, c', ks', d'). irc_ok c' \<and> (\<exists>xs. outp c' = outp c @ xs \<and> drawn xs \<and> con_ok (con_puts xs con)))
    (irc_turn pf kb fuel c ks d)"
  by (rule holds_res_mono [OF irc_turn_next [OF irc_next_refl [OF assms(1)] assms(2)]])
    (use con_ok_drawn [OF _ assms(3)] in \<open>auto simp: irc_next_def irc_mid_def irc_ok_def\<close>)

theorem irc_turn_safe_witness:
  "holds_res (\<lambda>(go, c', ks', d'). irc_ok c' \<and>
      (\<exists>xs. outp c' = outp (demo_irc (asc ''/join #a'')) @ xs \<and> drawn xs \<and> con_ok (con_puts xs fresh_console)))
    (irc_turn script_line script_keys 9 (demo_irc (asc ''/join #a'')) [13] ([Some END, Some 1, Some END], []))"
  by (rule irc_turn_safe [OF demo_irc_ok _ con_ok_fresh]) (simp_all add: asc_def)

text \<open>
  C36: the whole IRC program is memory safe: on every line and every keyboard, with the array for
  the answers uninitialised, it never leaves a buffer, from the first question to the end.
\<close>

theorem irc_main_safe:
  assumes "0 < EAGAIN pf" and "length line = IRC_MAX_INPUT + 2"
  shows "irc_main pf kb fuel line baud parity ks d \<noteq> Inl OutOfBounds"
proof -
  obtain r d1 where init: "slip_init pf baud parity d = (r, d1)" by fastforce
  have conn: "holds_res (\<lambda>(rc, t, d'). tcp_wf t \<and> length (tcp_pkt t) = length (tcp_pkt t0)) (tcp_connect pf fuel t0 e)"
    if "tcp_wf t0" for t0 e
    using that tcp_connect_loop_sound [OF assms(1), of "t0\<lparr>tcp_ths := 0\<rparr>"] unfolding tcp_connect_def
    by (intro holds_res_mono [OF tcp_connect_loop_sound [OF assms(1)]]) (auto simp: same_peer_def tcp_wf_def)
  have started: "irc_ok (putcs [12] (c\<lparr>tcp := t, input_len := 0, rxlen := 0, out_len := 0, pong_pending := False, join_pending := False,
      window_open := False\<rparr>))" if "irc_wf c" "tcp_wf t" "length (tcp_pkt t) = length (tcp_pkt (tcp c))" for c t
    using that by (simp add: irc_ok_def irc_wf_def putcs_def typed_def)
  have run: "holds_res (\<lambda>_. True) (rbind (irc_log_line s c) (\<lambda>c.
       rbind (irc_register pf fuel c e) (\<lambda>(c, d).
       rbind (irc_loop pf kb fuel c ks d) (\<lambda>(c, ks, d). Inr (0 :: int, putcs (at INPUT_ROW 0 @ [10]) c, ks, d)))))"
    if "irc_ok c" for s c ks e
    by (rule holds_log [OF irc_next_refl [OF that]], rule holds_res_rbindI [OF irc_register_next [OF _ less_imp_le [OF assms(1)]]],
        assumption, clarify, rule holds_res_rbindI [OF irc_loop_next [OF _ less_imp_le [OF assms(1)]]], assumption) auto
  have "holds_res (\<lambda>_. True) (irc_main pf kb fuel line baud parity ks d)"
    unfolding irc_main_def
  proof (rule holds_res_rbindI [OF irc_setup_safe], use assms(2) in simp, clarify)
    fix c :: irc and ks1
    assume c: "irc_wf c"
    then have wf: "tcp_wf (tcp c)" by (simp add: irc_wf_def)
    show "holds_res (\<lambda>_. True) (let (_, d) = slip_init pf baud parity d in rbind (tcp_connect pf fuel (tcp c) d) (\<lambda>(rc, t, d).
      let c = c\<lparr>tcp := t\<rparr> in
      if rc < 0 then Inr (1 :: int, putcs (asc ''Failed to connect: '' @ dec_int rc @ [10]) c, ks1, d)
      else
       rbind (irc_log_line (asc ''*** connected. /help for commands, CAPS+SYM+C quits.'')
         (putcs [12] (c\<lparr>input_len := 0, rxlen := 0, out_len := 0, pong_pending := False, join_pending := False,
            window_open := False\<rparr>))) (\<lambda>c.
       rbind (irc_register pf fuel c d) (\<lambda>(c, d).
       rbind (irc_loop pf kb fuel c ks1 d) (\<lambda>(c, ks, d). Inr (0, putcs (at INPUT_ROW 0 @ [10]) c, ks, d))))))"
      unfolding init Let_def prod.case
      by (rule holds_res_rbindI [OF conn [OF wf]], clarify, rule holds_res_if, simp, rule run, rule started [OF c]) simp_all
  qed
  then show ?thesis by (rule holds_res_no_oob)
qed

theorem irc_main_safe_witness:
  "irc_main script_line script_keys 50 (replicate 102 7) 0 0 [0x31, 13] ([], []) \<noteq> Inl OutOfBounds"
  by (rule irc_main_safe) simp_all

text \<open>
  C13: the client reacts to the lines of the server. However the stream of the server is cut into
  segments, every line of it is seen once and in order, cut to the 319 characters that fit, and
  the parsing in place does what \<open>reacts\<close> says of the line as a string: it logs the texts of
  \<open>server_texts\<close> (a message, a join, a notice, a numeric reply, or the line itself), notes a ping with
  its token and the welcome when there is a channel to join, follows a change of our own nick, and
  changes nothing else.
\<close>

theorem irc_stream_lines:
  assumes "irc_ok c" and "rxlen c = 0" and "\<forall>l \<in> set ls. 10 \<notin> set l \<and> 13 \<notin> set l"
    and "concat segs = concat (map (\<lambda>l. l @ [13, 10]) ls)"
  shows "\<exists>c'. rx_segments segs c = Inr c' \<and> reacts_all (map received ls) c c'"
  using rx_lines [OF assms(3,1,2)] by (simp add: rx_segments_concat assms(4))

theorem irc_stream_lines_witness:
  "\<exists>c'. rx_segments [asc ''PING :ab'', [13, 10] @ asc ''PI'', asc ''NG'' @ [13, 10]] (demo_irc []) = Inr c' \<and>
    reacts_all (map received [asc ''PING :ab'', asc ''PING'']) (demo_irc []) c'"
  by (rule irc_stream_lines [OF demo_irc_ok]) (simp_all add: asc_def)

text \<open>
  A message on a channel appears on the screen. When a segment arrives in order with the line
  \<^verbatim>\<open>:nick!host PRIVMSG #chan :text\<close>, it is acknowledged with one packet, and \<^verbatim>\<open><nick> text\<close>, wrapped to whole
  rows, is the new end of the log, while what is being typed stays on the last row.
\<close>

theorem irc_shows_privmsg:
  assumes "irc_ok c" and "rxlen c = 0" and "window_open c" and "1 < tcp_seq (tcp c)" and "packet_for (tcp c) m"
    and "seg_flags m AND TCP_RST = 0" and "data_segment m" and "seg_seq m = tcp_ack (tcp c)" and "arrives pf POLL_TICKS m d d1"
    and "length m + 2 < fuel" and "0 \<le> EAGAIN pf" and "drop (20 + unat (seg_ths m)) m = line @ [13, 10]"
    and "line = 58 # nick @ 33 # host @ asc '' PRIVMSG '' @ (35 # chan) @ asc '' :'' @ txt"
    and "set line \<inter> {0, 10, 13} = {}" and "length line \<le> 319"
    and "nick \<noteq> []" and "set nick \<inter> {32, 33, 64} = {}" and "32 \<notin> set host" and "32 \<notin> set chan" and "txt = [] \<or> hd txt \<noteq> 1"
    and "displays con log (input_text (typed c))"
  shows "\<exists>c' a out. irc_poll_net pf fuel c d = Inr (0, c', puts pf (slip_frame esc_byte a) d1) \<and>
    seg_ack a = tcp_ack (tcp c) + word_of_nat (length m - 20 - unat (seg_ths m)) \<and> outp c' = outp c @ out \<and>
    displays (con_puts out con) (log @ log_rows (clean (asc ''<'' @ nick @ asc ''> '' @ txt))) (input_text (typed c))"
proof -
  let ?c = "c\<lparr>tcp := tcp_sent (taken m (tcp c)) 0 [], window_open := False\<rparr>"
  have nocr: "10 \<notin> set line" "13 \<notin> set line" "0 \<notin> set line" using assms(14) by auto
  have le: "tcp_ack (tcp c) \<le> seg_seq m" using assms(8) by simp
  from irc_poll_line [OF assms(1-7) le assms(9-12) nocr(1,2)] obtain c' where
    c': "irc_poll_net pf fuel c d = Inr (0, c', puts pf (slip_frame esc_byte (tcp_packet (taken m (tcp c)) 0 [])) d1)"
      "reacts (received line) ?c c'" "irc_ok ?c" by blast
  have "received line = line" using nocr(3) assms(15) by (rule received_id)
  moreover have "server_texts line = [asc ''<'' @ nick @ asc ''> '' @ txt]"
    unfolding assms(13) by (rule privmsg_texts [OF assms(16-18) refl assms(19,20)])
  moreover have "displays con log (input_text (typed ?c))" using assms(21) by (simp add: typed_def)
  ultimately obtain out where "outp c' = outp ?c @ out"
      "displays (con_puts out con) (log @ log_rows (clean (asc ''<'' @ nick @ asc ''> '' @ txt))) (input_text (typed ?c))"
    using reacts_displays [OF c'(2,3)] by auto
  then show ?thesis
    using c'(1) assms(8) by (intro exI [of _ c'] exI [of _ "tcp_packet (taken m (tcp c)) 0 []"] exI [of _ out]) (simp add: typed_def)
qed

text \<open>The line of the witness.\<close>

definition demo_line :: bytes where
  "demo_line = 58 # asc ''bob'' @ 33 # asc ''h'' @ asc '' PRIVMSG '' @ (35 # asc ''z'') @ asc '' :'' @ asc ''hi''"

lemma demo_line_eq: "demo_line = [58, 98, 111, 98, 33, 104, 32, 80, 82, 73, 86, 77, 83, 71, 32, 35, 122, 32, 58, 104, 105]"
  by (simp add: demo_line_def asc_def)

theorem irc_shows_privmsg_witness:
  "\<exists>c' a out. irc_poll_net script_line 99 (demo_irc [111])
      (map Some (slip_frame esc_byte (demo_seg 100 7 TCP_ACK (demo_line @ [13, 10]))) @ [], []) =
      Inr (0, c', puts script_line (slip_frame esc_byte a) ([], [])) \<and>
    seg_ack a = tcp_ack (tcp (demo_irc [111])) + word_of_nat (length (demo_seg 100 7 TCP_ACK (demo_line @ [13, 10])) - 20 -
      unat (seg_ths (demo_seg 100 7 TCP_ACK (demo_line @ [13, 10])))) \<and> outp c' = outp (demo_irc [111]) @ out \<and>
    displays (con_puts out (con_puts (input_output (input_text [111])) fresh_console))
      ([] @ log_rows (clean (asc ''<'' @ asc ''bob'' @ asc ''> '' @ asc ''hi''))) (input_text (typed (demo_irc [111])))"
proof (rule irc_shows_privmsg [OF demo_irc_ok, where line = demo_line and host = "asc ''h''" and chan = "asc ''z''"])
  show "demo_line = 58 # asc ''bob'' @ 33 # asc ''h'' @ asc '' PRIVMSG '' @ (35 # asc ''z'') @ asc '' :'' @ asc ''hi''"
    by (rule demo_line_def)
  show "length demo_line \<le> 319" "set demo_line \<inter> {0, 10, 13} = {}" by (simp_all add: demo_line_eq)
qed (simp_all add: data_segment_def arrives_script fresh_displays demo_line_eq asc_def del: append_Nil2)

text \<open>What a PING leaves: its token is noted.\<close>

lemma ping_noted:
  assumes "reacts (asc ''PING :'' @ tok) c c1" and "irc_ok c" and "length tok \<le> 63" and "out_len c = 0" and "\<not> join_pending c"
  shows "pong_pending c1" and "\<not> join_pending c1" and "tcp c1 = tcp c" and "out_len c1 = 0"
    and "c_str (pong_arg c1) 0 = Inr tok" and "irc_wf c1"
proof -
  let ?l = "asc ''PING :'' @ tok"
  have msg: "msg_cmd ?l = asc ''PING''" "param_of (msg_rest ?l) = tok" using ping_message by blast+
  have "noted (server_texts ?l) (c\<lparr>mynick := mynick c1, pong_arg := pong_arg c1, pong_pending := True, join_pending := False\<rparr>) c1"
    using assms(1,5) unfolding reacts_def welcomes_def msg by (simp add: asc_def)
  then show "pong_pending c1" "\<not> join_pending c1" "tcp c1 = tcp c" "out_len c1 = 0"
    using assms(4) by (cases c; cases c1; auto simp: noted_def)+
  show "c_str (pong_arg c1) 0 = Inr tok" using assms(1,3) unfolding reacts_def msg by simp
  show "irc_wf c1" using reacts_next [OF assms(2,1)] irc_next_ok by (auto simp: irc_ok_def)
qed

text \<open>
  C37: a ping is answered in the same turn. When the server's \<^verbatim>\<open>PING :token\<close> arrives, the client
  acknowledges it, closes its window and drains what is on the way, then puts one segment with
  exactly \<^verbatim>\<open>PONG :token\<close> on the line, with the sequence number the server expects, and has nothing left
  to answer.
\<close>

theorem irc_answers_ping:
  assumes "irc_ok c" and "rxlen c = 0" and "window_open c" and "1 < tcp_seq (tcp c)" and "packet_for (tcp c) m"
    and "seg_flags m AND TCP_RST = 0" and "data_segment m" and "seg_seq m = tcp_ack (tcp c)" and "length m + 2 < fuel"
    and "drop (20 + unat (seg_ths m)) m = (asc ''PING :'' @ tok) @ [13, 10]" and "set tok \<inter> {0, 10, 13} = {}" and "length tok \<le> 63"
    and "in_GetKey kb ks = (0, ks')" and "out_len c = 0" and "\<not> join_pending c"
    and "packet_for (tcp c) a" and "seg_flags a AND TCP_RST = 0" and "length a = 20 + unat (seg_ths a)"
    and "seg_seq a + 1 \<noteq> seg_seq m + word_of_nat (length m - 20 - unat (seg_ths m))" and "length a + 3 < fuel"
  shows "\<exists>c' ack closed pong. irc_turn script_line kb fuel c ks
      (map Some (slip_frame esc_byte m) @ replicate 6 None @ map Some (slip_frame esc_byte a) @ rx, tx) =
      Inr (True, c', ks', (rx, tx @ slip_frame esc_byte ack @ slip_frame esc_byte closed @ slip_frame esc_byte pong)) \<and>
    drop 40 pong = asc ''PONG :'' @ tok @ [13, 10] \<and> seg_seq pong = max (tcp_seq (tcp c)) (seg_ack m) \<and> \<not> pong_pending c'"
proof -
  let ?l = "asc ''PING :'' @ tok" and ?t = "tcp_sent (taken m (tcp c)) 0 []"
  let ?c = "c\<lparr>tcp := ?t, window_open := False\<rparr>"
  let ?rest = "replicate 6 None @ map Some (slip_frame esc_byte a) @ rx"
  let ?tx1 = "tx @ slip_frame esc_byte (tcp_packet (taken m (tcp c)) 0 [])"
  have l: "10 \<notin> set ?l" "13 \<notin> set ?l" "received ?l = ?l"
  proof -
    show "10 \<notin> set ?l" "13 \<notin> set ?l" using assms(11) by (auto simp: asc_def)
    have "0 \<notin> set ?l" "length ?l \<le> 319" using assms(11,12) by (auto simp: asc_def)
    then show "received ?l = ?l" by (rule received_id)
  qed
  have arr: "arrives script_line POLL_TICKS m (map Some (slip_frame esc_byte m) @ ?rest, tx) (?rest, tx)"
    by (rule arrives_script) simp
  have le: "tcp_ack (tcp c) \<le> seg_seq m" and ea: "0 \<le> EAGAIN script_line" using assms(8) by simp_all
  from irc_poll_line [OF assms(1-7) le arr assms(9) ea assms(10) l(1,2)] l(3) obtain c1 where
    c1: "irc_poll_net script_line fuel c (map Some (slip_frame esc_byte m) @ ?rest, tx) = Inr (0, c1, (?rest, ?tx1))"
      "reacts ?l ?c c1" "irc_ok ?c" by (auto simp: puts_script)
  from ping_noted [OF c1(2,3) assms(12)] assms(14,15) have st: "pong_pending c1" "\<not> join_pending c1" "tcp c1 = ?t" "out_len c1 = 0"
    "c_str (pong_arg c1) 0 = Inr tok" "irc_wf c1" by simp_all
  have t: "1 < tcp_seq ?t" "tcp_seq ?t = max (tcp_seq (tcp c)) (seg_ack m)" "bare_segment ?t a"
  proof -
    show "tcp_seq ?t = max (tcp_seq (tcp c)) (seg_ack m)" by (simp add: tcp_sent_def)
    then show "1 < tcp_seq ?t" using assms(4) by (simp add: less_max_iff_disj)
    show "bare_segment ?t a"
      using assms(5,16-19) by (simp add: bare_segment_def packet_for_def tcp_sent_def taken_def loaded_def set_pkt_def)
  qed
  let ?cl = "tcp_packet ?t 0 []" and ?pg = "tcp_packet (tcp_sent ?t 0 []) 0 (asc ''PONG :'' @ tok @ [13, 10])"
  from flush_pong [OF st(6,1,2,4,5) assms(12) _ _ assms(20), where rx = rx and tx = ?tx1] t(1,3) st(3) obtain c' where
    f: "flush_pending script_line fuel c1 (?rest, ?tx1) = Inr (c', (rx, ?tx1 @ slip_frame esc_byte ?cl @ slip_frame esc_byte ?pg))"
      "\<not> pong_pending c'" by auto
  then have "irc_turn script_line kb fuel c ks (map Some (slip_frame esc_byte m) @ ?rest, tx) =
      Inr (True, c', ks', (rx, ?tx1 @ slip_frame esc_byte ?cl @ slip_frame esc_byte ?pg))"
    using c1(1) by (simp add: irc_turn_def assms(13))
  moreover have "drop 40 ?pg = asc ''PONG :'' @ tok @ [13, 10]" "seg_seq ?pg = max (tcp_seq (tcp c)) (seg_ack m)"
    by (simp_all add: tcp_sent_def)
  ultimately show ?thesis
    using f(2) by (intro exI [of _ c'] exI [of _ "tcp_packet (taken m (tcp c)) 0 []"] exI [of _ ?cl] exI [of _ ?pg]) simp
qed

theorem irc_answers_ping_witness:
  "\<exists>c' ack closed pong. irc_turn script_line script_keys 99 (demo_irc []) []
      (map Some (slip_frame esc_byte (demo_seg 100 7 TCP_ACK ((asc ''PING :'' @ asc ''ab'') @ [13, 10]))) @ replicate 6 None @
        map Some (slip_frame esc_byte (demo_seg 110 17 TCP_ACK [])) @ [], []) =
      Inr (True, c', [], ([], [] @ slip_frame esc_byte ack @ slip_frame esc_byte closed @ slip_frame esc_byte pong)) \<and>
    drop 40 pong = asc ''PONG :'' @ asc ''ab'' @ [13, 10] \<and>
    seg_seq pong = max (tcp_seq (tcp (demo_irc []))) (seg_ack (demo_seg 100 7 TCP_ACK ((asc ''PING :'' @ asc ''ab'') @ [13, 10]))) \<and>
    \<not> pong_pending c'"
  by (rule irc_answers_ping [OF demo_irc_ok]) (simp_all add: data_segment_def asc_def script_keys_def)

end
