(* ===== verification/Irc_Commands.thy ===== *)
theory Irc_Commands
  imports Irc_Talk
begin

text \<open>
  What a typed line does. The effect of a line is specified over strings alone: the line that is
  sent to the server, the texts that are logged, the channel afterwards, and whether the program
  ends. ENTER then has exactly this effect, on the wire and on the screen, for every line: what is
  said, each of the commands with its abbreviations, in upper or lower case, and every mistake
  in their use.
\<close>

section \<open>The effect of a line\<close>

record effect =
  to_send :: "bytes option"
  to_log :: "bytes list"
  new_chan :: bytes
  leaves :: bool

definition tells :: "bytes \<Rightarrow> string list \<Rightarrow> effect" where
  "tells chan ts = \<lparr>to_send = None, to_log = map asc ts, new_chan = chan, leaves = False\<rparr>"

definition sends :: "bytes \<Rightarrow> bytes \<Rightarrow> bytes list \<Rightarrow> effect" where
  "sends chan l ts = \<lparr>to_send = Some l, to_log = ts, new_chan = chan, leaves = False\<rparr>"

text \<open>An optional text at the end of a line.\<close>

definition with_text :: "bytes \<Rightarrow> bytes" where
  "with_text arg = (if arg = [] then [] else asc '' :'' @ arg)"

definition names :: "bytes \<Rightarrow> string list \<Rightarrow> bool" where
  "names word ns \<longleftrightarrow> map lower word \<in> set (map asc ns)"

definition help_texts :: "string list" where
  "help_texts = [''*** /join #chan       /part [reason]     /nick name'',
     ''*** /msg nick text    /me action         /names'',
     ''*** /topic [text]     /raw irc command   /quit [reason]'',
     ''*** anything else is said on the current channel'']"

definition join_effect :: "bytes \<Rightarrow> bytes \<Rightarrow> effect" where
  "join_effect chan arg =
     (if arg \<noteq> [] \<and> (hd arg = 35 \<or> hd arg = 38)
      then let c = take MAX_CHAN (word_of arg) in sends c (asc ''JOIN '' @ c) []
      else tells chan [''*** usage: /join #channel''])"

definition msg_effect :: "bytes \<Rightarrow> bytes \<Rightarrow> effect" where
  "msg_effect chan arg =
     (let w = word_of arg; txt = word_rest arg in
      if w = [] \<or> txt = [] then tells chan [''*** usage: /msg nick text'']
      else sends chan (asc ''PRIVMSG '' @ w @ asc '' :'' @ txt) [asc ''>'' @ w @ asc ''< '' @ txt])"

definition me_effect :: "bytes \<Rightarrow> bytes \<Rightarrow> bytes \<Rightarrow> effect" where
  "me_effect nick chan arg =
     (if chan = [] \<or> arg = [] then tells chan [''*** usage: /me does something, on a channel'']
      else sends chan (asc ''PRIVMSG '' @ chan @ asc '' :'' @ 1 # asc ''ACTION '' @ arg @ [1]) [asc ''* '' @ nick @ asc '' '' @ arg])"

definition command_effect :: "bytes \<Rightarrow> bytes \<Rightarrow> bytes \<Rightarrow> effect" where
  "command_effect nick chan s =
     (let word = word_of s; arg = strip (word_rest s) in
      if names word [''help'', ''h''] then tells chan help_texts
      else if names word [''join'', ''j''] then join_effect chan arg
      else if names word [''part''] then
        (if chan = [] then tells [] [''*** you are not on a channel''] else sends [] (asc ''PART '' @ chan @ with_text arg) [])
      else if names word [''nick''] then
        (if arg = [] then tells chan [''*** usage: /nick newname''] else sends chan (asc ''NICK '' @ arg) [])
      else if names word [''msg'', ''m''] then msg_effect chan arg
      else if names word [''me''] then me_effect nick chan arg
      else if names word [''names''] then
        (if arg = [] \<and> chan = [] then tells chan [''*** usage: /names #channel'']
         else sends chan (asc ''NAMES '' @ (if arg = [] then chan else arg)) [])
      else if names word [''topic''] then
        (if chan = [] then tells chan [''*** you are not on a channel''] else sends chan (asc ''TOPIC '' @ chan @ with_text arg) [])
      else if names word [''raw'', ''quote''] then
        (if arg = [] then tells chan [''*** usage: /raw WHOIS someone''] else sends chan arg [])
      else if names word [''quit''] then
        (sends chan (asc ''QUIT :'' @ (if arg = [] then asc ''spectrum signing off'' else arg)) [])\<lparr>leaves := True\<rparr>
      else \<lparr>to_send = None, to_log = [asc ''*** no such command, try /help: /'' @ word], new_chan = chan, leaves = False\<rparr>)"

definition line_effect :: "bytes \<Rightarrow> bytes \<Rightarrow> bytes \<Rightarrow> effect" where
  "line_effect nick chan line =
     (if hd line = 47 then command_effect nick chan (tl line)
      else if chan = [] then tells chan [''*** you are not on a channel, try /join #chan'']
      else sends chan (asc ''PRIVMSG '' @ chan @ asc '' :'' @ line) [asc ''<'' @ nick @ asc ''> '' @ line])"

text \<open>
  What an effect is on the line: the ACK that closes the window and the segment with the line; and
  the input it needs: silence while the connection is drained, and the answer \<open>a\<close>.
\<close>

definition on_line :: "tcp_context \<Rightarrow> bytes option \<Rightarrow> bytes" where
  "on_line t l = (case l of None \<Rightarrow> [] | Some s \<Rightarrow> slip_frame esc_byte (tcp_packet t 0 []) @
     slip_frame esc_byte (tcp_packet (tcp_sent t 0 []) 0 (s @ [13, 10])))"

definition answer_for :: "bytes \<Rightarrow> bytes option \<Rightarrow> u8 option list" where
  "answer_for a l = (case l of None \<Rightarrow> [] | Some _ \<Rightarrow> replicate 6 None @ map Some (slip_frame esc_byte a))"

text \<open>
  \<open>carries_out a row e c m\<close>: the operation \<open>m\<close>, started in \<open>c\<close> while \<open>row\<close> is the input row on the screen, has
  the effect \<open>e\<close>.
\<close>

definition carries_out :: "bytes \<Rightarrow> bytes \<Rightarrow> effect \<Rightarrow> irc \<Rightarrow>
    (u8 option list \<times> bytes \<Rightarrow> (int \<times> irc \<times> u8 option list \<times> bytes) res) \<Rightarrow> bool" where
  "carries_out a row e c m \<longleftrightarrow> (\<forall>rx tx. \<exists>c' out.
     m (answer_for a (to_send e) @ rx, tx) = Inr (if leaves e then - 1 else 0, c', (rx, tx @ on_line (tcp c) (to_send e))) \<and>
     typed c' = [] \<and> out_len c' = 0 \<and> c_val (cur_chan c') = new_chan e \<and> mynick c' = mynick c \<and> outp c' = outp c @ out \<and>
     (\<forall>con log. displays con log row \<longrightarrow>
       displays (con_puts out con) (log @ concat (map (\<lambda>t. log_rows (clean t)) (to_log e))) (input_text [])))"

lemma carries_out_if:
  "(b \<Longrightarrow> carries_out a row e c m) \<Longrightarrow> (\<not> b \<Longrightarrow> carries_out a row e' c m') \<Longrightarrow>
   carries_out a row (if b then e else e') c (\<lambda>d. if b then m d else m' d)"
  by simp

section \<open>The pieces of an operation\<close>

text \<open>What an operation may rely on when it starts.\<close>

definition ready :: "nat \<Rightarrow> bytes \<Rightarrow> irc \<Rightarrow> bool" where
  "ready fuel a c \<longleftrightarrow> irc_wf c \<and> out_len c = 0 \<and> 1 < tcp_seq (tcp c) \<and> bare_segment (tcp c) a \<and> length a + 3 < fuel"

text \<open>The state after the input row has been cleared.\<close>

definition cleared :: "irc \<Rightarrow> irc" where
  "cleared c = putcs (input_output (input_text [])) (c\<lparr>input_len := 0\<rparr>)"

lemma clear_input_ok: "clear_input c = Inr (cleared c)"
  by (simp add: clear_input_def irc_draw_input_ok typed_def cleared_def)

lemma cleared_sel [simp]:
  "tcp (cleared c) = tcp c" "input (cleared c) = input c" "input_len (cleared c) = 0" "typed (cleared c) = []"
  "out_line (cleared c) = out_line c" "out_len (cleared c) = out_len c" "queued (cleared c) = queued c"
  "mynick (cleared c) = mynick c" "cur_chan (cleared c) = cur_chan c" "outp (cleared c) = outp c @ input_output (input_text [])"
  by (simp_all add: cleared_def putcs_def typed_def queued_def)

lemma irc_wf_cleared: "irc_wf c \<Longrightarrow> irc_wf (cleared c)"
  by (simp add: cleared_def putcs_def irc_wf_def)

text \<open>Texts logged one after the other, in a state with an empty input row.\<close>

lemma logged_displays:
  assumes "irc_wf c" and "typed c = []" and "displays con log row"
  shows "displays (con_puts (concat (map (\<lambda>t. log_output (clean t) (input_text [])) ts)) (con_puts (input_output (input_text [])) con))
    (log @ concat (map (\<lambda>t. log_rows (clean t)) ts)) (input_text [])"
proof -
  have ok: "irc_ok c" using assms(1,2) by (simp add: irc_ok_def)
  have "displays (con_puts (input_output (input_text [])) con) log (input_text (typed c))"
    using input_displays [OF assms(3), of "input_text []"] by (simp add: assms(2) plain_input_text)
  from irc_screen.logs_display [OF this ok, of "map clean ts"]
  have "displays (con_puts (concat (map (\<lambda>t. irc_log_out (clean t) c) ts)) (con_puts (input_output (input_text [])) con))
      (log @ concat (map (\<lambda>t. log_rows (clean t)) ts)) (input_text [])"
    by (simp add: assms(2) plain_clean comp_def)
  moreover have "irc_log_out (clean t) c = log_output (clean t) (input_text [])" for t
    using irc_screen.log_out_eq [OF ok plain_clean, of t] by (simp add: assms(2))
  ultimately show ?thesis by simp
qed

text \<open>Several texts logged.\<close>

abbreviation logged_all :: "bytes list \<Rightarrow> irc \<Rightarrow> irc" where "logged_all \<equiv> fold irc_logged"

lemma logged_all_sel:
  "typed (logged_all ts c) = typed c" "out_len (logged_all ts c) = out_len c" "cur_chan (logged_all ts c) = cur_chan c"
  "mynick (logged_all ts c) = mynick c" "input_len (logged_all ts c) = input_len c" "input (logged_all ts c) = input c"
  "outp (logged_all ts c) = outp c @ concat (map (\<lambda>t. log_output (clean t) (input_text (typed c))) ts)"
  by (induction ts arbitrary: c) simp_all

text \<open>A state in which the texts of an effect are logged at the end of the operation.\<close>

lemma carries_outI:
  assumes "\<And>rx tx. \<exists>c1. m (answer_for a (to_send e) @ rx, tx) =
      Inr (if leaves e then - 1 else 0, logged_all (to_log e) c1, (rx, tx @ on_line (tcp c) (to_send e))) \<and>
      irc_wf c1 \<and> typed c1 = [] \<and> out_len c1 = 0 \<and> c_val (cur_chan c1) = new_chan e \<and> mynick c1 = mynick c \<and>
      outp c1 = outp c @ input_output (input_text [])"
  shows "carries_out a row e c m"
  unfolding carries_out_def
proof (intro allI)
  fix rx tx
  from assms [of rx tx] obtain c1 where
    c1: "m (answer_for a (to_send e) @ rx, tx) = Inr (if leaves e then - 1 else 0, logged_all (to_log e) c1, (rx, tx @ on_line (tcp c) (to_send e)))"
      "irc_wf c1" "typed c1 = []" "out_len c1 = 0" "c_val (cur_chan c1) = new_chan e" "mynick c1 = mynick c"
      "outp c1 = outp c @ input_output (input_text [])" by blast
  show "\<exists>c' out. m (answer_for a (to_send e) @ rx, tx) = Inr (if leaves e then - 1 else 0, c', (rx, tx @ on_line (tcp c) (to_send e))) \<and>
     typed c' = [] \<and> out_len c' = 0 \<and> c_val (cur_chan c') = new_chan e \<and> mynick c' = mynick c \<and> outp c' = outp c @ out \<and>
     (\<forall>con log. displays con log row \<longrightarrow>
       displays (con_puts out con) (log @ concat (map (\<lambda>t. log_rows (clean t)) (to_log e))) (input_text []))"
  proof (intro exI conjI)
    show "m (answer_for a (to_send e) @ rx, tx) =
        Inr (if leaves e then - 1 else 0, logged_all (to_log e) c1, (rx, tx @ on_line (tcp c) (to_send e)))" by (rule c1(1))
    show "outp (logged_all (to_log e) c1) = outp c @ input_output (input_text []) @
        concat (map (\<lambda>t. log_output (clean t) (input_text [])) (to_log e))" by (simp add: logged_all_sel c1)
  qed (use c1 in \<open>auto simp: logged_all_sel intro: logged_displays [OF c1(2,3)]\<close>)
qed

text \<open>Texts without a line for the server.\<close>

lemma carries_tells:
  assumes "irc_wf c" and "out_len c = 0" and "to_send e = None" and "new_chan e = c_val (cur_chan c)" and "\<not> leaves e"
    and "\<And>c2 d. input_len c2 = 0 \<Longrightarrow> input c2 = input c \<Longrightarrow> k c2 d = Inr (0, logged_all (to_log e) c2, d)"
  shows "carries_out a row e c (\<lambda>d. rbind (clear_input c) (\<lambda>c. k c d))"
  using assms irc_wf_cleared [OF assms(1)]
  by (intro carries_outI exI [of _ "cleared c"]) (simp add: clear_input_ok answer_for_def on_line_def)

lemma usage_tells:
  assumes "irc_wf c" and "out_len c = 0" and "chan = c_val (cur_chan c)"
  shows "carries_out a row (tells chan [s]) c (usage s c)"
  unfolding usage_def using assms by (intro carries_tells) (simp_all add: tells_def irc_log_line_ok)

text \<open>Strings that are queued one after the other.\<close>

lemma queue_start: "ready fuel a c \<Longrightarrow> puts_queue [] c c"
  by (simp add: ready_def puts_queue_def queued_def)

lemma queue_step:
  assumes "puts_queue q c0 c" and "out_len c0 = 0" and "c_str s 0 = Inr t" and "length q + length t \<le> 254"
    and "\<And>c'. puts_queue (q @ t) c0 c' \<Longrightarrow> carries_out a row e c0 (\<lambda>d. f d c')"
  shows "carries_out a row e c0 (\<lambda>d. rbind (o_str s c) (f d))"
proof -
  from o_str_ok [OF puts_queue_sel(1) [OF assms(1)] assms(3)] obtain c' where
    c': "o_str s c = Inr c'" "puts_queue t c c'" by blast
  have "puts_queue (q @ t) c0 c'"
    by (rule puts_queue_trans [OF assms(1) c'(2)]) (use assms(2,4) in \<open>simp add: queued_def\<close>)
  from assms(5) [OF this] show ?thesis by (simp add: c'(1))
qed

text \<open>The line that has been queued is sent.\<close>

lemma clear_send_ok:
  assumes "puts_queue q c0 c" and "ready fuel a c0" and "length q \<le> 254"
  shows "\<exists>c1. clear_send script_line fuel c (answer_for a (Some q) @ rx, tx) = Inr (c1, (rx, tx @ on_line (tcp c0) (Some q))) \<and>
    irc_wf c1 \<and> typed c1 = [] \<and> input_len c1 = 0 \<and> out_len c1 = 0 \<and> cur_chan c1 = cur_chan c0 \<and> mynick c1 = mynick c0 \<and>
    input c1 = input c0 \<and> outp c1 = outp c0 @ input_output (input_text [])"
proof -
  note sel = puts_queue_sel [OF assms(1)]
  have q: "queued c = q" using sel(11) assms(2,3) by (simp add: ready_def queued_def)
  have "1 < tcp_seq (tcp (cleared c))" "bare_segment (tcp (cleared c)) a" "length a + 3 < fuel"
    using assms(2) sel(2) by (simp_all add: ready_def)
  from o_send_script [OF irc_wf_cleared [OF sel(1)] this, where rx = rx and tx = tx] obtain t obuf where
    s: "o_send script_line fuel (cleared c) (answer_for a (Some q) @ rx, tx) =
      Inr ((cleared c)\<lparr>tcp := t, window_open := False, out_line := obuf, out_len := 0\<rparr>, (rx, tx @ on_line (tcp c0) (Some q)))"
    by (auto simp: q sel(2) answer_for_def on_line_def)
  then have clear: "clear_send script_line fuel c (answer_for a (Some q) @ rx, tx) =
      Inr ((cleared c)\<lparr>tcp := t, window_open := False, out_line := obuf, out_len := 0\<rparr>, (rx, tx @ on_line (tcp c0) (Some q)))"
    by (simp add: clear_send_def clear_input_ok)
  from holds_res_InrD [OF clear_send_next [OF irc_mid_refl [OF sel(1)]] this]
  have "irc_wf ((cleared c)\<lparr>tcp := t, window_open := False, out_line := obuf, out_len := 0\<rparr>)"
    using irc_next_ok by (auto simp: irc_ok_def)
  then show ?thesis
    using clear sel by (intro exI [of _ "(cleared c)\<lparr>tcp := t, window_open := False, out_line := obuf, out_len := 0\<rparr>"])
      (simp add: typed_def)
qed

lemma carries_sends:
  assumes "puts_queue q c0 c" and "ready fuel a c0" and "length q \<le> 254" and "to_send e = Some q" and "new_chan e = c_val (cur_chan c0)"
    and "\<And>c2 d. input_len c2 = 0 \<Longrightarrow> input c2 = input c0 \<Longrightarrow> mynick c2 = mynick c0 \<Longrightarrow>
      k c2 d = Inr (if leaves e then - 1 else 0, logged_all (to_log e) c2, d)"
  shows "carries_out a row e c0 (\<lambda>d. rbind (clear_send script_line fuel c d) (\<lambda>(c, d). k c d))"
proof (rule carries_outI)
  fix rx tx
  from clear_send_ok [OF assms(1-3), of rx tx] obtain c1 where
    "clear_send script_line fuel c (answer_for a (Some q) @ rx, tx) = Inr (c1, (rx, tx @ on_line (tcp c0) (Some q)))"
    "irc_wf c1" "typed c1 = []" "input_len c1 = 0" "out_len c1 = 0" "cur_chan c1 = cur_chan c0" "mynick c1 = mynick c0"
    "input c1 = input c0" "outp c1 = outp c0 @ input_output (input_text [])" by blast
  with assms(4-6) show "\<exists>c1. rbind (clear_send script_line fuel c (answer_for a (to_send e) @ rx, tx)) (\<lambda>(c, d). k c d) =
      Inr (if leaves e then - 1 else 0, logged_all (to_log e) c1, (rx, tx @ on_line (tcp c0) (to_send e))) \<and>
      irc_wf c1 \<and> typed c1 = [] \<and> out_len c1 = 0 \<and> c_val (cur_chan c1) = new_chan e \<and> mynick c1 = mynick c0 \<and>
      outp c1 = outp c0 @ input_output (input_text [])"
    by (intro exI [of _ c1]) simp
qed

section \<open>The commands\<close>

lemma c_str_head: "c_str m p = Inr s \<Longrightarrow> \<exists>h. rd m p = Inr h \<and> (h = 0 \<longleftrightarrow> s = [])"
  using c_str_rd [of m p s] by (cases s) (auto elim: c_strE)

lemma length_c_val: "0 \<in> set s \<Longrightarrow> length (c_val s) < length s"
  by (induction s) auto

lemma c_str_from [simp]: "c_str (drop p m) 0 = c_str m p"
  by (simp add: c_str_def)

text \<open>The strings that the commands put together.\<close>

lemma ready_strings:
  assumes "ready fuel a c"
  shows "c_str (cur_chan c) 0 = Inr (c_val (cur_chan c))" and "length (c_val (cur_chan c)) \<le> 32"
    and "c_str (mynick c) 0 = Inr (c_val (mynick c))" and "out_len c = 0" and "irc_wf c"
proof -
  have "0 \<in> set (cur_chan c)" "0 \<in> set (mynick c)" "length (cur_chan c) = 33" using assms by (simp_all add: ready_def irc_wf_def)
  then show "c_str (cur_chan c) 0 = Inr (c_val (cur_chan c))" "length (c_val (cur_chan c)) \<le> 32" "c_str (mynick c) 0 = Inr (c_val (mynick c))"
    using length_c_val [of "cur_chan c"] by (auto intro: c_str_val)
  show "out_len c = 0" "irc_wf c" using assms by (simp_all add: ready_def)
qed

text \<open>The queue starts with a literal.\<close>

lemma queue_lit:
  assumes "ready fuel a c0" and "0 \<notin> set (asc s)" and "length (asc s) \<le> 254"
    and "\<And>c'. puts_queue (asc s) c0 c' \<Longrightarrow> carries_out a row e c0 (\<lambda>d. f d c')"
  shows "carries_out a row e c0 (\<lambda>d. rbind (o_str (lit s) c0) (f d))"
  by (rule queue_step [OF queue_start [OF assms(1)] _ c_str_lit [OF assms(2)]]) (use assms in \<open>simp_all add: ready_def\<close>)

lemma cmd_nick_effect:
  assumes "ready fuel a c" and "c_str (input c) arg = Inr s" and "length s \<le> 100" and "chan = c_val (cur_chan c)"
  shows "carries_out a row (if s = [] then tells chan [''*** usage: /nick newname''] else sends chan (asc ''NICK '' @ s) []) c
    (\<lambda>d. cmd_nick script_line fuel arg c d)"
proof -
  obtain h where h: "rd (input c) arg = Inr h" "(h = 0) = (s = [])" using c_str_head [OF assms(2)] by blast
  show ?thesis
    unfolding cmd_nick_def h(1) rbind_Inr h(2)
  proof (rule carries_out_if, rule usage_tells [OF ready_strings(5,4) [OF assms(1)] assms(4)], rule queue_lit [OF assms(1)])
    fix c1
    assume q: "puts_queue (asc ''NICK '') c c1"
    then show "carries_out a row (sends chan (asc ''NICK '' @ s) []) c (\<lambda>d. rbind (o_str (drop arg (input c1)) c1)
        (\<lambda>c. rbind (clear_send script_line fuel c d) (\<lambda>(c, d). Inr (0, c, d))))"
      using assms ready_strings(4) [OF assms(1)] puts_queue_sel(3) [OF q]
      by (intro queue_step [OF q] carries_sends) (simp_all add: sends_def asc_def)
  qed (simp_all add: asc_def)
qed

lemma cmd_raw_effect:
  assumes "ready fuel a c" and "c_str (input c) arg = Inr s" and "length s \<le> 100" and "chan = c_val (cur_chan c)"
  shows "carries_out a row (if s = [] then tells chan [''*** usage: /raw WHOIS someone''] else sends chan s []) c
    (\<lambda>d. cmd_raw script_line fuel arg c d)"
proof -
  obtain h where h: "rd (input c) arg = Inr h" "(h = 0) = (s = [])" using c_str_head [OF assms(2)] by blast
  have "carries_out a row (sends chan s []) c (\<lambda>d. rbind (o_str (drop arg (input c)) c)
        (\<lambda>c. rbind (clear_send script_line fuel c d) (\<lambda>(c, d). Inr (0, c, d))))"
    using assms ready_strings(4) [OF assms(1)]
    by (intro queue_step [OF queue_start [OF assms(1)]] carries_sends) (simp_all add: sends_def)
  then show ?thesis
    unfolding cmd_raw_def h(1) rbind_Inr h(2)
    by (intro carries_out_if usage_tells [OF ready_strings(5,4) [OF assms(1)] assms(4)])
qed

lemma cmd_quit_effect:
  assumes "ready fuel a c" and "c_str (input c) arg = Inr s" and "length s \<le> 100" and "chan = c_val (cur_chan c)"
  shows "carries_out a row ((sends chan (asc ''QUIT :'' @ (if s = [] then asc ''spectrum signing off'' else s)) [])\<lparr>leaves := True\<rparr>) c
    (\<lambda>d. cmd_quit script_line fuel arg c d)"
proof -
  obtain h where h: "rd (input c) arg = Inr h" "(h = 0) = (s = [])" using c_str_head [OF assms(2)] by blast
  let ?t = "if s = [] then asc ''spectrum signing off'' else s"
  show ?thesis
    unfolding cmd_quit_def
  proof (rule queue_lit [OF assms(1)])
    fix c1
    assume q: "puts_queue (asc ''QUIT :'') c c1"
    note sel = puts_queue_sel [OF q]
    have str: "c_str (if h \<noteq> 0 then drop arg (input c) else lit ''spectrum signing off'') 0 = Inr ?t"
      using assms(2) h(2) by (simp add: asc_def)
    have "length (asc ''QUIT :'') + length ?t \<le> 254" using assms(3) by (simp add: asc_def)
    then show "carries_out a row ((sends chan (asc ''QUIT :'' @ ?t) [])\<lparr>leaves := True\<rparr>) c (\<lambda>d. rbind (rd (input c1) arg) (\<lambda>ch.
        rbind (o_str (if ch \<noteq> 0 then drop arg (input c1) else lit ''spectrum signing off'') c1) (\<lambda>c.
        rbind (clear_send script_line fuel c d) (\<lambda>(c, d). Inr (- 1, c, d)))))"
      unfolding sel(3) h(1) rbind_Inr
      using assms ready_strings(4) [OF assms(1)]
      by (intro queue_step [OF q _ str] carries_sends) (simp_all add: sends_def sel(3))
  qed (simp_all add: asc_def)
qed

lemma cmd_names_effect:
  assumes "ready fuel a c" and "c_str (input c) arg = Inr s" and "length s \<le> 100" and "chan = c_val (cur_chan c)"
  shows "carries_out a row (if s = [] \<and> chan = [] then tells chan [''*** usage: /names #channel'']
      else sends chan (asc ''NAMES '' @ (if s = [] then chan else s)) []) c (\<lambda>d. cmd_names script_line fuel arg c d)"
proof -
  obtain h where h: "rd (input c) arg = Inr h" "(h = 0) = (s = [])" using c_str_head [OF assms(2)] by blast
  obtain g where g: "rd (cur_chan c) 0 = Inr g" "(g = 0) = (chan = [])"
    using c_str_head [OF ready_strings(1) [OF assms(1)]] assms(4) by blast
  show ?thesis
    unfolding cmd_names_def h(1) g(1) rbind_Inr h(2) g(2)
  proof (rule carries_out_if, rule usage_tells [OF ready_strings(5,4) [OF assms(1)] assms(4)], rule queue_lit [OF assms(1)])
    fix c1
    assume q: "puts_queue (asc ''NAMES '') c c1"
    note sel = puts_queue_sel [OF q]
    have "c_str (if s \<noteq> [] then drop arg (input c1) else cur_chan c1) 0 = Inr (if s = [] then chan else s)"
      using assms ready_strings(1) [OF assms(1)] sel(3,7) by simp
    moreover have "length (asc ''NAMES '') + length (if s = [] then chan else s) \<le> 254"
      using assms(3,4) ready_strings(2) [OF assms(1)] by (simp add: asc_def)
    ultimately show "carries_out a row (sends chan (asc ''NAMES '' @ (if s = [] then chan else s)) []) c
        (\<lambda>d. rbind (o_str (if s \<noteq> [] then drop arg (input c1) else cur_chan c1) c1)
          (\<lambda>c. rbind (clear_send script_line fuel c d) (\<lambda>(c, d). Inr (0, c, d))))"
      using assms ready_strings(4) [OF assms(1)]
      by (intro queue_step [OF q] carries_sends) (simp_all add: sends_def)
  qed (simp_all add: asc_def)
qed

text \<open>An optional text at the end.\<close>

lemma trailing_step:
  assumes "puts_queue q c0 c" and "out_len c0 = 0" and "c_str (input c0) arg = Inr s" and "length q + length s + 2 \<le> 254"
    and "\<And>c'. puts_queue (q @ with_text s) c0 c' \<Longrightarrow> carries_out a row e c0 (\<lambda>d. f d c')"
  shows "carries_out a row e c0 (\<lambda>d. rbind (o_trailing arg c) (f d))"
proof -
  note inp = puts_queue_sel(3) [OF assms(1)]
  obtain h where h: "rd (input c0) arg = Inr h" "(h = 0) = (s = [])" using c_str_head [OF assms(3)] by blast
  have trail: "carries_out a row e c0 (\<lambda>d. rbind (o_str (lit '' :'') c) (\<lambda>c. rbind (o_str (drop arg (input c)) c) (f d)))" if "s \<noteq> []"
  proof (rule queue_step [OF assms(1,2) c_str_lit])
    fix c1
    assume q: "puts_queue (q @ asc '' :'') c0 c1"
    show "carries_out a row e c0 (\<lambda>d. rbind (o_str (drop arg (input c1)) c1) (f d))"
      by (rule queue_step [OF q assms(2)])
        (use assms(3-5) that puts_queue_sel(3) [OF q] in \<open>simp_all add: with_text_def asc_def\<close>)
  qed (use assms(4) in \<open>simp_all add: asc_def\<close>)
  show ?thesis
    using h assms(1,5) trail by (cases "s = []") (simp_all add: o_trailing_def inp rbind_assoc with_text_def)
qed

text \<open>Commands about the channel.\<close>

lemma channel_strings:
  assumes "ready fuel a c" and "chan = c_val (cur_chan c)"
  shows "\<exists>g. rd (cur_chan c) 0 = Inr g \<and> (g = 0 \<longleftrightarrow> chan = [])" and "length chan \<le> 32" and "c_str (cur_chan c) 0 = Inr chan"
  using c_str_head [OF ready_strings(1) [OF assms(1)]] ready_strings(1,2) [OF assms(1)] assms(2) by auto

lemma cmd_topic_effect:
  assumes "ready fuel a c" and "c_str (input c) arg = Inr s" and "length s \<le> 100" and "chan = c_val (cur_chan c)"
  shows "carries_out a row (if chan = [] then tells chan [''*** you are not on a channel''] else sends chan (asc ''TOPIC '' @ chan @ with_text s) []) c
    (\<lambda>d. cmd_topic script_line fuel arg c d)"
proof -
  note ch = channel_strings [OF assms(1,4)]
  obtain g where g: "rd (cur_chan c) 0 = Inr g" "(g = 0) = (chan = [])" using ch(1) by blast
  note out = ready_strings(4) [OF assms(1)]
  have room: "length (asc ''TOPIC '') + length chan \<le> 254" "length (asc ''TOPIC '' @ chan) + length s + 2 \<le> 254"
    "length ((asc ''TOPIC '' @ chan) @ with_text s) \<le> 254"
    using ch(2) assms(3) by (simp_all add: asc_def with_text_def)
  show ?thesis
    unfolding cmd_topic_def g(1) rbind_Inr g(2)
  proof (rule carries_out_if, rule usage_tells [OF ready_strings(5,4) [OF assms(1)] assms(4)], rule queue_lit [OF assms(1)])
    fix c1
    assume q: "puts_queue (asc ''TOPIC '') c c1"
    have chan: "c_str (cur_chan c1) 0 = Inr chan" using ch(3) puts_queue_sel(7) [OF q] by simp
    show "carries_out a row (sends chan (asc ''TOPIC '' @ chan @ with_text s) []) c (\<lambda>d. rbind (o_str (cur_chan c1) c1)
        (\<lambda>c. rbind (o_trailing arg c) (\<lambda>c. rbind (clear_send script_line fuel c d) (\<lambda>(c, d). Inr (0, c, d)))))"
      by (rule queue_step [OF q out chan room(1)], rule trailing_step [OF _ out assms(2) room(2)], assumption,
          rule carries_sends [OF _ assms(1) room(3)], assumption) (simp_all add: sends_def assms(4))
  qed (simp_all add: asc_def)
qed

lemma carries_out_moved [simp]:
  "carries_out a row e (c\<lparr>input := inp\<rparr>) m = carries_out a row e c m"
  "carries_out a row e (c\<lparr>cur_chan := ch\<rparr>) m = carries_out a row e c m"
  by (simp_all add: carries_out_def)

lemma ready_moved:
  "ready fuel a c \<Longrightarrow> length inp = length (input c) \<Longrightarrow> ready fuel a (c\<lparr>input := inp\<rparr>)"
  "ready fuel a c \<Longrightarrow> length ch = 33 \<Longrightarrow> 0 \<in> set ch \<Longrightarrow> ready fuel a (c\<lparr>cur_chan := ch\<rparr>)"
  by (simp_all add: ready_def irc_wf_def)

lemma puts_queue_chan:
  "puts_queue q c0 c \<Longrightarrow> length ch = 33 \<Longrightarrow> 0 \<in> set ch \<Longrightarrow> puts_queue q (c0\<lparr>cur_chan := ch\<rparr>) (c\<lparr>cur_chan := ch\<rparr>)"
  by (cases c; cases c0) (auto simp: puts_queue_def irc_wf_def queued_def)

lemma cmd_part_effect:
  assumes "ready fuel a c" and "c_str (input c) arg = Inr s" and "length s \<le> 100" and "chan = c_val (cur_chan c)"
  shows "carries_out a row (if chan = [] then tells [] [''*** you are not on a channel''] else sends [] (asc ''PART '' @ chan @ with_text s) []) c
    (\<lambda>d. cmd_part script_line fuel arg c d)"
proof -
  note ch = channel_strings [OF assms(1,4)]
  obtain g where g: "rd (cur_chan c) 0 = Inr g" "(g = 0) = (chan = [])" using ch(1) by blast
  note out = ready_strings(4) [OF assms(1)]
  have room: "length (asc ''PART '') + length chan \<le> 254" "length (asc ''PART '' @ chan) + length s + 2 \<le> 254"
    "length (asc ''PART '' @ chan @ with_text s) \<le> 254"
    using ch(2) assms(3) by (simp_all add: asc_def with_text_def)
  let ?e = "sends [] (asc ''PART '' @ chan @ with_text s) []"
  have left: "carries_out a row ?e c (\<lambda>d. rbind (wr (cur_chan c2) 0 0) (\<lambda>chan.
       rbind (clear_send script_line fuel (c2\<lparr>cur_chan := chan\<rparr>) d) (\<lambda>(c, d). Inr (0, c, d))))"
    if q: "puts_queue (asc ''PART '' @ chan @ with_text s) c c2" for c2
  proof -
    define nc where "nc = (cur_chan c)[0 := 0]"
    have l: "length (cur_chan c) = 33" using ready_strings(5) [OF assms(1)] by (simp add: irc_wf_def)
    then have nc: "length nc = 33" "0 \<in> set nc" "c_val nc = []"
      by (auto simp: nc_def set_update_memI) (cases "cur_chan c", simp_all)
    have "wr (cur_chan c2) 0 0 = Inr nc" using l puts_queue_sel(7) [OF q] by (simp add: wr_def nc_def)
    moreover have "carries_out a row ?e (c\<lparr>cur_chan := nc\<rparr>) (\<lambda>d. rbind (clear_send script_line fuel (c2\<lparr>cur_chan := nc\<rparr>) d)
        (\<lambda>(c, d). Inr (0, c, d)))"
      by (rule carries_sends [OF puts_queue_chan [OF q nc(1,2)] ready_moved(2) [OF assms(1) nc(1,2)] room(3)])
        (simp_all add: sends_def nc(3))
    ultimately show ?thesis by simp
  qed
  show ?thesis
    unfolding cmd_part_def g(1) rbind_Inr g(2)
  proof (rule carries_out_if, rule usage_tells [OF ready_strings(5,4) [OF assms(1)]], use assms(4) in simp, rule queue_lit [OF assms(1)])
    fix c1
    assume q: "puts_queue (asc ''PART '') c c1"
    have chan: "c_str (cur_chan c1) 0 = Inr chan" using ch(3) puts_queue_sel(7) [OF q] by simp
    show "carries_out a row ?e c (\<lambda>d. rbind (o_str (cur_chan c1) c1)
        (\<lambda>c. rbind (o_trailing arg c) (\<lambda>c. rbind (wr (cur_chan c) 0 0) (\<lambda>chan.
          rbind (clear_send script_line fuel (c\<lparr>cur_chan := chan\<rparr>) d) (\<lambda>(c, d). Inr (0, c, d))))))"
      by (rule queue_step [OF q out chan room(1)], rule trailing_step [OF _ out assms(2) room(2)], assumption,
          rule left, simp)
  qed (simp_all add: asc_def)
qed

text \<open>The three ways to say something.\<close>

lemma word_lengths: "length (word_of s) \<le> length s" "length (word_rest s) \<le> length s"
proof -
  have "length (word_of s) \<le> length (strip s)" by (simp add: word_of_def length_takeWhile_le)
  then show "length (word_of s) \<le> length s" using strip_length order_trans by blast
  show "length (word_rest s) \<le> length s" using word_rest_less [of s] by (cases s) (simp_all add: word_rest_def)
qed

lemma cmd_me_effect:
  assumes "ready fuel a c" and "c_str (input c) arg = Inr s" and "length s \<le> 100" and "chan = c_val (cur_chan c)"
  shows "carries_out a row (me_effect (c_val (mynick c)) chan s) c (\<lambda>d. cmd_me script_line fuel arg c d)"
proof -
  note ch = channel_strings [OF assms(1,4)] and out = ready_strings(4) [OF assms(1)]
  obtain g where g: "rd (cur_chan c) 0 = Inr g" "(g = 0) = (chan = [])" using ch(1) by blast
  obtain h where h: "rd (input c) arg = Inr h" "(h = 0) = (s = [])" using c_str_head [OF assms(2)] by blast
  let ?act = "asc '' :'' @ [1] @ asc ''ACTION ''"
  have act: "c_str (asc '' :'' @ [1] @ asc ''ACTION '' @ [0]) 0 = Inr ?act" "c_str [1, 0] 0 = Inr [1 :: u8]"
    by (simp_all add: c_str_def asc_def)
  have room: "length (asc ''PRIVMSG '') + length chan \<le> 254" "length (asc ''PRIVMSG '' @ chan) + length ?act \<le> 254"
    "length ((asc ''PRIVMSG '' @ chan) @ ?act) + length s \<le> 254" "length (((asc ''PRIVMSG '' @ chan) @ ?act) @ s) + length [1 :: u8] \<le> 254"
    "length ((((asc ''PRIVMSG '' @ chan) @ ?act) @ s) @ [1]) \<le> 254"
    using ch(2) assms(3) by (simp_all add: asc_def)
  show ?thesis
    unfolding cmd_me_def g(1) h(1) rbind_Inr g(2) h(2) me_effect_def
  proof (rule carries_out_if, rule usage_tells [OF ready_strings(5,4) [OF assms(1)] assms(4)], rule queue_lit [OF assms(1)])
    fix c1
    assume q: "puts_queue (asc ''PRIVMSG '') c c1"
    have chan: "c_str (cur_chan c1) 0 = Inr chan" using ch(3) puts_queue_sel(7) [OF q] by simp
    show "carries_out a row (sends chan (asc ''PRIVMSG '' @ chan @ asc '' :'' @ 1 # asc ''ACTION '' @ s @ [1])
        [asc ''* '' @ c_val (mynick c) @ asc '' '' @ s]) c (\<lambda>d. rbind (o_str (cur_chan c1) c1) (\<lambda>c.
       rbind (o_str (asc '' :'' @ [1] @ asc ''ACTION '' @ [0]) c) (\<lambda>c.
       rbind (o_str (drop arg (input c)) c) (\<lambda>c.
       rbind (o_str [1, 0] c) (\<lambda>c.
       rbind (clear_send script_line fuel c d) (\<lambda>(c, d).
       rbind (c_str (mynick c) 0) (\<lambda>nick.
       rbind (c_str (input c) arg) (\<lambda>s.
       rbind (log_line4 (asc ''* '') nick (asc '' '') s c) (\<lambda>c. Inr (0, c, d))))))))))"
      by (rule queue_step [OF q out chan room(1)], rule queue_step [OF _ out act(1) room(2)], assumption,
          rule queue_step [OF _ out _ room(3)], assumption, simp add: puts_queue_sel(3) assms(2),
          rule queue_step [OF _ out act(2) room(4)], assumption, rule carries_sends [OF _ assms(1) room(5)], assumption)
        (simp_all add: sends_def assms(2,4) ready_strings(3) [OF assms(1)] log_line_pieces irc_log_line_ok)
  qed (simp_all add: asc_def)
qed

lemma cmd_msg_effect:
  assumes "ready fuel a c" and "c_str (input c) arg = Inr s" and "length s \<le> 100" and "chan = c_val (cur_chan c)"
  shows "carries_out a row (msg_effect chan s) c (\<lambda>d. cmd_msg script_line fuel arg c d)"
proof -
  from next_word_ok [OF assms(2)] obtain inp q p where
    w: "next_word (input c) arg = Inr (inp, q, p)" "length inp = length (input c)" "c_str inp q = Inr (word_of s)" "c_str inp p = Inr (word_rest s)"
    by (auto simp: parsed_def)
  let ?c = "c\<lparr>input := inp\<rparr>"
  have rdy: "ready fuel a ?c" by (rule ready_moved(1) [OF assms(1) w(2)])
  note out = ready_strings(4) [OF rdy]
  obtain g where g: "rd inp q = Inr g" "(g = 0) = (word_of s = [])" using c_str_head [OF w(3)] by blast
  obtain h where h: "rd inp p = Inr h" "(h = 0) = (word_rest s = [])" using c_str_head [OF w(4)] by blast
  have len: "length (word_of s) \<le> 100" "length (word_rest s) \<le> 100"
    using word_lengths [of s] assms(3) by simp_all
  have room: "length (asc ''PRIVMSG '') + length (word_of s) \<le> 254" "length (asc ''PRIVMSG '' @ word_of s) + length (asc '' :'') \<le> 254"
    "length ((asc ''PRIVMSG '' @ word_of s) @ asc '' :'') + length (word_rest s) \<le> 254"
    "length (((asc ''PRIVMSG '' @ word_of s) @ asc '' :'') @ word_rest s) \<le> 254"
    using len by (simp_all add: asc_def)
  have "carries_out a row (sends chan (asc ''PRIVMSG '' @ word_of s @ asc '' :'' @ word_rest s)
        [asc ''>'' @ word_of s @ asc ''< '' @ word_rest s]) ?c (\<lambda>d. rbind (o_str (lit ''PRIVMSG '') ?c) (\<lambda>c.
       rbind (o_str (drop q (input c)) c) (\<lambda>c. rbind (o_str (lit '' :'') c) (\<lambda>c. rbind (o_str (drop p (input c)) c) (\<lambda>c.
       rbind (clear_send script_line fuel c d) (\<lambda>(c, d). rbind (c_str (input c) q) (\<lambda>s. rbind (c_str (input c) p) (\<lambda>t.
       rbind (log_line4 (asc ''>'') s (asc ''< '') t c) (\<lambda>c. Inr (0, c, d))))))))))"
  proof (rule queue_lit [OF rdy])
    fix c1
    assume c1: "puts_queue (asc ''PRIVMSG '') ?c c1"
    have lits: "c_str (lit '' :'') 0 = Inr (asc '' :'')" by (rule c_str_lit) (simp add: asc_def)
    show "carries_out a row (sends chan (asc ''PRIVMSG '' @ word_of s @ asc '' :'' @ word_rest s)
        [asc ''>'' @ word_of s @ asc ''< '' @ word_rest s]) ?c (\<lambda>d. rbind (o_str (drop q (input c1)) c1) (\<lambda>c.
       rbind (o_str (lit '' :'') c) (\<lambda>c. rbind (o_str (drop p (input c)) c) (\<lambda>c.
       rbind (clear_send script_line fuel c d) (\<lambda>(c, d). rbind (c_str (input c) q) (\<lambda>s. rbind (c_str (input c) p) (\<lambda>t.
       rbind (log_line4 (asc ''>'') s (asc ''< '') t c) (\<lambda>c. Inr (0, c, d)))))))))"
      by (rule queue_step [OF c1 out _ room(1)], simp add: puts_queue_sel(3) [OF c1] w(3), rule queue_step [OF _ out lits room(2)], assumption,
          rule queue_step [OF _ out _ room(3)], assumption, simp add: puts_queue_sel(3) w(4),
          rule carries_sends [OF _ rdy room(4)], assumption)
        (simp_all add: sends_def assms(4) w(3,4) log_line_pieces irc_log_line_ok)
  qed (simp_all add: asc_def)
  moreover have "carries_out a row (tells chan [''*** usage: /msg nick text'']) ?c (usage ''*** usage: /msg nick text'' ?c)"
    by (rule usage_tells [OF ready_strings(5,4) [OF rdy]]) (simp add: assms(4))
  ultimately show ?thesis
    by (simp add: cmd_msg_def w(1) g h msg_effect_def Let_def)
qed

lemma cmd_join_effect:
  assumes "ready fuel a c" and "c_str (input c) arg = Inr s" and "length s \<le> 100" and "chan = c_val (cur_chan c)"
  shows "carries_out a row (join_effect chan s) c (\<lambda>d. cmd_join script_line fuel arg c d)"
proof -
  from next_word_ok [OF assms(2)] obtain inp q p where
    w: "next_word (input c) arg = Inr (inp, q, p)" "length inp = length (input c)" "c_str inp q = Inr (word_of s)"
    by (auto simp: parsed_def)
  have "length (cur_chan c) = MAX_CHAN + 1" using ready_strings(5) [OF assms(1)] by (simp add: irc_wf_def)
  from str_copy_ok [OF w(3) this] obtain ch where
    ch: "str_copy (cur_chan c) inp q (MAX_CHAN + 1) = Inr ch" "length ch = 33" "c_str ch 0 = Inr (take 32 (word_of s))" by auto
  have z: "0 \<in> set ch" using ch(3) by (auto simp: c_str_def split: if_splits)
  let ?c = "c\<lparr>input := inp, cur_chan := ch\<rparr>" and ?t = "take 32 (word_of s)"
  have rdy: "ready fuel a ?c" using ready_moved(2) [OF ready_moved(1) [OF assms(1) w(2)] ch(2) z] .
  have room: "length (asc ''JOIN '') + length ?t \<le> 254" "length (asc ''JOIN '' @ ?t) \<le> 254" by (simp_all add: asc_def)
  have "carries_out a row (sends ?t (asc ''JOIN '' @ ?t) []) ?c (\<lambda>d. rbind (o_str (lit ''JOIN '') ?c) (\<lambda>c.
      rbind (o_str (cur_chan c) c) (\<lambda>c. rbind (clear_send script_line fuel c d) (\<lambda>(c, d). Inr (0, c, d)))))"
  proof (rule queue_lit [OF rdy])
    fix c1
    assume c1: "puts_queue (asc ''JOIN '') ?c c1"
    show "carries_out a row (sends ?t (asc ''JOIN '' @ ?t) []) ?c (\<lambda>d. rbind (o_str (cur_chan c1) c1)
        (\<lambda>c. rbind (clear_send script_line fuel c d) (\<lambda>(c, d). Inr (0, c, d))))"
      by (rule queue_step [OF c1 ready_strings(4) [OF rdy] _ room(1)], simp add: puts_queue_sel(7) [OF c1] ch(3),
          rule carries_sends [OF _ rdy room(2)], assumption)
        (simp_all add: sends_def c_val_str [OF ch(3)])
  qed (simp_all add: asc_def)
  moreover have "carries_out a row (tells chan [''*** usage: /join #channel'']) c (usage ''*** usage: /join #channel'' c)"
    by (rule usage_tells [OF ready_strings(5,4) [OF assms(1)] assms(4)])
  ultimately show ?thesis
    by (cases "s \<noteq> [] \<and> (hd s = 35 \<or> hd s = 38)")
      (simp_all only: cmd_join_def is_channel_ok [OF assms(2)] w(1) ch(1) join_effect_def Let_def rbind_Inr prod.case not_not
        carries_out_moved if_True if_False simp_thms refl)
qed

lemma say_nowhere:
  assumes "ready fuel a c" and "c_val (cur_chan c) = []" and "plain (typed c)"
  shows "carries_out a (input_text (typed c)) (tells [] [t]) c (\<lambda>d. rbind (irc_log_line (asc t) c) (\<lambda>c. rbind (clear_input c) (\<lambda>c. Inr (0, c, d))))"
proof -
  let ?row = "input_text (typed c)"
  have ok: "irc_ok c" "input_len c \<le> length (input c)" using assms by (simp_all add: ready_def irc_ok_def irc_wf_def)
  have "displays (con_puts (input_output (input_text [])) (con_puts (log_output (clean (asc t)) ?row) con)) (log @ log_rows (clean (asc t))) (input_text [])"
    if "displays con log ?row" for con log
  proof -
    have "displays (con_puts (log_output (clean (asc t)) ?row) con) (log @ log_rows (clean (asc t))) ?row"
      using irc_screen.log_displays [OF that ok(1) plain_clean] irc_screen.log_out_eq [OF ok(1) plain_clean] by simp
    then show ?thesis by (rule input_displays) (simp_all add: plain_input_text)
  qed
  then show ?thesis
    unfolding carries_out_def using assms(1,2) ok(2)
    by (intro allI exI [of _ "cleared (irc_logged (asc t) c)"] exI [of _ "log_output (clean (asc t)) ?row @ input_output (input_text [])"])
      (simp add: irc_log_line_ok clear_input_ok tells_def answer_for_def on_line_def ready_def)
qed

lemma say_line_effect:
  assumes "ready fuel a c" and "c_str (input c) 0 = Inr s" and "length s \<le> 100" and "chan = c_val (cur_chan c)" and "plain (typed c)"
  shows "carries_out a (input_text (typed c)) (if chan = [] then tells chan [''*** you are not on a channel, try /join #chan'']
      else sends chan (asc ''PRIVMSG '' @ chan @ asc '' :'' @ s) [asc ''<'' @ c_val (mynick c) @ asc ''> '' @ s]) c
    (\<lambda>d. say_line script_line fuel c d)"
proof -
  note ch = channel_strings [OF assms(1,4)] and out = ready_strings(4) [OF assms(1)]
  obtain g where g: "rd (cur_chan c) 0 = Inr g" "(g = 0) = (chan = [])" using ch(1) by blast
  have lits: "c_str (lit '' :'') 0 = Inr (asc '' :'')" by (rule c_str_lit) (simp add: asc_def)
  have room: "length (asc ''PRIVMSG '') + length chan \<le> 254" "length (asc ''PRIVMSG '' @ chan) + length (asc '' :'') \<le> 254"
    "length ((asc ''PRIVMSG '' @ chan) @ asc '' :'') + length s \<le> 254" "length (((asc ''PRIVMSG '' @ chan) @ asc '' :'') @ s) \<le> 254"
    using ch(2) assms(3) by (simp_all add: asc_def)
  show ?thesis
    unfolding say_line_def g(1) rbind_Inr g(2)
  proof (rule carries_out_if, use say_nowhere [OF assms(1) _ assms(5)] assms(4) in simp, rule queue_lit [OF assms(1)])
    fix c1
    assume q: "puts_queue (asc ''PRIVMSG '') c c1"
    have chan: "c_str (cur_chan c1) 0 = Inr chan" using ch(3) puts_queue_sel(7) [OF q] by simp
    show "carries_out a (input_text (typed c)) (sends chan (asc ''PRIVMSG '' @ chan @ asc '' :'' @ s) [asc ''<'' @ c_val (mynick c) @ asc ''> '' @ s]) c
       (\<lambda>d. rbind (o_str (cur_chan c1) c1) (\<lambda>c. rbind (o_str (lit '' :'') c) (\<lambda>c. rbind (o_str (input c) c) (\<lambda>c.
       rbind (clear_send script_line fuel c d) (\<lambda>(c, d). rbind (c_str (mynick c) 0) (\<lambda>nick. rbind (c_str (input c) 0) (\<lambda>s.
       rbind (log_line4 (asc ''<'') nick (asc ''> '') s c) (\<lambda>c. Inr (0, c, d)))))))))"
      by (rule queue_step [OF q out chan room(1)], rule queue_step [OF _ out lits room(2)], assumption,
          rule queue_step [OF _ out _ room(3)], assumption, simp add: puts_queue_sel(3) assms(2),
          rule carries_sends [OF _ assms(1) room(4)], assumption)
        (simp_all add: sends_def assms(2,4) ready_strings(3) [OF assms(1)] log_line_pieces irc_log_line_ok)
  qed (simp_all add: asc_def)
qed

section \<open>The whole line\<close>

lemma is_cmd_ok:
  assumes "c_str cmd 0 = Inr w" and "\<forall>n \<in> set ns. 0 \<notin> set (asc n) \<and> map lower (asc n) = asc n"
  shows "is_cmd cmd ns = Inr (names w ns)"
  using assms(2)
proof (induction ns)
  case (Cons n ns)
  then have "c_str (lit n) 0 = Inr (asc n)" by (intro c_str_lit) simp
  from same_str [OF assms(1) this] Cons show ?case by (auto simp: names_def)
qed (simp add: names_def)

lemma rif_Inr [simp]: "rif (Inr b) x y = (if b then x else y)"
  by (simp add: rif_def)

lemma command_words:
  assumes "c_str cmd 0 = Inr w"
  shows "is_cmd cmd [''help'', ''h''] = Inr (names w [''help'', ''h''])" "is_cmd cmd [''join'', ''j''] = Inr (names w [''join'', ''j''])"
    "is_cmd cmd [''part''] = Inr (names w [''part''])" "is_cmd cmd [''nick''] = Inr (names w [''nick''])"
    "is_cmd cmd [''msg'', ''m''] = Inr (names w [''msg'', ''m''])" "is_cmd cmd [''me''] = Inr (names w [''me''])"
    "is_cmd cmd [''names''] = Inr (names w [''names''])" "is_cmd cmd [''topic''] = Inr (names w [''topic''])"
    "is_cmd cmd [''raw'', ''quote''] = Inr (names w [''raw'', ''quote''])" "is_cmd cmd [''quit''] = Inr (names w [''quit''])"
  by (rule is_cmd_ok [OF assms]; simp add: asc_def lower_def)+

lemma run_command_effect:
  assumes "ready fuel a c" and "c_str (input c) 1 = Inr s" and "length s \<le> 100" and "chan = c_val (cur_chan c)"
  shows "carries_out a row (command_effect (c_val (mynick c)) chan s) c (\<lambda>d. run_command script_line fuel c d)"
proof -
  from next_word_ok [OF assms(2)] obtain inp q p where
    w: "next_word (input c) 1 = Inr (inp, q, p)" "length inp = length (input c)" "c_str inp q = Inr (word_of s)" "c_str inp p = Inr (word_rest s)"
    by (auto simp: parsed_def)
  let ?c = "c\<lparr>input := inp\<rparr>" and ?w = "word_of s" and ?arg = "strip (word_rest s)"
  from skip_spaces_str [OF w(4)] obtain arg where
    arg: "skip_spaces (drop p inp) p = Inr arg" "c_str inp arg = Inr ?arg" by blast
  have rdy: "ready fuel a ?c" by (rule ready_moved(1) [OF assms(1) w(2)])
  have a: "c_str (input ?c) arg = Inr ?arg" "length ?arg \<le> 100" "chan = c_val (cur_chan ?c)" "mynick ?c = mynick c"
    using arg(2) strip_length [of "word_rest s"] word_lengths(2) [of s] assms(3,4) by simp_all
  note wf = ready_strings(5,4) [OF rdy]
  have inp: "input ?c = inp" by simp
  have me: "carries_out a row (me_effect (c_val (mynick c)) chan ?arg) ?c (\<lambda>d. cmd_me script_line fuel arg ?c d)"
    using cmd_me_effect [OF rdy a(1-3)] by simp
  have word: "c_str (drop q inp) 0 = Inr ?w" using w(3) by simp
  have helped: "carries_out a row (tells chan help_texts) ?c (\<lambda>d. rbind (clear_input ?c) (\<lambda>c. rbind (irc_help c) (\<lambda>c. Inr (0, c, d))))"
    by (rule carries_tells [OF wf]) (simp_all add: tells_def help_texts_def irc_help_def irc_log_line_ok assms(4))
  have unknown: "carries_out a row \<lparr>to_send = None, to_log = [asc ''*** no such command, try /help: /'' @ ?w], new_chan = chan, leaves = False\<rparr> ?c
      (\<lambda>d. rbind (clear_input ?c) (\<lambda>c. rbind (c_str (input c) q) (\<lambda>s.
        rbind (log_line2 (asc ''*** no such command, try /help: /'') s c) (\<lambda>c. Inr (0, c, d)))))"
    by (rule carries_tells [OF wf]) (simp_all add: log_line_pieces irc_log_line_ok assms(4) w(3))
  have "carries_out a row (command_effect (c_val (mynick c)) chan s) ?c (\<lambda>d. run_command script_line fuel c d)"
    unfolding run_command_def w(1) rbind_Inr prod.case Let_def command_effect_def inp arg(1) command_words [OF word] rif_Inr
    by (intro carries_out_if helped unknown cmd_join_effect cmd_part_effect cmd_nick_effect cmd_msg_effect me
        cmd_names_effect cmd_topic_effect cmd_raw_effect cmd_quit_effect rdy a)
  then show ?thesis by simp
qed

text \<open>ENTER on a line that has been typed.\<close>

lemma enter_effect:
  assumes "irc_ok c" and "typed c \<noteq> []" and "ready fuel a c"
  shows "carries_out a (input_text (typed c)) (line_effect (c_val (mynick c)) (c_val (cur_chan c)) (typed c)) c
    (\<lambda>d. irc_handle_key script_line fuel KEY_ENTER c d)"
proof -
  let ?inp = "(input c)[input_len c := 0]"
  let ?c = "c\<lparr>input := ?inp\<rparr>"
  have pl: "plain (typed c)" using assms(1) by (simp add: irc_ok_def)
  have len: "input_len c \<le> 100" "length (input c) = 102" using assms(1) by (simp_all add: irc_ok_def irc_wf_def)
  have rdy: "ready fuel a ?c" by (rule ready_moved(1) [OF assms(3)]) simp
  have same: "typed ?c = typed c" "mynick ?c = mynick c" "cur_chan ?c = cur_chan c" "input ?c = ?inp" by (simp_all add: typed_def)
  have "?inp = typed c @ 0 # drop (Suc (input_len c)) (input c)"
    using len by (simp add: typed_def upd_conv_take_nth_drop)
  then have str: "c_str ?inp 0 = Inr (typed c)" using plain_no_zero [OF pl] by (simp add: c_str_append)
  have l: "length (typed c) \<le> 100" using len by (simp add: typed_def)
  have "1 \<le> length (typed c)" using assms(2) by (cases "typed c") simp_all
  from c_str_drop [OF str this] have str1: "c_str ?inp 1 = Inr (tl (typed c))" by (simp add: drop_Suc)
  have strc: "c_str (input ?c) 0 = Inr (typed c)" "c_str (input ?c) 1 = Inr (tl (typed c))" and plc: "plain (typed ?c)"
    using str str1 pl same by simp_all
  have said: "carries_out a (input_text (typed c)) (if c_val (cur_chan c) = [] then tells (c_val (cur_chan c)) [''*** you are not on a channel, try /join #chan'']
      else sends (c_val (cur_chan c)) (asc ''PRIVMSG '' @ c_val (cur_chan c) @ asc '' :'' @ typed c)
        [asc ''<'' @ c_val (mynick c) @ asc ''> '' @ typed c]) ?c (\<lambda>d. say_line script_line fuel ?c d)"
    using say_line_effect [OF rdy strc(1) l refl plc] by (simp only: same)
  have run: "carries_out a (input_text (typed c)) (command_effect (c_val (mynick c)) (c_val (cur_chan c)) (tl (typed c))) ?c
      (\<lambda>d. run_command script_line fuel ?c d)"
    using run_command_effect [OF rdy strc(2) _ refl] l by (simp add: same del: takeWhile.simps)
  have "irc_handle_key script_line fuel KEY_ENTER c =
      (\<lambda>d. if hd (typed c) \<noteq> 47 then say_line script_line fuel ?c d else run_command script_line fuel ?c d)"
    using c_str_rd [OF str] assms(2) len by (auto simp: irc_handle_key_def handle_input_line_def wr_def typed_def)
  then show ?thesis
    using said run by (simp add: line_effect_def)
qed

text \<open>A line that is no command, on a channel.\<close>

lemma irc_said:
  assumes "irc_ok c" and "out_len c = 0" and "typed c \<noteq> []" and "hd (typed c) \<noteq> 47" and "c_val (cur_chan c) \<noteq> []"
    and "1 < tcp_seq (tcp c)" and "bare_segment (tcp c) a" and "length a + 3 < fuel" and "displays con log (input_text (typed c))"
  defines "said \<equiv> asc ''PRIVMSG '' @ c_val (cur_chan c) @ asc '' :'' @ typed c @ [13, 10]"
  shows "\<exists>c' out. irc_handle_key script_line fuel KEY_ENTER c
      (replicate 6 None @ map Some (slip_frame esc_byte a) @ rx, tx) =
      Inr (0, c', (rx, tx @ slip_frame esc_byte (tcp_packet (tcp c) 0 []) @
        slip_frame esc_byte (tcp_packet (tcp_sent (tcp c) 0 []) 0 said))) \<and>
    typed c' = [] \<and> outp c' = outp c @ out \<and>
    displays (con_puts out con) (log @ log_rows (clean (asc ''<'' @ c_val (mynick c) @ asc ''> '' @ typed c))) (input_text [])"
proof -
  have "ready fuel a c" using assms(1,2,6-8) by (simp add: ready_def irc_ok_def)
  from enter_effect [OF assms(1,3) this] assms(4,5,9) show ?thesis
    unfolding carries_out_def line_effect_def said_def
    by (simp add: sends_def on_line_def answer_for_def) blast
qed

section \<open>Properties\<close>

text \<open>
  C6: a typed line has exactly its effect. Whatever line has been typed in the IRC client, ENTER makes
  of it what \<open>line_effect\<close> says of the line as a string: the line for the server is on the wire as one
  segment (behind the ACK that closes the window), or nothing is; the texts are the new end of the log,
  wrapped to whole rows; the channel is the new one, the input row is empty, and the program ends only for
  \<^verbatim>\<open>/quit\<close>. This covers what is said, every command with its abbreviations in any case of letters, and
  every mistake in their use.
\<close>

theorem typed_line_effect:
  assumes "irc_ok c" and "typed c \<noteq> []" and "out_len c = 0" and "1 < tcp_seq (tcp c)" and "bare_segment (tcp c) a" and "length a + 3 < fuel"
    and "displays con log (input_text (typed c))" and "e = line_effect (c_val (mynick c)) (c_val (cur_chan c)) (typed c)"
  shows "\<exists>c' out. irc_handle_key script_line fuel KEY_ENTER c (answer_for a (to_send e) @ rx, tx) =
      Inr (if leaves e then - 1 else 0, c', (rx, tx @ on_line (tcp c) (to_send e))) \<and>
    irc_ok c' \<and> typed c' = [] \<and> c_val (cur_chan c') = new_chan e \<and> mynick c' = mynick c \<and> outp c' = outp c @ out \<and>
    displays (con_puts out con) (log @ concat (map (\<lambda>t. log_rows (clean t)) (to_log e))) (input_text [])"
proof -
  have "ready fuel a c" using assms(1,3-6) by (simp add: ready_def irc_ok_def)
  from enter_effect [OF assms(1,2) this] assms(7,8) obtain c' out where
    c': "irc_handle_key script_line fuel KEY_ENTER c (answer_for a (to_send e) @ rx, tx) =
        Inr (if leaves e then - 1 else 0, c', (rx, tx @ on_line (tcp c) (to_send e)))"
      "typed c' = []" "c_val (cur_chan c') = new_chan e" "mynick c' = mynick c" "outp c' = outp c @ out"
      "displays (con_puts out con) (log @ concat (map (\<lambda>t. log_rows (clean t)) (to_log e))) (input_text [])"
    unfolding carries_out_def by blast
  have "irc_ok c'"
    using holds_res_InrD [OF irc_handle_key_next [OF irc_next_refl [OF assms(1)]] c'(1)] irc_next_ok by auto
  with c' show ?thesis by blast
qed

lemma demo_irc_names: "c_val (mynick (demo_irc s)) = asc ''me''" "c_val (cur_chan (demo_irc s)) = asc ''#z''"
  by (simp_all add: demo_irc_def asc_def)

lemma join_line: "line_effect (asc ''me'') (asc ''#z'') (asc ''/J  #a b'') = sends (asc ''#a'') (asc ''JOIN #a'') []"
  by (simp add: line_effect_def command_effect_def join_effect_def sends_def names_def word_of_def word_rest_def lower_def asc_def Let_def)

theorem typed_line_effect_witness:
  "\<exists>c' out. irc_handle_key script_line 60 KEY_ENTER (demo_irc (asc ''/J  #a b''))
      (answer_for (demo_seg 100 29 TCP_ACK []) (to_send (sends (asc ''#a'') (asc ''JOIN #a'') [])) @ [], []) =
      Inr (if leaves (sends (asc ''#a'') (asc ''JOIN #a'') []) then - 1 else 0, c',
        ([], [] @ on_line (tcp (demo_irc (asc ''/J  #a b''))) (to_send (sends (asc ''#a'') (asc ''JOIN #a'') [])))) \<and>
    irc_ok c' \<and> typed c' = [] \<and> c_val (cur_chan c') = new_chan (sends (asc ''#a'') (asc ''JOIN #a'') []) \<and>
    mynick c' = mynick (demo_irc (asc ''/J  #a b'')) \<and> outp c' = outp (demo_irc (asc ''/J  #a b'')) @ out \<and>
    displays (con_puts out (con_puts (input_output (input_text (asc ''/J  #a b''))) fresh_console))
      ([] @ concat (map (\<lambda>t. log_rows (clean t)) (to_log (sends (asc ''#a'') (asc ''JOIN #a'') [])))) (input_text [])"
proof (rule typed_line_effect [OF demo_irc_ok])
  show "sends (asc ''#a'') (asc ''JOIN #a'') [] =
      line_effect (c_val (mynick (demo_irc (asc ''/J  #a b'')))) (c_val (cur_chan (demo_irc (asc ''/J  #a b'')))) (typed (demo_irc (asc ''/J  #a b'')))"
    by (simp only: demo_irc_names demo_irc_sel join_line)
qed (simp_all add: asc_def bare_segment_def fresh_displays)

end
