(* ===== verification/Irc_Pending.thy ===== *)
theory Irc_Pending
  imports Irc_Commands
begin

text \<open>
  What the client sends of its own accord: the lines that register it when the connection is up,
  and the answers that were noted while lines of the server were parsed.
\<close>

section \<open>A queued line is sent\<close>

text \<open>The rest of the state is the one in which the line was put together.\<close>

lemma queue_sent:
  assumes "puts_queue q c0 c" and "ready fuel a c0" and "length q \<le> 254"
  shows "\<exists>t o1. o_send script_line fuel c (answer_for a (Some q) @ rx, tx) =
      Inr (c0\<lparr>tcp := t, window_open := False, out_line := o1, out_len := 0\<rparr>, (rx, tx @ on_line (tcp c0) (Some q))) \<and>
    length o1 = 256 \<and> tcp_kept (tcp c0) t \<and> tcp_ack t = tcp_ack (tcp c0)"
proof -
  note sel = puts_queue_sel [OF assms(1)]
  have q: "queued c = q" using sel(11) assms(2,3) by (simp add: ready_def queued_def)
  have "1 < tcp_seq (tcp c)" "bare_segment (tcp c) a" "length a + 3 < fuel" using assms(2) sel(2) by (simp_all add: ready_def)
  from o_send_script [OF sel(1) this, where rx = rx and tx = tx] obtain t o1 where
    s: "o_send script_line fuel c (answer_for a (Some q) @ rx, tx) =
        Inr (c\<lparr>tcp := t, window_open := False, out_line := o1, out_len := 0\<rparr>, (rx, tx @ on_line (tcp c0) (Some q)))"
      "tcp_kept (tcp c0) t" "tcp_ack t = tcp_ack (tcp c0)" "length o1 = 256"
    by (auto simp: q sel(2) answer_for_def on_line_def)
  obtain u n where c: "c = c0\<lparr>out_line := u, out_len := n\<rparr>" using assms(1) unfolding puts_queue_def by blast
  then show ?thesis using s unfolding c by auto
qed

text \<open>The state from which the next line can be sent.\<close>

lemma ready_sent:
  assumes "ready fuel a c" and "tcp_kept (tcp c) t" and "tcp_ack t = tcp_ack (tcp c)" and "length o1 = 256"
    and "bare_segment (tcp c) b" and "length b + 3 < fuel"
  shows "ready fuel b (c\<lparr>tcp := t, window_open := w, out_line := o1, out_len := 0\<rparr>)"
proof -
  have "1 < tcp_seq t" using assms(1,2) by (auto simp: ready_def tcp_kept_def intro: less_le_trans)
  moreover have "bare_segment t b" using assms(2,3,5) by (simp add: bare_segment_def packet_for_def tcp_kept_def)
  ultimately show ?thesis using assms by (simp add: ready_def irc_wf_def tcp_kept_def)
qed

text \<open>A literal and a string of the state, sent as one line.\<close>

lemma two_strings_sent:
  assumes "ready fuel a c" and "0 \<notin> set (asc s)" and "c_str (g c) 0 = Inr u" and "length (asc s) + length u \<le> 254"
    and "\<And>c'. puts_queue (asc s) c c' \<Longrightarrow> g c' = g c"
  shows "\<exists>t o1. rbind (o_str (lit s) c) (\<lambda>c. rbind (o_str (g c) c) (\<lambda>c. o_send script_line fuel c (answer_for a (Some u) @ rx, tx))) =
      Inr (c\<lparr>tcp := t, window_open := False, out_line := o1, out_len := 0\<rparr>, (rx, tx @ on_line (tcp c) (Some (asc s @ u)))) \<and>
    length o1 = 256 \<and> tcp_kept (tcp c) t \<and> tcp_ack t = tcp_ack (tcp c)"
proof -
  from o_str_ok [OF ready_strings(5) [OF assms(1)] c_str_lit [OF assms(2)]] obtain c1 where
    c1: "o_str (lit s) c = Inr c1" "puts_queue (asc s) c c1" by blast
  from o_str_ok [OF puts_queue_sel(1) [OF c1(2)], of "g c1" u] assms(3,5) c1(2) obtain c2 where
    c2: "o_str (g c1) c1 = Inr c2" "puts_queue u c1 c2" by auto
  have "puts_queue (asc s @ u) c c2"
    using puts_queue_trans [OF c1(2) c2(2)] assms(1,4) by (simp add: ready_def queued_def)
  from queue_sent [OF this assms(1), of rx tx] assms(4) show ?thesis
    by (simp add: c1(1) c2(1) answer_for_def)
qed

section \<open>The answers that are due\<close>

text \<open>The lines that are due: the answer to a ping first, then the request to join the channel.\<close>

definition due :: "irc \<Rightarrow> bytes list" where
  "due c = (if pong_pending c then [asc ''PONG :'' @ c_val (pong_arg c)] else []) @
     (if join_pending c \<and> c_val (cur_chan c) \<noteq> [] then [asc ''JOIN '' @ c_val (cur_chan c)] else [])"

text \<open>The payloads of the packets that carry these lines, each behind the ACK that closes the window.\<close>

definition payloads :: "bytes list \<Rightarrow> bytes list" where
  "payloads ls = concat (map (\<lambda>l. [[], l @ [13, 10]]) ls)"

lemma on_line_frames:
  "\<exists>ps. on_line t (Some l) = concat (map (slip_frame esc_byte) ps) \<and> map (drop 40) ps = payloads [l]"
  by (intro exI [of _ "[tcp_packet t 0 [], tcp_packet (tcp_sent t 0 []) 0 (l @ [13, 10])]"]) (simp add: on_line_def payloads_def)

abbreviation answers_in :: "bytes list \<Rightarrow> u8 option list" where
  "answers_in as \<equiv> concat (map (\<lambda>a. replicate 6 None @ map Some (slip_frame esc_byte a)) as)"

text \<open>What each of the two stages keeps for the next one.\<close>

definition stage :: "nat \<Rightarrow> irc \<Rightarrow> irc \<Rightarrow> bool" where
  "stage fuel c c' \<longleftrightarrow> (\<forall>b. ready fuel b c \<longrightarrow> ready fuel b c') \<and> cur_chan c' = cur_chan c \<and> outp c' = outp c \<and> typed c' = typed c"

lemma stage_sent:
  assumes "ready fuel a c" and "tcp_kept (tcp c) t" and "tcp_ack t = tcp_ack (tcp c)" and "length o1 = 256"
  shows "stage fuel c (c\<lparr>tcp := t, window_open := w, out_line := o1, out_len := 0\<rparr>)"
  using ready_sent [OF assms] by (auto simp: stage_def ready_def typed_def)

lemma pong_stage:
  assumes "\<forall>a \<in> set as. ready fuel a c" and "length as = (if pong_pending c then 1 else 0)"
  shows "\<exists>c' ps. (if pong_pending c then rbind (o_str (lit ''PONG :'') (c\<lparr>pong_pending := False\<rparr>)) (\<lambda>c.
      rbind (o_str (pong_arg c) c) (\<lambda>c. o_send script_line fuel c (answers_in as @ rx, tx))) else Inr (c, (answers_in as @ rx, tx))) =
      Inr (c', (rx, tx @ concat (map (slip_frame esc_byte) ps))) \<and>
    map (drop 40) ps = payloads (if pong_pending c then [asc ''PONG :'' @ c_val (pong_arg c)] else []) \<and>
    stage fuel c c' \<and> \<not> pong_pending c' \<and> join_pending c' = join_pending c"
proof (cases "pong_pending c")
  case False
  then show ?thesis using assms(2) by (intro exI [of _ c] exI [of _ "[]"]) (simp add: stage_def payloads_def)
next
  case True
  then obtain a where a: "as = [a]" "ready fuel a c" using assms by (cases as) auto
  let ?c = "c\<lparr>pong_pending := False\<rparr>" and ?u = "c_val (pong_arg c)"
  have rdy: "ready fuel b ?c = ready fuel b c" for b by (simp add: ready_def irc_wf_def)
  have z: "0 \<in> set (pong_arg c)" "length (pong_arg c) = 64" using a(2) by (simp_all add: ready_def irc_wf_def)
  then have str: "c_str (pong_arg ?c) 0 = Inr ?u" "length (asc ''PONG :'') + length ?u \<le> 254" "0 \<notin> set (asc ''PONG :'')"
    using c_str_val [OF z(1)] length_c_val [OF z(1)] by (simp_all add: asc_def)
  from two_strings_sent [OF a(2) [folded rdy] str(3), of pong_arg, OF str(1,2), of rx tx] obtain t o1 where
    s: "rbind (o_str (lit ''PONG :'') ?c) (\<lambda>c. rbind (o_str (pong_arg c) c) (\<lambda>c. o_send script_line fuel c (answer_for a (Some ?u) @ rx, tx))) =
        Inr (?c\<lparr>tcp := t, window_open := False, out_line := o1, out_len := 0\<rparr>, (rx, tx @ on_line (tcp c) (Some (asc ''PONG :'' @ ?u))))"
      "length o1 = 256" "tcp_kept (tcp c) t" "tcp_ack t = tcp_ack (tcp c)"
    by (auto simp: puts_queue_sel)
  from on_line_frames [of "tcp c" "asc ''PONG :'' @ ?u"] obtain ps where
    ps: "on_line (tcp c) (Some (asc ''PONG :'' @ ?u)) = concat (map (slip_frame esc_byte) ps)" "map (drop 40) ps = payloads [asc ''PONG :'' @ ?u]"
    by blast
  have "stage fuel ?c (?c\<lparr>tcp := t, window_open := False, out_line := o1, out_len := 0\<rparr>)"
    by (rule stage_sent [OF a(2) [folded rdy]]) (simp_all add: s)
  then have "stage fuel c (?c\<lparr>tcp := t, window_open := False, out_line := o1, out_len := 0\<rparr>)"
    by (simp add: stage_def rdy typed_def)
  then show ?thesis
    using True s(1) ps by (intro exI [of _ "?c\<lparr>tcp := t, window_open := False, out_line := o1, out_len := 0\<rparr>"] exI [of _ ps])
      (simp add: a(1) answer_for_def)
qed

lemma join_stage:
  assumes "\<forall>a \<in> set as. ready fuel a c" and "length as = (if join_pending c \<and> c_val (cur_chan c) \<noteq> [] then 1 else 0)"
    and "0 \<in> set (cur_chan c)" and "length (cur_chan c) = 33"
  shows "\<exists>c' ps. (if join_pending c then let c = c\<lparr>join_pending := False\<rparr> in rbind (rd (cur_chan c) 0) (\<lambda>ch.
         if ch \<noteq> 0 then rbind (o_str (lit ''JOIN '') c) (\<lambda>c. rbind (o_str (cur_chan c) c) (\<lambda>c. o_send script_line fuel c (answers_in as @ rx, tx)))
         else Inr (c, (answers_in as @ rx, tx))) else Inr (c, (answers_in as @ rx, tx))) =
      Inr (c', (rx, tx @ concat (map (slip_frame esc_byte) ps))) \<and>
    map (drop 40) ps = payloads (if join_pending c \<and> c_val (cur_chan c) \<noteq> [] then [asc ''JOIN '' @ c_val (cur_chan c)] else []) \<and>
    outp c' = outp c \<and> typed c' = typed c \<and> pong_pending c' = pong_pending c \<and> \<not> join_pending c'"
proof -
  let ?c = "c\<lparr>join_pending := False\<rparr>" and ?u = "c_val (cur_chan c)"
  have str: "c_str (cur_chan ?c) 0 = Inr ?u" "length (asc ''JOIN '') + length ?u \<le> 254" "0 \<notin> set (asc ''JOIN '')"
    using c_str_val [OF assms(3)] length_c_val [OF assms(3)] assms(4) by (simp_all add: asc_def)
  obtain g where g: "rd (cur_chan ?c) 0 = Inr g" "(g = 0) = (?u = [])" using c_str_head [OF str(1)] by blast
  show ?thesis
  proof (cases "join_pending c \<and> ?u \<noteq> []")
    case False
    then show ?thesis
      using assms(2) g by (intro exI [of _ ?c] exI [of _ "[]"]) (cases c, auto simp: payloads_def typed_def)
  next
    case True
    then obtain a where a: "as = [a]" "ready fuel a c" using assms(1,2) by (cases as) auto
    then have "ready fuel a ?c" by (simp add: ready_def irc_wf_def)
    from two_strings_sent [OF this str(3), of cur_chan, OF str(1,2), of rx tx] obtain t o1 where
      s: "rbind (o_str (lit ''JOIN '') ?c) (\<lambda>c. rbind (o_str (cur_chan c) c) (\<lambda>c. o_send script_line fuel c (answer_for a (Some ?u) @ rx, tx))) =
        Inr (?c\<lparr>tcp := t, window_open := False, out_line := o1, out_len := 0\<rparr>, (rx, tx @ on_line (tcp c) (Some (asc ''JOIN '' @ ?u))))"
      by (auto simp: puts_queue_sel)
    from on_line_frames [of "tcp c" "asc ''JOIN '' @ ?u"] obtain ps where
      ps: "on_line (tcp c) (Some (asc ''JOIN '' @ ?u)) = concat (map (slip_frame esc_byte) ps)" "map (drop 40) ps = payloads [asc ''JOIN '' @ ?u]"
      by blast
    show ?thesis
      using True s g ps by (intro exI [of _ "?c\<lparr>tcp := t, window_open := False, out_line := o1, out_len := 0\<rparr>"] exI [of _ ps])
        (simp add: a(1) answer_for_def typed_def)
  qed
qed

section \<open>Properties\<close>

text \<open>
  C17: what the server has asked for is sent, once and in order. Whatever is noted (nothing, a ping to
  answer, a channel to join after the welcome, or both), \<^verbatim>\<open>flush_pending\<close> puts exactly the lines \<open>due\<close> on the
  wire, the answer to the ping first, each in one segment behind the ACK that closes the window,
  while the server acknowledges them; then nothing is noted any more, and the screen has not changed.
\<close>

theorem irc_flushes_due:
  assumes "irc_wf c" and "out_len c = 0" and "1 < tcp_seq (tcp c)" and "length as = length (due c)"
    and "\<forall>a \<in> set as. bare_segment (tcp c) a \<and> length a + 3 < fuel"
  shows "\<exists>c' ps. flush_pending script_line fuel c (concat (map (\<lambda>a. replicate 6 None @ map Some (slip_frame esc_byte a)) as) @ rx, tx) =
      Inr (c', (rx, tx @ concat (map (slip_frame esc_byte) ps))) \<and>
    map (drop 40) ps = concat (map (\<lambda>l. [[], l @ [13, 10]]) (due c)) \<and>
    \<not> pong_pending c' \<and> \<not> join_pending c' \<and> outp c' = outp c \<and> typed c' = typed c"
proof -
  have rdy: "\<forall>a \<in> set as. ready fuel a c" using assms(1-3,5) by (simp add: ready_def)
  have z: "0 \<in> set (cur_chan c)" "length (cur_chan c) = 33" using assms(1) by (simp_all add: irc_wf_def)
  define n where "n = (if pong_pending c then 1 else 0 :: nat)"
  have cut: "answers_in as = answers_in (take n as) @ answers_in (drop n as)"
    by (simp only: map_append [symmetric] concat_append [symmetric] append_take_drop_id)
  have len: "length (take n as) = n" "length (drop n as) = (if join_pending c \<and> c_val (cur_chan c) \<noteq> [] then 1 else 0)"
    using assms(4) by (simp_all add: due_def n_def)
  have p: "\<forall>a \<in> set (take n as). ready fuel a c" "length (take n as) = (if pong_pending c then 1 else 0)"
    using rdy len(1) by (auto simp: n_def dest: in_set_takeD)
  from pong_stage [OF p, of "answers_in (drop n as) @ rx" tx] obtain c1 ps where
    pong: "(if pong_pending c then rbind (o_str (lit ''PONG :'') (c\<lparr>pong_pending := False\<rparr>)) (\<lambda>c.
        rbind (o_str (pong_arg c) c) (\<lambda>c. o_send script_line fuel c (answers_in as @ rx, tx))) else Inr (c, (answers_in as @ rx, tx))) =
        Inr (c1, (answers_in (drop n as) @ rx, tx @ concat (map (slip_frame esc_byte) ps)))"
      "map (drop 40) ps = payloads (if pong_pending c then [asc ''PONG :'' @ c_val (pong_arg c)] else [])"
      "stage fuel c c1" "\<not> pong_pending c1" "join_pending c1 = join_pending c"
    unfolding cut append_assoc by blast
  have c1: "cur_chan c1 = cur_chan c" "outp c1 = outp c" "typed c1 = typed c" "\<forall>a \<in> set (drop n as). ready fuel a c1"
    using pong(3) rdy by (auto simp: stage_def dest: in_set_dropD)
  from join_stage [of "drop n as" fuel c1 rx "tx @ concat (map (slip_frame esc_byte) ps)"] c1 len(2) pong(5) z obtain c' qs where
    join: "(if join_pending c1 then let c = c1\<lparr>join_pending := False\<rparr> in rbind (rd (cur_chan c) 0) (\<lambda>ch.
         if ch \<noteq> 0 then rbind (o_str (lit ''JOIN '') c) (\<lambda>c. rbind (o_str (cur_chan c) c) (\<lambda>c.
           o_send script_line fuel c (answers_in (drop n as) @ rx, tx @ concat (map (slip_frame esc_byte) ps))))
         else Inr (c, (answers_in (drop n as) @ rx, tx @ concat (map (slip_frame esc_byte) ps))))
       else Inr (c1, (answers_in (drop n as) @ rx, tx @ concat (map (slip_frame esc_byte) ps)))) =
        Inr (c', (rx, (tx @ concat (map (slip_frame esc_byte) ps)) @ concat (map (slip_frame esc_byte) qs)))"
      "map (drop 40) qs = payloads (if join_pending c1 \<and> c_val (cur_chan c1) \<noteq> [] then [asc ''JOIN '' @ c_val (cur_chan c1)] else [])"
      "outp c' = outp c1" "typed c' = typed c1" "pong_pending c' = pong_pending c1" "\<not> join_pending c'" by auto
  have "flush_pending script_line fuel c (answers_in as @ rx, tx) = Inr (c', (rx, tx @ concat (map (slip_frame esc_byte) (ps @ qs))))"
    unfolding flush_pending_def pong(1) rbind_Inr prod.case join(1) by simp
  moreover have "map (drop 40) (ps @ qs) = concat (map (\<lambda>l. [[], l @ [13, 10]]) (due c))"
    using pong(2,5) join(2) c1(1) by (simp add: due_def payloads_def)
  ultimately show ?thesis
    using join(3-6) pong(4) c1(2,3) by (intro exI [of _ c'] exI [of _ "ps @ qs"]) simp
qed

text \<open>A ping and the welcome noted together.\<close>

definition demo_due :: irc where
  "demo_due = (demo_irc [])\<lparr>pong_pending := True, pong_arg := asc ''ab'' @ replicate 62 0, join_pending := True\<rparr>"

lemma demo_due_sel:
  "tcp demo_due = demo_tcp 7 100" "out_len demo_due = 0" "irc_wf demo_due" "due demo_due = [asc ''PONG :ab'', asc ''JOIN #z'']"
proof -
  show "tcp demo_due = demo_tcp 7 100" "out_len demo_due = 0" by (simp_all add: demo_due_def)
  have "irc_wf (demo_irc [])" using demo_irc_ok [of "[]"] by (simp add: irc_ok_def)
  then show "irc_wf demo_due" by (simp add: demo_due_def irc_wf_def asc_def)
  show "due demo_due = [asc ''PONG :ab'', asc ''JOIN #z'']"
    by (simp add: due_def demo_due_def demo_irc_names) (simp add: asc_def)
qed

theorem irc_flushes_due_witness:
  "\<exists>c' ps. flush_pending script_line 99 demo_due
      (concat (map (\<lambda>a. replicate 6 None @ map Some (slip_frame esc_byte a)) [demo_seg 100 15 TCP_ACK [], demo_seg 100 25 TCP_ACK []]) @ [], []) =
      Inr (c', ([], [] @ concat (map (slip_frame esc_byte) ps))) \<and>
    map (drop 40) ps = concat (map (\<lambda>l. [[], l @ [13, 10]]) (due demo_due)) \<and>
    \<not> pong_pending c' \<and> \<not> join_pending c' \<and> outp c' = outp demo_due \<and> typed c' = typed demo_due"
  by (rule irc_flushes_due) (simp_all add: demo_due_sel bare_segment_def)

end
