(* ===== verification/Line_Editing.thy ===== *)
theory Line_Editing
  imports Terminal
begin

text \<open>
  Typing a line. The specification of line editing on a list of keys, and that \<^verbatim>\<open>read_line\<close>, which asks the
  questions before connecting, implements it, in the array and on the screen.
\<close>

section \<open>The specification\<close>

definition is_delete :: "u16 \<Rightarrow> bool" where
  "is_delete k \<longleftrightarrow> k = KEY_LEFT \<or> k = KEY_DELETE \<or> k = KEY_CTRL_DEL"

text \<open>
  A key other than ENTER on a line with room for so many characters, and a list of keys on the
  empty line. The key 0, no key, is one that changes nothing.
\<close>

definition edit_key :: "nat \<Rightarrow> u16 \<Rightarrow> bytes \<Rightarrow> bytes" where
  "edit_key room k s =
     (if is_delete k then butlast s
      else if 32 \<le> k \<and> k < 127 \<and> length s < room then s @ [ucast k] else s)"

definition edited :: "nat \<Rightarrow> u16 list \<Rightarrow> bytes" where
  "edited room keys = fold (edit_key room) keys []"

text \<open>
  \<open>keys_answer kb keys ks ks'\<close>: polled as \<^verbatim>\<open>read_line\<close> polls it, the keyboard gives these keys and then ENTER,
  and it is in the state \<open>ks'\<close> when \<^verbatim>\<open>read_line\<close> has waited for the key to be released.
\<close>

fun keys_answer :: "'k keyboard \<Rightarrow> u16 list \<Rightarrow> 'k \<Rightarrow> 'k \<Rightarrow> bool" where
  "keys_answer kb [] ks ks' =
     (case in_GetKey kb (in_Wait kb ks) of (k, ks1) \<Rightarrow>
        k = KEY_ENTER \<and> ks' = in_GetKeyReset kb (in_WaitForNoKey kb ks1))"
| "keys_answer kb (key # keys) ks ks' =
     (case in_GetKey kb (in_Wait kb ks) of (k, ks1) \<Rightarrow> k = key \<and> key \<noteq> KEY_ENTER \<and> keys_answer kb keys ks1 ks')"

lemma is_delete_0 [simp]: "\<not> is_delete 0"
  by (simp add: is_delete_def)

lemma length_edit_key: "length s \<le> room \<Longrightarrow> length (edit_key room k s) \<le> room"
  by (auto simp: edit_key_def)

lemma plain_edit_key: "plain s \<Longrightarrow> plain (edit_key room k s)"
  using ucast_key [of k] by (auto simp: edit_key_def plain_def dest: in_set_butlastD)

lemma edited_ok:
  "length s \<le> room \<Longrightarrow> plain s \<Longrightarrow> length (fold (edit_key room) keys s) \<le> room \<and> plain (fold (edit_key room) keys s)"
  by (induction keys arbitrary: s) (simp_all add: length_edit_key plain_edit_key)

text \<open>The keys of a text that fits give the text.\<close>

lemma edited_text:
  assumes "plain s" and "length s \<le> room"
  shows "edited room (map ucast s) = s"
proof -
  have "fold (edit_key room) (map ucast t) u = u @ t" if "plain t" "length u + length t \<le> room" for t u
    using that
  proof (induction t arbitrary: u)
    case (Cons c t)
    have "unat c < 2 ^ 16" using unat_u8_less [of c] by simp
    then have c: "unat (ucast c :: u16) = unat c" by (simp add: unsigned_ucast_eq take_bit_nat_eq_self)
    have "(ucast (ucast c :: u16) :: u8) = c" by (rule bit_word_eqI) (auto simp: bit_simps)
    note c = c this
    have "32 \<le> unat c" "unat c < 127" using Cons.prems(1) by (auto simp: plain_def word_le_nat_alt)
    then have "edit_key room (ucast c) u = u @ [c]"
      using c Cons.prems(2) by (auto simp: edit_key_def is_delete_def word_le_nat_alt word_less_nat_alt)
    then show ?case using Cons by (simp add: plain_def)
  qed simp
  from this [of s "[]"] assms show ?thesis by (simp add: edited_def)
qed

section \<open>The row that is typed in\<close>

text \<open>The row of the print position shows \<open>s\<close> and then spaces, and the position is behind \<open>s\<close>.\<close>

definition row_shows :: "console \<Rightarrow> bytes \<Rightarrow> bool" where
  "row_shows con s \<longleftrightarrow> params_left con = 0 \<and> cy con \<le> 23 \<and> cy con < length (screen con) \<and> cx con = length s \<and> length s < 64 \<and>
     screen con ! cy con = s @ replicate (64 - length s) 32"

lemma row_print:
  assumes "row_shows con s" and "plain [c]" and "length s < 63"
  shows "row_shows (con_putchar c con) (s @ [c])"
proof -
  have "replicate (64 - length s) 32 = 32 # replicate (63 - length s) (32 :: u8)"
    using assms(3) by (simp add: Suc_diff_le flip: replicate_Suc)
  then show ?thesis
    using assms by (simp add: row_shows_def con_putchar_plain con_printable_def lazy_scroll.simps list_update_append)
qed

lemma row_delete:
  assumes "row_shows con (s @ [c])"
  shows "row_shows (con_puts [8, 32, 8] con) s"
proof -
  have s: "length s < 63" using assms by (simp add: row_shows_def)
  have "replicate (64 - length s) 32 = 32 # replicate (63 - length s) (32 :: u8)"
    using s by (simp add: Suc_diff_le flip: replicate_Suc)
  then show ?thesis
    using assms s by (auto simp: row_shows_def con_putchar_def con_printable_def lazy_scroll.simps list_update_append)
qed

section \<open>Reading a line\<close>

text \<open>
  The output of the keys: it is printable but for the deleting, and keeps the row in order as long as
  the line behind the question has never more than \<open>n\<close> characters. The longest line there is while a list of keys is typed.
\<close>

definition echoes :: "bytes \<Rightarrow> nat \<Rightarrow> bytes \<Rightarrow> bytes \<Rightarrow> bool" where
  "echoes out n s s' \<longleftrightarrow> 22 \<notin> set out \<and>
     (\<forall>con p. row_shows con (p @ s) \<and> length p + n < 64 \<longrightarrow> row_shows (con_puts out con) (p @ s'))"

fun longest :: "nat \<Rightarrow> u16 list \<Rightarrow> bytes \<Rightarrow> nat" where
  "longest room [] s = length s"
| "longest room (k # ks) s = max (length s) (longest room ks (edit_key room k s))"

lemma longest_fits:
  "(\<And>n. q + length (fold (edit_key room) (take n keys) s) < 64) \<Longrightarrow> q + longest room keys s < 64"
proof (induction keys arbitrary: s)
  case (Cons k keys)
  from Cons.prems [of "Suc _"] have "q + longest room keys (edit_key room k s) < 64" by (intro Cons.IH) simp
  with Cons.prems [of 0] show ?case by simp
qed simp

lemma longest_ge: "length (edit_key room k s) \<le> longest room ks (edit_key room k s)"
  by (cases ks) simp_all

lemma echoes_mono: "echoes out m s s' \<Longrightarrow> m \<le> n \<Longrightarrow> echoes out n s s'"
  by (fastforce simp: echoes_def)

lemma echoes_trans: "echoes a n s t \<Longrightarrow> echoes b n t u \<Longrightarrow> echoes (a @ b) n s u"
  by (auto simp: echoes_def)

lemma echoes_none: "echoes [] n s s"
  by (simp add: echoes_def)

lemma echoes_char: "32 \<le> k \<Longrightarrow> k < 127 \<Longrightarrow> echoes [ucast k] (length s + 1) s (s @ [ucast (k :: u16)])"
  using ucast_key [of k] row_print by (auto simp: echoes_def plain_def word_le_nat_alt simp flip: append_assoc)

lemma echoes_delete: "s \<noteq> [] \<Longrightarrow> echoes [8, 32, 8] n s (butlast s)"
  using row_delete by (cases s rule: rev_cases) (auto simp: echoes_def simp flip: append_assoc)

lemma read_loop_key:
  assumes "in_GetKey kb (in_Wait kb ks) = (key, ks1)" and "key \<noteq> KEY_ENTER" and "length buf = mx" and "len < mx"
  shows "\<exists>buf1 len1 o1. read_loop kb (Suc f) mx buf len out ks = read_loop kb f mx buf1 len1 (out @ o1) ks1 \<and> length buf1 = mx \<and>
    len1 < mx \<and> take len1 buf1 = edit_key (mx - 1) key (take len buf) \<and>
    echoes o1 (max len (length (edit_key (mx - 1) key (take len buf)))) (take len buf) (edit_key (mx - 1) key (take len buf))"
proof -
  let ?s = "take len buf"
  consider "is_delete key" "len = 0" | "is_delete key" "len \<noteq> 0" | "\<not> is_delete key" "32 \<le> key \<and> key < 127 \<and> len + 1 < mx"
    | "\<not> is_delete key" "\<not> (32 \<le> key \<and> key < 127 \<and> len + 1 < mx)" by blast
  then show ?thesis
  proof cases
    case 2
    then have "key \<noteq> 0" "?s \<noteq> []" "take (len - 1) buf = butlast ?s" using assms(3,4) by (auto simp: butlast_take)
    then show ?thesis
      using 2 assms echoes_delete [of ?s]
      by (intro exI [of _ buf] exI [of _ "len - 1"] exI [of _ "[8, 32, 8]"]) (auto simp: is_delete_def edit_key_def)
  next
    case 3
    have "take (len + 1) (buf[len := ucast key]) = ?s @ [ucast key]" using assms(3,4) by (simp add: take_Suc_conv_app_nth)
    then show ?thesis
      using 3 assms echoes_char [of key ?s]
      by (intro exI [of _ "buf[len := ucast key]"] exI [of _ "len + 1"] exI [of _ "[ucast key]"]) (auto simp: is_delete_def edit_key_def wr_def)
  next
    case 1
    then show ?thesis
      using assms by (intro exI [of _ buf] exI [of _ len] exI [of _ "[]"]) (auto simp: is_delete_def edit_key_def echoes_none)
  next
    case 4
    then show ?thesis
      using assms by (intro exI [of _ buf] exI [of _ len] exI [of _ "[]"]) (auto simp: is_delete_def edit_key_def echoes_none)
  qed
qed

lemma read_loop_edits:
  assumes "length buf = mx" and "len < mx" and "keys_answer kb keys ks ks'" and "length keys < fuel"
  shows "\<exists>buf' out' ks1. read_loop kb fuel mx buf len out ks =
      Inr (buf', length (fold (edit_key (mx - 1)) keys (take len buf)), out @ out', ks1) \<and>
    ks' = in_GetKeyReset kb (in_WaitForNoKey kb ks1) \<and> length buf' = mx \<and>
    take (length (fold (edit_key (mx - 1)) keys (take len buf))) buf' = fold (edit_key (mx - 1)) keys (take len buf) \<and>
    echoes out' (longest (mx - 1) keys (take len buf)) (take len buf) (fold (edit_key (mx - 1)) keys (take len buf))"
  using assms
proof (induction keys arbitrary: buf len out ks fuel)
  case Nil
  then obtain f where f: "fuel = Suc f" by (cases fuel) auto
  show ?case
    using Nil by (auto simp: f echoes_none split: prod.splits)
next
  case (Cons key keys)
  obtain f where f: "fuel = Suc f" "length keys < f" using Cons.prems(4) by (cases fuel) auto
  obtain ks1 where k: "in_GetKey kb (in_Wait kb ks) = (key, ks1)" "key \<noteq> 13" "keys_answer kb keys ks1 ks'"
    using Cons.prems(3) by (auto split: prod.splits)
  let ?s = "take len buf"
  let ?e = "edit_key (mx - 1) key ?s" and ?n = "longest (mx - 1) (key # keys) (take len buf)"
  from read_loop_key [OF k(1,2) Cons.prems(1,2), of f out] obtain buf1 len1 o1 where
    one: "read_loop kb (Suc f) mx buf len out ks = read_loop kb f mx buf1 len1 (out @ o1) ks1" "length buf1 = mx" "len1 < mx"
      "take len1 buf1 = ?e" "echoes o1 (max len (length ?e)) ?s ?e" by blast
  have "max len (length ?e) \<le> ?n" using Cons.prems(1,2) longest_ge [of "mx - 1" key ?s keys] by (simp add: max.coboundedI2)
  with one(5) have here: "echoes o1 ?n ?s ?e" by (rule echoes_mono)
  from Cons.IH [OF one(2,3) k(3) f(2), of "out @ o1", unfolded one(4)] obtain buf' out' ks2 where
    rest: "read_loop kb f mx buf1 len1 (out @ o1) ks1 = Inr (buf', length (fold (edit_key (mx - 1)) keys ?e), (out @ o1) @ out', ks2)"
      "ks' = in_GetKeyReset kb (in_WaitForNoKey kb ks2)" "length buf' = mx"
      "take (length (fold (edit_key (mx - 1)) keys ?e)) buf' = fold (edit_key (mx - 1)) keys ?e"
      "echoes out' (longest (mx - 1) keys ?e) ?e (fold (edit_key (mx - 1)) keys ?e)" by blast
  have "echoes out' ?n ?e (fold (edit_key (mx - 1)) keys ?e)" using rest(5) by (rule echoes_mono) simp
  with here have "echoes (o1 @ out') ?n ?s (fold (edit_key (mx - 1)) keys ?e)" by (rule echoes_trans)
  then show ?case
    using one(1) rest(1-4) unfolding f(1) by (intro exI [of _ buf'] exI [of _ "o1 @ out'"] exI [of _ ks2]) simp
qed

lemma read_line_edited:
  assumes "length buf = mx" and "0 < mx" and "keys_answer kb keys ks ks'" and "length keys < fuel"
  shows "\<exists>buf' out. read_line kb fuel buf mx ks = Inr (buf', out @ [10], ks') \<and> length buf' = mx \<and>
    c_str buf' 0 = Inr (edited (mx - 1) keys) \<and> echoes out (longest (mx - 1) keys []) [] (edited (mx - 1) keys)"
proof -
  let ?s = "edited (mx - 1) keys"
  from read_loop_edits [OF assms, of "[]"] obtain b out ks1 where
    b: "read_loop kb fuel mx buf 0 [] ks = Inr (b, length ?s, out, ks1)" "ks' = in_GetKeyReset kb (in_WaitForNoKey kb ks1)"
      "length b = mx" "take (length ?s) b = ?s" "echoes out (longest (mx - 1) keys []) [] ?s" by (auto simp: edited_def)
  have s: "length ?s < mx" "plain ?s" using edited_ok [of "[]" "mx - 1" keys] assms(2) by (auto simp: edited_def plain_def)
  then have "b[length ?s := 0] = ?s @ 0 # drop (Suc (length ?s)) b" using b(3,4) by (simp add: upd_conv_take_nth_drop)
  then have "c_str (b[length ?s := 0]) 0 = Inr ?s" using plain_no_zero [OF s(2)] by (simp add: c_str_append)
  then show ?thesis using b s(1) by (simp add: read_line_def wr_def)
qed

section \<open>Property\<close>

text \<open>
  C27: \<^verbatim>\<open>read_line\<close> is a line editor. Whatever keys are pressed up to ENTER, in any number and after any number of polls without
  a key, too many for the array, deletes on an empty line and keys without a character included, the
  function returns, the array holds the line that the specification gives, ended by a zero and inside the
  array, whatever the array held before. And when the question and the line together have never been
  longer than the row, the screen shows the line behind the question at the end, before the newline.
\<close>

theorem read_line_edits:
  assumes "length buf = mx" and "0 < mx" and "keys_answer kb keys ks ks'" and "length keys < fuel"
  shows "\<exists>buf' out. read_line kb fuel buf mx ks = Inr (buf', out @ [10], ks') \<and> length buf' = mx \<and>
    length (edited (mx - 1) keys) < mx \<and> c_str buf' 0 = Inr (edited (mx - 1) keys) \<and>
    (\<forall>con question. row_shows con question \<and> (\<forall>n. length question + length (edited (mx - 1) (take n keys)) < 64) \<longrightarrow>
      row_shows (con_puts out con) (question @ edited (mx - 1) keys))"
proof -
  from read_line_edited [OF assms] obtain buf' out where
    r: "read_line kb fuel buf mx ks = Inr (buf', out @ [10], ks')" "length buf' = mx" "c_str buf' 0 = Inr (edited (mx - 1) keys)"
    and e: "echoes out (longest (mx - 1) keys []) [] (edited (mx - 1) keys)" by blast
  have "row_shows (con_puts out con) (question @ edited (mx - 1) keys)"
    if "row_shows con question" "\<forall>n. length question + length (edited (mx - 1) (take n keys)) < 64" for con question
    using e that longest_fits [of "length question" "mx - 1" keys "[]"] by (simp add: echoes_def edited_def)
  moreover have "length (edited (mx - 1) keys) \<le> mx - 1" using edited_ok [of "[]" "mx - 1" keys] by (simp add: edited_def plain_def)
  then have "length (edited (mx - 1) keys) < mx" using assms(2) by linarith
  ultimately show ?thesis using r by blast
qed

text \<open>Three characters fit in the array; the fourth is not taken.\<close>

theorem read_line_edits_witness:
  "\<exists>buf' out. read_line script_keys 9 (replicate 4 7) 4 [0x61, 0x62, 0, 12, 0x63, 0x64, 0x65, 13, 1] = Inr (buf', out @ [10], [1]) \<and>
    length buf' = 4 \<and> c_str buf' 0 = Inr [0x61, 0x63, 0x64] \<and>
    row_shows (con_puts out (fresh_console\<lparr>screen := (screen fresh_console)[23 := 63 # replicate 63 32], cx := 1\<rparr>))
      ([63] @ [0x61, 0x63, 0x64])"
proof -
  let ?keys = "[0x61, 0x62, 0, 12, 0x63, 0x64, 0x65] :: u16 list"
  let ?con = "fresh_console\<lparr>screen := (screen fresh_console)[23 := 63 # replicate 63 32], cx := 1\<rparr>"
  have e: "edited (4 - 1) ?keys = [0x61, 0x63, 0x64]" by (simp add: edited_def edit_key_def is_delete_def)
  have fits: "\<forall>n. length [63 :: u8] + length (edited (4 - 1) (take n ?keys)) < 64"
  proof
    fix n
    have "length (edited (4 - 1) (take n ?keys)) \<le> 3" using edited_ok [of "[]" 3 "take n ?keys"] by (simp add: edited_def plain_def)
    then show "length [63 :: u8] + length (edited (4 - 1) (take n ?keys)) < 64" by simp
  qed
  have row: "row_shows ?con [63]" by (simp add: row_shows_def fresh_console_def)
  have keys: "keys_answer script_keys ?keys [0x61, 0x62, 0, 12, 0x63, 0x64, 0x65, 13, 1] [1]" by (simp add: script_keys_def)
  have "length (replicate 4 (7 :: u8)) = 4" "0 < (4 :: nat)" "length ?keys < 9" by simp_all
  from read_line_edits [OF this(1,2) keys this(3), unfolded e] fits row show ?thesis by blast
qed

end
