(* ===== verification/Tcp_Chat.thy ===== *)
theory Tcp_Chat
  imports Terminal
begin

text \<open>
  The chat client, \<^verbatim>\<open>tcp_chat.c\<close>: typing and receiving interleaved in one polling loop, a log of the
  received lines above the input row. The facts about the connection come from the interface
  \<open>tcp_service\<close>, the facts about the screen from \<open>log_screen\<close>.
\<close>

section \<open>State and screen\<close>

abbreviation MAX_INPUT :: nat where "MAX_INPUT \<equiv> 80"

record chat = terminal +
  logline :: bytes
  logline_len :: nat
  logline_emitted :: bool

text \<open>\<^verbatim>\<open>puts_raw\<close>: the output for the string at the start of an array.\<close>

definition puts_raw :: "bytes \<Rightarrow> bytes res" where
  "puts_raw s = c_str s 0"

definition draw_input :: "chat \<Rightarrow> chat res" where
  "draw_input c =
     rbind (draw_row (input c) (input_len c)) (\<lambda>row.
     rbind (puts_raw row) (\<lambda>cs. Inr (putcs (at INPUT_ROW 0 @ cs @ at INPUT_ROW 0) c)))"

text \<open>\<^verbatim>\<open>log_line\<close>, for a string that has been read from its array.\<close>

definition log_line :: "bytes \<Rightarrow> chat \<Rightarrow> chat res" where
  "log_line s c = draw_input (putcs (at INPUT_ROW 0 @ s @ pad_loop (length s) @ [10]) c)"

section \<open>Received data\<close>

definition logline_flush :: "chat \<Rightarrow> chat res" where
  "logline_flush c =
     rbind (wr (logline c) (logline_len c) 0) (\<lambda>l.
     let c = c\<lparr>logline := l, logline_len := 0, logline_emitted := True\<rparr> in
     rbind (c_str (logline c) 0) (\<lambda>s. log_line s c))"

definition logline_char :: "u8 \<Rightarrow> chat \<Rightarrow> chat res" where
  "logline_char ch c =
     (if ch = 10 then
        rbind (if logline_len c \<noteq> 0 \<or> \<not> logline_emitted c then logline_flush c else Inr c) (\<lambda>c.
          Inr (c\<lparr>logline_emitted := False\<rparr>))
      else
        let ch = (if ch = 9 then 32 else ch) in
        if ch < 32 \<or> ch > 126 then Inr c
        else rbind (wr (logline c) (logline_len c) ch) (\<lambda>l.
          let c = c\<lparr>logline := l, logline_len := logline_len c + 1\<rparr> in
          if logline_len c = SCREEN_COLS then logline_flush c else Inr c))"

fun show_loop :: "bytes \<Rightarrow> nat \<Rightarrow> chat \<Rightarrow> chat res" where
  "show_loop data 0 c = Inr c"
| "show_loop [] (Suc len) c = Inl OutOfBounds"
| "show_loop (b # data) (Suc len) c = rbind (logline_char b c) (show_loop data len)"

definition show_data :: "bytes \<Rightarrow> nat \<Rightarrow> chat \<Rightarrow> chat res" where
  "show_data data len c =
     rbind (show_loop data len c) (\<lambda>c. if logline_len c \<noteq> 0 then logline_flush c else Inr c)"

section \<open>The connection\<close>

definition poll_net :: "'d platform \<Rightarrow> nat \<Rightarrow> chat \<Rightarrow> 'd \<Rightarrow> (int \<times> chat \<times> 'd) res" where
  "poll_net pf fuel c d =
     rbind (if \<not> window_open c
            then rbind (tcp_send pf fuel (tcp c) 0 None RX_WINDOW d) (\<lambda>(_, t, d).
                   Inr (c\<lparr>tcp := t, window_open := True\<rparr>, d))
            else Inr (c, d)) (\<lambda>(c, d).
     rbind (tcp_recv_timeout pf fuel (tcp c) 0 POLL_TICKS d) (\<lambda>(rc, t, d).
     let c = c\<lparr>tcp := t\<rparr> in
     if rc = - EAGAIN pf then Inr (0, c, d)
     else if rc = - ERESET then
       rbind (log_line (asc ''*** connection reset by peer'') c) (\<lambda>c. Inr (- 1, c, d))
     else if rc < 0 then Inr (0, c, d)
     else if rc > 0 then
       rbind (show_data (tcp_rx_buffer (tcp c)) (nat rc) (c\<lparr>window_open := False\<rparr>)) (\<lambda>c. Inr (0, c, d))
     else
       rbind (rd (tcp_pkt (tcp c)) (20 + 13)) (\<lambda>fl.
         if fl AND TCP_FIN \<noteq> 0 then
           rbind (log_line (asc ''*** server closed the connection'') c) (\<lambda>c. Inr (- 1, c, d))
         else Inr (0, c, d))))"

text \<open>The loop of \<^verbatim>\<open>send_input\<close> that drains the connection.\<close>

fun drain :: "'d platform \<Rightarrow> nat \<Rightarrow> nat \<Rightarrow> chat \<Rightarrow> 'd \<Rightarrow> (chat \<times> 'd) res" where
  "drain pf fuel 0 c d = Inr (c, d)"
| "drain pf fuel (Suc left) c d =
     rbind (tcp_recv_timeout pf fuel (tcp c) 0 POLL_TICKS d) (\<lambda>(rc, t, d).
     let c = c\<lparr>tcp := t\<rparr> in
     rbind (if rc > 0 then show_data (tcp_rx_buffer (tcp c)) (nat rc) c else Inr c) (\<lambda>c.
       drain pf fuel left c d))"

definition send_input :: "'d platform \<Rightarrow> nat \<Rightarrow> chat \<Rightarrow> 'd \<Rightarrow> (chat \<times> 'd) res" where
  "send_input pf fuel c d =
     (if input_len c = 0 then Inr (c, d)
      else
        rbind (tcp_send pf fuel (tcp c) 0 None 0 d) (\<lambda>(_, t, d).
        rbind (drain pf fuel 3 (c\<lparr>tcp := t, window_open := False\<rparr>) d) (\<lambda>(c, d).
        rbind (wr (input c) (input_len c) 10) (\<lambda>inp.
        rbind (tcp_send pf fuel (tcp c) (input_len c + 1) (Some inp) 0 d) (\<lambda>(rc, t, d).
        rbind (wr inp (input_len c) 0) (\<lambda>inp.
        let c = c\<lparr>tcp := t, window_open := False, input := inp, input_len := 0\<rparr> in
        rbind (c_str (input c) 0) (\<lambda>s.
        rbind (log_line s c) (\<lambda>c.
        rbind (if rc < 0 then log_line (asc ''*** send failed'') c else Inr c) (\<lambda>c. Inr (c, d))))))))))"

section \<open>The keyboard\<close>

definition handle_key :: "'d platform \<Rightarrow> nat \<Rightarrow> u16 \<Rightarrow> chat \<Rightarrow> 'd \<Rightarrow> (int \<times> chat \<times> 'd) res" where
  "handle_key pf fuel k c d =
     (if k = KEY_ENTER then rbind (send_input pf fuel c d) (\<lambda>(c, d). Inr (0, c, d))
      else if k = KEY_LEFT \<or> k = KEY_DELETE \<or> k = KEY_CTRL_DEL then
        (if input_len c \<noteq> 0 then rbind (draw_input (c\<lparr>input_len := input_len c - 1\<rparr>)) (\<lambda>c. Inr (0, c, d))
         else Inr (0, c, d))
      else if k = KEY_QUIT then Inr (- 1, c, d)
      else if 32 \<le> k \<and> k < 127 \<and> input_len c < MAX_INPUT then
        rbind (wr (input c) (input_len c) (ucast k)) (\<lambda>inp.
        rbind (draw_input (c\<lparr>input := inp, input_len := input_len c + 1\<rparr>)) (\<lambda>c. Inr (0, c, d)))
      else Inr (0, c, d))"

section \<open>The main program\<close>

text \<open>The question for the port, and the loop that asks it until the answer is not 0.\<close>

fun ask_port :: "'k keyboard \<Rightarrow> nat \<Rightarrow> bytes \<Rightarrow> chat \<Rightarrow> 'k \<Rightarrow> (u16 \<times> chat \<times> 'k) res" where
  "ask_port kb 0 line c ks = Inl OutOfFuel"
| "ask_port kb (Suc fuel) line c ks =
     rbind (read_line kb fuel line (length line) ks) (\<lambda>(line, out, ks).
     let c = putcs (asc ''Chat server port: '' @ out) c in
     rbind (rd line 0) (\<lambda>ch.
     rbind (if is_digit ch then parse_number line else Inr (0, line)) (\<lambda>(port, _).
       if port = 0 then ask_port kb fuel line c ks else Inr (port, c, ks))))"

text \<open>One turn of the polling loop: a key, if there is one, and a poll of the connection.\<close>

definition chat_turn ::
  "'d platform \<Rightarrow> 'k keyboard \<Rightarrow> nat \<Rightarrow> chat \<Rightarrow> 'k \<Rightarrow> 'd \<Rightarrow> (bool \<times> chat \<times> 'k \<times> 'd) res" where
  "chat_turn pf kb fuel c ks d =
     (let (k, ks) = in_GetKey kb ks in
      rbind (if k \<noteq> 0 then handle_key pf fuel k c d else Inr (0, c, d)) (\<lambda>(rc, c, d).
      if rc < 0 then Inr (False, c, ks, d)
      else rbind (poll_net pf fuel c d) (\<lambda>(rc, c, d). Inr (rc \<ge> 0, c, ks, d))))"

fun chat_loop :: "'d platform \<Rightarrow> 'k keyboard \<Rightarrow> nat \<Rightarrow> chat \<Rightarrow> 'k \<Rightarrow> 'd \<Rightarrow> (chat \<times> 'k \<times> 'd) res" where
  "chat_loop pf kb 0 c ks d = Inl OutOfFuel"
| "chat_loop pf kb (Suc fuel) c ks d =
     rbind (chat_turn pf kb fuel c ks d) (\<lambda>(go, c, ks, d).
       if go then chat_loop pf kb fuel c ks d else Inr (c, ks, d))"

definition chat_init :: chat where
  "chat_init = \<lparr>tcp = tcp_static, input = replicate (MAX_INPUT + 2) 0, input_len = 0, window_open = False, outp = [],
     logline = replicate (SCREEN_COLS + 1) 0, logline_len = 0, logline_emitted = False\<rparr>"

text \<open>\<^verbatim>\<open>main\<close> up to the call of \<^verbatim>\<open>tcp_connect\<close>; \<open>line\<close> is its uninitialised array.\<close>

definition chat_setup :: "'k keyboard \<Rightarrow> nat \<Rightarrow> bytes \<Rightarrow> 'k \<Rightarrow> (chat \<times> 'k) res" where
  "chat_setup kb fuel line ks =
     (let ks = in_GetKeyReset kb ks;
          c = putcs ([12] @ asc ''Z80 CHAT'' @ [10, 10]) chat_init;
          c = c\<lparr>tcp := (tcp c)\<lparr>tcp_ip := (tcp_ip (tcp c))\<lparr>saddr := 0x020200c0\<rparr>\<rparr>\<rparr>;
          c = putcs (asc ''My IP address: '' @ dotted (le32 (saddr (tcp_ip (tcp c)))) @ [10, 10]) c in
      rbind (ask_ip kb fuel (asc ''Chat server IP: '') line c ks) (\<lambda>(line, c, ks).
      rbind (ask_port kb fuel line c ks) (\<lambda>(port, c, ks).
      let c = c\<lparr>tcp := (tcp c)\<lparr>src_port := htons 32768, dst_port := htons port\<rparr>\<rparr> in
      Inr (putcs ([10] @ asc ''Connecting ...'' @ [10]) c, ks))))"

definition chat_main :: "'d platform \<Rightarrow> 'k keyboard \<Rightarrow> nat \<Rightarrow> bytes \<Rightarrow> int \<Rightarrow> int \<Rightarrow> 'k \<Rightarrow> 'd \<Rightarrow> (int \<times> chat \<times> 'k \<times> 'd) res" where
  "chat_main pf kb fuel line baud parity ks d =
     rbind (chat_setup kb fuel line ks) (\<lambda>(c, ks).
     let (_, d) = slip_init pf baud parity d in
     rbind (tcp_connect pf fuel (tcp c) d) (\<lambda>(rc, t, d).
     let c = c\<lparr>tcp := t\<rparr> in
     if rc < 0 then Inr (1, putcs (asc ''Failed to connect: '' @ dec_int rc @ [10]) c, ks, d)
     else
       rbind (log_line (asc ''*** connected. CAPS+SYM+C quits.'')
         (putcs [12] (c\<lparr>input_len := 0, logline_len := 0, logline_emitted := False, window_open := False\<rparr>))) (\<lambda>c.
       rbind (chat_loop pf kb fuel c ks d) (\<lambda>(c, ks, d).
         Inr (0, putcs (at INPUT_ROW 0 @ [10]) c, ks, d)))))"

section \<open>The screen\<close>

text \<open>The text received and not yet shown, and the state between two operations.\<close>

definition pending :: "chat \<Rightarrow> bytes" where
  "pending c = take (logline_len c) (logline c)"

definition chat_ok :: "chat \<Rightarrow> bool" where
  "chat_ok c \<longleftrightarrow> tcp_wf (tcp c) \<and> length (tcp_pkt (tcp c)) = 552 \<and>
     length (input c) = MAX_INPUT + 2 \<and> input_len c \<le> MAX_INPUT \<and> plain (typed c) \<and>
     length (logline c) = SCREEN_COLS + 1 \<and> logline_len c < SCREEN_COLS \<and> plain (pending c)"

lemma draw_input_ok:
  assumes "input_len c \<le> length (input c)" and "plain (typed c)"
  shows "draw_input c = Inr (putcs (input_output (input_text (typed c))) c)"
proof -
  have "c_str (input_text (typed c) @ 0 # []) 0 = Inr (input_text (typed c))"
    using plain_no_zero [OF plain_input_text [OF assms(2)]] by (rule c_str_append)
  then show ?thesis
    using draw_row_ok [OF assms(1)] by (simp add: draw_input_def puts_raw_def typed_def input_output_def)
qed

lemma log_line_ok:
  assumes "chat_ok c"
  shows "log_line s c = Inr (putcs (log_output s (input_text (typed c))) c)"
  using assms draw_input_ok [of "putcs (at INPUT_ROW 0 @ s @ pad_loop (length s) @ [10]) c"]
  by (simp add: log_line_def chat_ok_def putcs_def typed_def log_output_def)

text \<open>The output of one \<^verbatim>\<open>log_line\<close>, and the interface to the screen.\<close>

definition chat_log_out :: "bytes \<Rightarrow> chat \<Rightarrow> bytes" where
  "chat_log_out s c = (case log_line s c of Inl _ \<Rightarrow> [] | Inr c' \<Rightarrow> drop (length (outp c)) (outp c'))"

interpretation chat_screen: log_screen chat_ok "\<lambda>c. input_text (typed c)" chat_log_out
  by unfold_locales
    (auto simp: chat_ok_def plain_input_text chat_log_out_def log_line_ok putcs_def)

lemma log_line_out: "chat_ok c \<Longrightarrow> plain s \<Longrightarrow> log_line s c = Inr (putcs (chat_log_out s c) c)"
  by (simp add: chat_screen.log_out_eq log_line_ok)

section \<open>Received data as text\<close>

text \<open>
  The same as \<^verbatim>\<open>logline_char\<close> on lists: the text that is pending, whether a part of the line has been
  shown, and the texts that are shown.
\<close>

definition feed :: "u8 \<Rightarrow> bytes \<times> bool \<Rightarrow> (bytes \<times> bool) \<times> bytes list" where
  "feed ch st = (case st of (acc, em) \<Rightarrow>
     if ch = 10 then (([], False), if acc \<noteq> [] \<or> \<not> em then [acc] else [])
     else let acc = acc @ visible ch in
       if length acc = 64 then (([], True), [acc]) else ((acc, em), []))"

text \<open>A state with this text pending, after these texts were logged.\<close>

definition shown :: "bytes list \<Rightarrow> chat \<Rightarrow> chat \<Rightarrow> bool" where
  "shown texts c c' \<longleftrightarrow> chat_ok c' \<and> outp c' = outp c @ concat (map (\<lambda>t. chat_log_out t c) texts) \<and>
     tcp c' = tcp c \<and> input c' = input c \<and> input_len c' = input_len c \<and> window_open c' = window_open c \<and>
     (\<forall>t \<in> set texts. plain t)"

lemma chat_log_out_cong: "chat_ok c \<Longrightarrow> chat_ok c' \<Longrightarrow> typed c' = typed c \<Longrightarrow> plain t \<Longrightarrow> chat_log_out t c' = chat_log_out t c"
  by (simp add: chat_screen.log_out_eq)

lemma shown_trans: "shown xs c c1 \<Longrightarrow> shown ys c1 c2 \<Longrightarrow> chat_ok c \<Longrightarrow> shown (xs @ ys) c c2"
proof -
  assume a: "shown xs c c1" "shown ys c1 c2" "chat_ok c"
  then have "map (\<lambda>t. chat_log_out t c1) ys = map (\<lambda>t. chat_log_out t c) ys"
    by (auto simp: shown_def typed_def intro!: chat_log_out_cong)
  with a show ?thesis by (auto simp: shown_def)
qed

lemma logline_flush_ok:
  assumes "chat_ok (c\<lparr>logline_len := 0\<rparr>)" and "logline_len c \<le> 64" and "plain (pending c)"
  shows "\<exists>c'. logline_flush c = Inr c' \<and> shown [pending c] (c\<lparr>logline_len := 0\<rparr>) c' \<and> pending c' = [] \<and> logline_emitted c'"
proof -
  let ?l = "(logline c)[logline_len c := 0]"
  let ?c = "c\<lparr>logline := ?l, logline_len := 0, logline_emitted := True\<rparr>"
  have len: "length (logline c) = 65" using assms(1) by (simp add: chat_ok_def)
  have "?l = pending c @ 0 # drop (Suc (logline_len c)) (logline c)"
    using len assms(2) by (simp add: pending_def upd_conv_take_nth_drop)
  then have str: "c_str ?l 0 = Inr (pending c)"
    using plain_no_zero [OF assms(3)] by (simp add: c_str_append)
  have ok: "chat_ok ?c" using assms(1) by (simp add: chat_ok_def typed_def pending_def)
  have "logline_flush c = Inr (putcs (chat_log_out (pending c) ?c) ?c)"
    using len assms(2) by (simp add: logline_flush_def wr_def str log_line_out [OF ok assms(3)])
  moreover have "chat_log_out (pending c) ?c = chat_log_out (pending c) (c\<lparr>logline_len := 0\<rparr>)"
    using ok assms by (intro chat_log_out_cong) (simp_all add: typed_def)
  moreover have "chat_ok (putcs xs ?c)" for xs using ok by (simp add: chat_ok_def putcs_def typed_def pending_def)
  ultimately show ?thesis
    using assms(3) by (simp add: shown_def putcs_def) (simp add: pending_def)
qed

text \<open>A newline, and a character that is shown.\<close>

lemma logline_newline_ok:
  assumes "chat_ok c" and "feed 10 (pending c, logline_emitted c) = ((acc, em), texts)"
  shows "\<exists>c'. logline_char 10 c = Inr c' \<and> shown texts c c' \<and> pending c' = acc \<and> logline_emitted c' = em"
proof (cases "pending c \<noteq> [] \<or> \<not> logline_emitted c")
  case True
  have c: "logline_len c < 64" "plain (pending c)" "length (pending c) = logline_len c"
    using assms(1) by (auto simp: chat_ok_def pending_def)
  have "chat_ok (c\<lparr>logline_len := 0\<rparr>)" using assms(1) by (simp add: chat_ok_def typed_def pending_def)
  from logline_flush_ok [OF this _ c(2)] c(1) obtain c1 where
    c1: "logline_flush c = Inr c1" "shown [pending c] (c\<lparr>logline_len := 0\<rparr>) c1" "pending c1 = []" by auto
  have "chat_log_out (pending c) (c\<lparr>logline_len := 0\<rparr>) = chat_log_out (pending c) c"
    using assms(1) c(2) by (intro chat_log_out_cong) (auto simp: chat_ok_def typed_def pending_def)
  then have "shown [pending c] c (c1\<lparr>logline_emitted := False\<rparr>)"
    using c1(2) by (auto simp: shown_def chat_ok_def typed_def pending_def)
  then show ?thesis
    using assms(2) True c1 c(3) by (auto simp: logline_char_def feed_def) (simp_all add: pending_def)
next
  case False
  have "shown [] c c" "length (pending c) = logline_len c"
    using assms(1) by (auto simp: shown_def chat_ok_def pending_def)
  then show ?thesis
    using False assms
    by (auto simp: logline_char_def feed_def shown_def chat_ok_def typed_def pending_def)
qed

lemma logline_visible_ok:
  assumes "chat_ok c" and "feed ch (pending c, logline_emitted c) = ((acc, em), texts)" and "ch \<noteq> 10" and "visible ch = [b]"
  shows "\<exists>c'. logline_char ch c = Inr c' \<and> shown texts c c' \<and> pending c' = acc \<and> logline_emitted c' = em"
proof -
  have c: "logline_len c < 64" "length (logline c) = 65" "plain (pending c)" "length (pending c) = logline_len c"
    using assms(1) by (auto simp: chat_ok_def pending_def)
  let ?l = "(logline c)[logline_len c := b]"
  let ?c = "c\<lparr>logline := ?l, logline_len := logline_len c + 1\<rparr>"
  have b: "plain [b]" using visible_plain(1) [of ch] assms(4) by simp
  have ch: "(if ch = 9 then 32 else ch) = b" "\<not> (b < 32 \<or> b > 126)"
    using assms(4) by (auto simp: visible_def Let_def split: if_splits)
  have pend: "pending ?c = pending c @ [b]"
    using c by (simp add: pending_def take_Suc_conv_app_nth)
  have ok0: "chat_ok (?c\<lparr>logline_len := 0\<rparr>)" using assms(1) by (simp add: chat_ok_def typed_def pending_def)
  have run: "logline_char ch c = (if logline_len c + 1 = 64 then logline_flush ?c else Inr ?c)"
    using assms(3) ch c(1,2) by (simp add: logline_char_def wr_def)
  show ?thesis
  proof (cases "logline_len c + 1 = 64")
    case True
    from logline_flush_ok [OF ok0] True c(3) b pend obtain c1 where
      c1: "logline_flush ?c = Inr c1" "shown [pending ?c] (?c\<lparr>logline_len := 0\<rparr>) c1" "pending c1 = []" "logline_emitted c1"
      by auto
    have "chat_log_out (pending ?c) (?c\<lparr>logline_len := 0\<rparr>) = chat_log_out (pending ?c) c"
      using ok0 assms(1) c(3) b pend [simplified] by (intro chat_log_out_cong) (simp_all add: typed_def)
    then have "shown [pending ?c] c c1" using c1(2) by (simp add: shown_def)
    then show ?thesis using assms(2-4) True c1 c(4) pend run by (auto simp: feed_def)
  next
    case False
    have "chat_ok ?c" using assms(1) c b False pend by (simp add: chat_ok_def typed_def)
    then have "shown [] c ?c" by (simp add: shown_def)
    then show ?thesis using assms(2-4) False c(4) pend run by (auto simp: feed_def)
  qed
qed

lemma logline_char_ok:
  assumes "chat_ok c" and "feed ch (pending c, logline_emitted c) = ((acc, em), texts)"
  shows "\<exists>c'. logline_char ch c = Inr c' \<and> shown texts c c' \<and> pending c' = acc \<and> logline_emitted c' = em"
proof -
  consider "ch = 10" | "ch \<noteq> 10" "visible ch = []" | b where "ch \<noteq> 10" "visible ch = [b]"
    using visible_plain(2) [of ch] by (cases "visible ch") auto
  then show ?thesis
  proof cases
    case 1
    then show ?thesis using logline_newline_ok [OF assms(1)] assms(2) by simp
  next
    case 2
    have c: "logline_len c < 64" "length (pending c) = logline_len c" "shown [] c c"
      using assms(1) by (auto simp: chat_ok_def pending_def shown_def)
    with 2 have "length (pending c @ visible ch) \<noteq> 64" by simp
    then show ?thesis
      using assms(2) 2 c by (auto simp: logline_char_def feed_def visible_def Let_def split: if_splits)
  next
    case (3 b)
    with assms show ?thesis by (rule logline_visible_ok)
  qed
qed

text \<open>A whole segment.\<close>

fun feed_all :: "bytes \<Rightarrow> bytes \<times> bool \<Rightarrow> (bytes \<times> bool) \<times> bytes list" where
  "feed_all [] st = (st, [])"
| "feed_all (ch # cs) st = (let (st, ts) = feed ch st; (st, us) = feed_all cs st in (st, ts @ us))"

lemma show_loop_ok:
  assumes "chat_ok c" and "len \<le> length data"
    and "feed_all (take len data) (pending c, logline_emitted c) = ((acc, em), texts)"
  shows "\<exists>c'. show_loop data len c = Inr c' \<and> shown texts c c' \<and> pending c' = acc \<and> logline_emitted c' = em"
  using assms
proof (induction data len c arbitrary: texts rule: show_loop.induct)
  case (1 data c)
  then show ?case by (simp add: shown_def)
next
  case (3 b data len c)
  obtain st ts where st: "feed b (pending c, logline_emitted c) = (st, ts)" by fastforce
  obtain us where us: "feed_all (take len data) st = ((acc, em), us)" "texts = ts @ us"
    using "3.prems"(3) st by (auto split: prod.splits)
  obtain acc1 em1 where st1: "st = (acc1, em1)" by fastforce
  from logline_char_ok [OF "3.prems"(1) st [unfolded st1]] obtain c1 where
    c1: "logline_char b c = Inr c1" "shown ts c c1" "pending c1 = acc1" "logline_emitted c1 = em1" by blast
  have "chat_ok c1" using c1(2) by (simp add: shown_def)
  from "3.IH" [OF c1(1) this] "3.prems"(2) us(1) st1 c1 obtain c2 where
    "show_loop data len c1 = Inr c2" "shown us c1 c2" "pending c2 = acc" "logline_emitted c2 = em" by auto
  then show ?case
    using c1 us(2) shown_trans [OF c1(2) _ "3.prems"(1)] by auto
qed simp

definition segment_texts :: "bytes \<Rightarrow> bytes \<times> bool \<Rightarrow> bytes list" where
  "segment_texts data st = (let ((acc, em), ts) = feed_all data st in if acc \<noteq> [] then ts @ [acc] else ts)"

text \<open>Whether the segment has ended inside a line of which a part has been shown.\<close>

definition segment_mid :: "bytes \<Rightarrow> bytes \<times> bool \<Rightarrow> bool" where
  "segment_mid data st = (let ((acc, em), ts) = feed_all data st in em \<or> acc \<noteq> [])"

lemma show_data_ok:
  assumes "chat_ok c" and "len \<le> length data"
  shows "\<exists>c'. show_data data len c = Inr c' \<and> shown (segment_texts (take len data) (pending c, logline_emitted c)) c c' \<and>
    pending c' = [] \<and> logline_emitted c' = segment_mid (take len data) (pending c, logline_emitted c)"
proof -
  obtain acc em ts where fa: "feed_all (take len data) (pending c, logline_emitted c) = ((acc, em), ts)"
    by (metis prod.exhaust)
  from show_loop_ok [OF assms fa] obtain c1 where
    c1: "show_loop data len c = Inr c1" "shown ts c c1" "pending c1 = acc" "logline_emitted c1 = em" by auto
  have ok: "chat_ok c1" using c1(2) by (simp add: shown_def)
  have len: "length (pending c1) = logline_len c1" "plain (pending c1)" "logline_len c1 < 64"
    using ok by (auto simp: chat_ok_def pending_def)
  show ?thesis
  proof (cases "acc = []")
    case True
    then show ?thesis using c1 len fa by (auto simp: show_data_def segment_texts_def segment_mid_def)
  next
    case False
    have ok0: "chat_ok (c1\<lparr>logline_len := 0\<rparr>)" using ok by (simp add: chat_ok_def typed_def pending_def)
    from logline_flush_ok [OF ok0] len obtain c2 where
      c2: "logline_flush c1 = Inr c2" "shown [pending c1] (c1\<lparr>logline_len := 0\<rparr>) c2" "pending c2 = []" "logline_emitted c2" by auto
    have "chat_log_out (pending c1) (c1\<lparr>logline_len := 0\<rparr>) = chat_log_out (pending c1) c1"
      using ok0 ok len by (intro chat_log_out_cong) (simp_all add: typed_def)
    then have "shown [pending c1] c1 c2" using c2(2) by (simp add: shown_def)
    moreover have "logline_len c1 \<noteq> 0" using False c1(3) len(1) by (metis length_0_conv)
    ultimately show ?thesis
      using shown_trans [OF c1(2) _ assms(1)] False c1 c2 fa by (auto simp: show_data_def segment_texts_def segment_mid_def)
  qed
qed

section \<open>Lines of chat\<close>

lemma feed_all_append:
  "feed_all (xs @ ys) st = (let (st, ts) = feed_all xs st; (st, us) = feed_all ys st in (st, ts @ us))"
  by (induction xs arbitrary: st) (auto simp: Let_def split: prod.splits)

lemma feed_line:
  "10 \<notin> set l \<Longrightarrow> length acc < 64 \<Longrightarrow>
   \<exists>ts acc'. feed_all l (acc, em) = ((acc', em \<or> ts \<noteq> []), ts) \<and> concat ts @ acc' = acc @ clean l \<and>
     (\<forall>t \<in> set ts. length t = 64) \<and> length acc' < 64"
proof (induction l arbitrary: acc em)
  case (Cons ch l)
  show ?case
  proof (cases "length (acc @ visible ch) = 64")
    case True
    from Cons.IH [of "[]" True] Cons.prems obtain ts acc' where
      "feed_all l ([], True) = ((acc', True), ts)" "concat ts @ acc' = clean l" "\<forall>t \<in> set ts. length t = 64" "length acc' < 64"
      by auto
    then show ?thesis
      using True Cons.prems(1) by (intro exI [of _ "(acc @ visible ch) # ts"] exI [of _ acc']) (simp add: feed_def)
  next
    case False
    then have "length (acc @ visible ch) < 64" using Cons.prems(2) visible_plain(2) [of ch] by auto
    from Cons.IH [OF _ this, of em] Cons.prems(1) obtain ts acc' where
      "feed_all l (acc @ visible ch, em) = ((acc', em \<or> ts \<noteq> []), ts)" "concat ts @ acc' = (acc @ visible ch) @ clean l"
      "\<forall>t \<in> set ts. length t = 64" "length acc' < 64" by auto
    then show ?thesis
      using False Cons.prems(1) by (intro exI [of _ ts] exI [of _ acc']) (simp add: feed_def)
  qed
qed simp

text \<open>Whole rows of a text do not depend on what follows them.\<close>

lemma log_rows_append: "length t = 64 \<Longrightarrow> x \<noteq> [] \<Longrightarrow> log_rows (t @ x) = t # log_rows x"
  by (simp add: log_rows_def rows_of_append pad_count_def)

lemma log_rows_full: "length t = 64 \<Longrightarrow> log_rows t = [t]"
  using log_rows_short [of t] by (cases t) auto

lemma log_rows_concat:
  "\<forall>t \<in> set ts. length t = 64 \<Longrightarrow> ts \<noteq> [] \<Longrightarrow>
   log_rows (concat ts @ x) = ts @ (if x = [] then [] else log_rows x)"
proof (induction ts)
  case (Cons t ts)
  show ?case
  proof (cases "ts = []")
    case True
    then show ?thesis using Cons.prems by (simp add: log_rows_full log_rows_append)
  next
    case False
    then have "concat ts @ x \<noteq> []" using Cons.prems by (cases ts) auto
    then show ?thesis using Cons False by (simp add: log_rows_append)
  qed
qed simp

lemma map_log_rows_full: "\<forall>t \<in> set ts. length t = 64 \<Longrightarrow> concat (map log_rows ts) = ts"
  by (induction ts) (simp_all add: log_rows_full)

lemma line_texts:
  assumes "10 \<notin> set l"
  shows "\<exists>ts. feed_all (l @ [10]) ([], False) = (([], False), ts) \<and> concat (map log_rows ts) = log_rows (clean l)"
proof -
  from feed_line [OF assms, of "[]" False] obtain ts acc where
    f: "feed_all l ([], False) = ((acc, ts \<noteq> []), ts)" and cl: "concat ts @ acc = clean l" and
    ts: "\<forall>t \<in> set ts. length t = 64" by auto
  show ?thesis
  proof (cases "ts = []")
    case True
    then show ?thesis using f cl by (simp add: feed_all_append feed_def)
  next
    case False
    then show ?thesis
      using f log_rows_concat [OF ts False, of acc] map_log_rows_full [OF ts]
      by (auto simp: feed_all_append feed_def simp flip: cl)
  qed
qed

lemma lines_texts:
  "\<forall>l \<in> set ls. 10 \<notin> set l \<Longrightarrow>
   \<exists>ts. feed_all (concat (map (\<lambda>l. l @ [10]) ls)) ([], False) = (([], False), ts) \<and>
     concat (map log_rows ts) = concat (map (\<lambda>l. log_rows (clean l)) ls)"
proof (induction ls)
  case (Cons l ls)
  from line_texts [of l] Cons.prems obtain ts where
    "feed_all (l @ [10]) ([], False) = (([], False), ts)" "concat (map log_rows ts) = log_rows (clean l)" by auto
  moreover from Cons obtain us where
    "feed_all (concat (map (\<lambda>l. l @ [10]) ls)) ([], False) = (([], False), us)"
    "concat (map log_rows us) = concat (map (\<lambda>l. log_rows (clean l)) ls)" by auto
  moreover have "feed_all (concat (map (\<lambda>l. l @ [10]) (l # ls))) ([], False) =
      (let (st, ts) = feed_all (l @ [10]) ([], False); (st, us) = feed_all (concat (map (\<lambda>l. l @ [10]) ls)) st in (st, ts @ us))"
    by (simp only: list.map concat.simps feed_all_append [of "l @ [10]"])
  ultimately show ?case
    by (intro exI [of _ "ts @ us"]) (simp only: Let_def prod.case map_append concat_append list.map concat.simps simp_thms)
qed simp

lemma show_data_lines:
  assumes "chat_ok c" and "pending c = []" and "\<not> logline_emitted c" and "\<forall>l \<in> set ls. 10 \<notin> set l"
    and "len \<le> length data" and "take len data = concat (map (\<lambda>l. l @ [10]) ls)"
    and "displays con log (input_text (typed c))"
  shows "\<exists>c' out. show_data data len c = Inr c' \<and> chat_ok c' \<and> outp c' = outp c @ out \<and> tcp c' = tcp c \<and>
    typed c' = typed c \<and> window_open c' = window_open c \<and>
    displays (con_puts out con) (log @ concat (map (\<lambda>l. log_rows (clean l)) ls)) (input_text (typed c))"
proof -
  from lines_texts [OF assms(4)] obtain ts where
    ts: "feed_all (concat (map (\<lambda>l. l @ [10]) ls)) ([], False) = (([], False), ts)"
      "concat (map log_rows ts) = concat (map (\<lambda>l. log_rows (clean l)) ls)" by blast
  from show_data_ok [OF assms(1,5)] assms(2,3,6) ts(1) obtain c' where
    c': "show_data data len c = Inr c'" "shown ts c c'" by (auto simp: segment_texts_def)
  show ?thesis
  proof (rule exI [of _ c'], rule exI [of _ "concat (map (\<lambda>t. chat_log_out t c) ts)"], intro conjI)
    show "displays (con_puts (concat (map (\<lambda>t. chat_log_out t c) ts)) con)
        (log @ concat (map (\<lambda>l. log_rows (clean l)) ls)) (input_text (typed c))"
      using c'(2) unfolding ts(2) [symmetric]
      by (intro chat_screen.logs_display [OF assms(7,1)]) (simp add: shown_def)
  qed (use c' in \<open>simp_all add: shown_def typed_def\<close>)
qed

end
