(* ===== verification/Chat_Session.thy ===== *)
theory Chat_Session
  imports Tcp_Chat
begin

text \<open>
  Whole turns of the chat client: the invariant of its state and of what it draws, on every
  line and every keyboard, and what it does with a message that arrives and with a line that is
  typed.
\<close>

section \<open>The invariant\<close>

definition chat_next :: "chat \<Rightarrow> chat \<Rightarrow> bool" where
  "chat_next c c' \<longleftrightarrow> chat_ok c' \<and> (\<exists>xs. outp c' = outp c @ xs \<and> drawn xs)"

lemma chat_next_refl: "chat_ok c \<Longrightarrow> chat_next c c"
  by (auto simp: chat_next_def intro: drawn_Nil)

lemma chat_next_trans: "chat_next a b \<Longrightarrow> chat_next b c \<Longrightarrow> chat_next a c"
  by (auto simp: chat_next_def intro: drawn_append)

lemma chat_next_ok: "chat_next c c' \<Longrightarrow> chat_ok c'"
  by (simp add: chat_next_def)

text \<open>Changes that are not drawn.\<close>

lemma chat_next_eq: "chat_next c c' \<Longrightarrow> chat_ok c2 \<Longrightarrow> outp c2 = outp c' \<Longrightarrow> chat_next c c2"
  by (simp add: chat_next_def)

lemma chat_ok_window [simp]: "chat_ok (c\<lparr>window_open := w\<rparr>) = chat_ok c"
  by (simp add: chat_ok_def typed_def pending_def)

lemma chat_ok_tcp: "chat_ok c \<Longrightarrow> tcp_kept (tcp c) t \<Longrightarrow> chat_ok (c\<lparr>tcp := t\<rparr>)"
  by (simp add: chat_ok_def tcp_kept_def typed_def pending_def)

lemma chat_next_tcp: "chat_next c c' \<Longrightarrow> tcp_kept (tcp c') t \<Longrightarrow> chat_next c (c'\<lparr>tcp := t\<rparr>)"
  by (auto simp: chat_next_def intro: chat_ok_tcp)

lemma chat_next_window [simp]: "chat_next c (c'\<lparr>window_open := w\<rparr>) = chat_next c c'"
  by (simp add: chat_next_def)

lemma chat_next_shown: "chat_ok c \<Longrightarrow> shown texts c c' \<Longrightarrow> chat_next c c'"
proof -
  assume a: "chat_ok c" "shown texts c c'"
  have "drawn (chat_log_out t c)" if "plain t" for t
    using drawn_log [OF drawn_Nil that] chat_screen.input_row_ok [OF a(1)] chat_screen.log_out_eq [OF a(1) that] by simp
  then have "\<forall>t \<in> set ts. plain t \<Longrightarrow> drawn (concat (map (\<lambda>t. chat_log_out t c) ts))" for ts
    by (induction ts) (auto intro: drawn_Nil drawn_append)
  then show ?thesis using a(2) by (auto simp: shown_def chat_next_def)
qed

lemma log_line_next:
  assumes "chat_next c c'" and "plain s"
  shows "holds_res (chat_next c) (log_line s c')"
proof -
  have ok: "chat_ok c'" using assms(1) by (rule chat_next_ok)
  have "chat_ok (putcs xs c')" for xs using ok by (simp add: chat_ok_def putcs_def typed_def pending_def)
  then have "shown [s] c' (putcs (chat_log_out s c') c')" using assms(2) by (simp add: shown_def putcs_def)
  then show ?thesis
    using chat_next_trans [OF assms(1)] chat_next_shown [OF ok] log_line_out [OF ok assms(2)] by simp
qed

lemma show_data_next:
  assumes "chat_next c c'" and "len \<le> length data"
  shows "holds_res (chat_next c) (show_data data len c')"
  using show_data_ok [OF chat_next_ok [OF assms(1)] assms(2)] chat_next_trans [OF assms(1)]
    chat_next_shown [OF chat_next_ok [OF assms(1)]] by auto

lemma draw_input_next:
  assumes "chat_next c c'" and "chat_ok c2" and "outp c2 = outp c'"
  shows "holds_res (chat_next c) (draw_input c2)"
proof -
  have "draw_input c2 = Inr (putcs (input_output (input_text (typed c2))) c2)"
    using assms(2) by (intro draw_input_ok) (simp_all add: chat_ok_def)
  moreover have "drawn (input_output (input_text (typed c2)))"
    using drawn_input [OF drawn_Nil plain_input_text [of "typed c2"]] assms(2) by (simp add: chat_ok_def)
  moreover have "chat_ok (putcs xs c2)" for xs using assms(2) by (simp add: chat_ok_def putcs_def typed_def pending_def)
  ultimately show ?thesis
    using assms(1,3) by (auto simp: chat_next_def putcs_def intro: drawn_append)
qed

lemma plain_messages:
  "plain (asc ''*** connection reset by peer'')" "plain (asc ''*** server closed the connection'')"
  "plain (asc ''*** send failed'')" "plain (asc ''*** connected. CAPS+SYM+C quits.'')"
  by (simp_all add: asc_def)

section \<open>Every turn keeps it\<close>

lemma chat_ok_wf: "chat_ok c \<Longrightarrow> tcp_wf (tcp c)"
  by (simp add: chat_ok_def)

lemma send_ack_next:
  assumes "chat_next c c'"
  shows "holds_res (\<lambda>(rc, t, d'). chat_next c (c'\<lparr>tcp := t\<rparr>)) (tcp_send pf fuel (tcp c') 0 None w d)"
  using chat_ok_wf [OF chat_next_ok [OF assms]] tcp_wf_room [of "tcp c'"]
  by (intro holds_res_mono [OF stack.send_safe]) (auto simp: data_ok_def intro: chat_next_tcp [OF assms])

lemma recv_next:
  assumes "chat_next c c'" and "0 \<le> EAGAIN pf"
  shows "holds_res (\<lambda>(rc, t, d'). chat_next c (c'\<lparr>tcp := t\<rparr>) \<and> nat rc \<le> length (tcp_rx_buffer t))
    (tcp_recv_timeout pf fuel (tcp c') 0 to d)"
  using chat_ok_wf [OF chat_next_ok [OF assms(1)]] assms(2)
  by (intro holds_res_mono [OF stack.recv_safe]) (auto simp: rx_bound_def intro: chat_next_tcp [OF assms(1)])

lemma poll_net_next:
  assumes "chat_next c c'" and "0 \<le> EAGAIN pf"
  shows "holds_res (\<lambda>(rc, c2, d'). chat_next c c2) (poll_net pf fuel c' d)"
proof -
  have opened: "holds_res (\<lambda>(c2, d'). chat_next c c2)
      (if \<not> window_open c' then rbind (tcp_send pf fuel (tcp c') 0 None RX_WINDOW d) (\<lambda>(_, t, d).
         Inr (c'\<lparr>tcp := t, window_open := True\<rparr>, d)) else Inr (c', d))"
    using assms(1) by (auto intro!: holds_res_rbindI [OF send_ack_next [OF assms(1)]])
  have log: "holds_res (\<lambda>(rc, c2, d'). chat_next c c2) (rbind (log_line s c2) (\<lambda>c. Inr (r, c, e)))"
    if "chat_next c c2" "plain s" for s c2 r and e :: 'a
    by (rule holds_res_rbindI [OF log_line_next [OF that]]) simp
  have show': "holds_res (\<lambda>(rc, c2, d'). chat_next c c2) (rbind (show_data data len (c2\<lparr>window_open := w\<rparr>)) (\<lambda>c. Inr (r, c, e)))"
    if "chat_next c c2" "len \<le> length data" for c2 r data len w and e :: 'a
    by (rule holds_res_rbindI [OF show_data_next]) (use that in simp_all)
  have flags: "holds_res (\<lambda>(rc, c2, d'). chat_next c c2) (rbind (rd (tcp_pkt (tcp c2)) (20 + 13)) (\<lambda>fl.
      if fl AND TCP_FIN \<noteq> 0 then rbind (log_line (asc ''*** server closed the connection'') c2) (\<lambda>c. Inr (- 1, c, e))
      else Inr (0, c2, e)))" if "chat_next c c2" for c2 and e :: 'a
  proof -
    have "33 < length (tcp_pkt (tcp c2))" using chat_next_ok [OF that] by (simp add: chat_ok_def)
    then show ?thesis using that by (auto simp: rd_def intro!: log plain_messages)
  qed
  show ?thesis
    unfolding poll_net_def
  proof (rule holds_res_rbindI [OF opened], clarify, rule holds_res_rbindI [OF recv_next [OF _ assms(2)]], assumption, clarify)
    fix c1 :: chat and rc t and e :: 'a
    assume t: "chat_next c (c1\<lparr>tcp := t\<rparr>)" "nat rc \<le> length (tcp_rx_buffer t)"
    show "holds_res (\<lambda>(rc, c2, d'). chat_next c c2) (let c = c1\<lparr>tcp := t\<rparr> in
       if rc = - EAGAIN pf then Inr (0, c, e)
       else if rc = - ERESET then rbind (log_line (asc ''*** connection reset by peer'') c) (\<lambda>c. Inr (- 1, c, e))
       else if rc < 0 then Inr (0, c, e)
       else if rc > 0 then rbind (show_data (tcp_rx_buffer (tcp c)) (nat rc) (c\<lparr>window_open := False\<rparr>)) (\<lambda>c. Inr (0, c, e))
       else rbind (rd (tcp_pkt (tcp c)) (20 + 13)) (\<lambda>fl.
         if fl AND TCP_FIN \<noteq> 0 then rbind (log_line (asc ''*** server closed the connection'') c) (\<lambda>c. Inr (- 1, c, e))
         else Inr (0, c, e)))"
      unfolding Let_def
      by (intro holds_res_if log [OF t(1) plain_messages(1)] show' [OF t(1)] flags [OF t(1)]) (use t in simp_all)
  qed
qed

lemma drain_next:
  "chat_next c c' \<Longrightarrow> 0 \<le> EAGAIN pf \<Longrightarrow>
   holds_res (\<lambda>(c2, d'). chat_next c c2 \<and> input c2 = input c' \<and> input_len c2 = input_len c') (drain pf fuel left c' d)"
proof (induction left arbitrary: c' d)
  case (Suc left)
  have shw: "holds_res (\<lambda>c2. chat_next c c2 \<and> input c2 = input c' \<and> input_len c2 = input_len c')
      (if rc > 0 then show_data (tcp_rx_buffer (tcp c3)) (nat rc) c3 else Inr c3)"
    if t: "chat_next c c3" "nat rc \<le> length (tcp_rx_buffer (tcp c3))" "input c3 = input c'" "input_len c3 = input_len c'" for rc c3
    using show_data_ok [OF chat_next_ok [OF t(1)] t(2)] t chat_next_trans [OF t(1)] chat_next_shown [OF chat_next_ok [OF t(1)]]
    by (auto simp: shown_def)
  show ?case
    unfolding drain.simps
  proof (rule holds_res_rbindI [OF recv_next [OF Suc.prems]], clarify)
    fix rc t d1
    assume t: "chat_next c (c'\<lparr>tcp := t\<rparr>)" "nat rc \<le> length (tcp_rx_buffer t)"
    have next_turn: "holds_res (\<lambda>(c2, d'). chat_next c c2 \<and> input c2 = input c' \<and> input_len c2 = input_len c') (drain pf fuel left c2 d1)"
      if "chat_next c c2 \<and> input c2 = input c' \<and> input_len c2 = input_len c'" for c2
      using that Suc.IH [of c2 d1] Suc.prems(2) by simp
    show "holds_res (\<lambda>(c2, d'). chat_next c c2 \<and> input c2 = input c' \<and> input_len c2 = input_len c')
      (let c = c'\<lparr>tcp := t\<rparr> in
       rbind (if 0 < rc then show_data (tcp_rx_buffer (tcp c)) (nat rc) c else Inr c) (\<lambda>c. drain pf fuel left c d1))"
      unfolding Let_def by (rule holds_res_rbindI [OF shw next_turn]) (use t in simp_all)
  qed
qed (simp add: chat_next_def)

lemma typed_store:
  assumes "chat_ok c" and "input_len c < MAX_INPUT" and "32 \<le> k" and "k < (127 :: u16)"
  shows "chat_ok (c\<lparr>input := (input c)[input_len c := ucast k], input_len := input_len c + 1\<rparr>)"
  using assms ucast_key [OF assms(3,4)]
  by (simp add: chat_ok_def typed_def pending_def take_Suc_conv_app_nth)

lemma typed_delete: "chat_ok c \<Longrightarrow> chat_ok (c\<lparr>input_len := input_len c - 1\<rparr>)"
  using set_take_subset_set_take [of "input_len c - 1" "input_len c" "input c"]
  by (auto simp: chat_ok_def typed_def pending_def plain_def)

lemma typed_string:
  assumes "chat_ok c"
  shows "c_str ((input c)[input_len c := 10, input_len c := 0]) 0 = Inr (typed c)"
proof -
  have "(input c)[input_len c := 10, input_len c := 0] = typed c @ 0 # drop (Suc (input_len c)) (input c)"
    using assms by (simp add: chat_ok_def typed_def upd_conv_take_nth_drop)
  then show ?thesis
    using assms by (simp add: c_str_append plain_no_zero chat_ok_def)
qed

text \<open>The pieces of \<^verbatim>\<open>send_input\<close> after the drain.\<close>

lemma send_line_next:
  assumes "chat_next c c'" and "length inp = 82"
  shows "holds_res (\<lambda>(rc, t, d'). chat_next c (c'\<lparr>tcp := t\<rparr>)) (tcp_send pf fuel (tcp c') (input_len c' + 1) (Some inp) 0 e)"
  using chat_next_ok [OF assms(1)] assms(2)
  by (intro holds_res_mono [OF stack.send_safe])
    (auto simp: chat_ok_def data_ok_def intro: chat_next_tcp [OF assms(1)])

lemma input_emptied_next:
  assumes "chat_next c (c'\<lparr>tcp := t\<rparr>)"
  shows "chat_next c (c'\<lparr>tcp := t, window_open := False, input := (input c')[input_len c' := 10, input_len c' := 0], input_len := 0\<rparr>)"
  using chat_next_ok [OF assms] by (intro chat_next_eq [OF assms]) (simp_all add: chat_ok_def typed_def pending_def)

lemma echo_typed_next:
  assumes "chat_ok c2" and "chat_next c c3"
  shows "holds_res (\<lambda>(c2, d'). chat_next c c2)
      (rbind (c_str ((input c2)[input_len c2 := 10, input_len c2 := 0]) 0) (\<lambda>s.
       rbind (log_line s c3) (\<lambda>c.
       rbind (if rc < (0 :: int) then log_line (asc ''*** send failed'') c else Inr c) (\<lambda>c. Inr (c, e)))))"
proof -
  have failed: "holds_res (chat_next c) (if rc < 0 then log_line (asc ''*** send failed'') c4 else Inr c4)"
    if "chat_next c c4" for c4
    using that log_line_next [OF that plain_messages(3)] by simp
  have "plain (typed c2)" using assms(1) by (simp add: chat_ok_def)
  show ?thesis
    unfolding typed_string [OF assms(1)] rbind_Inr
    by (rule holds_res_rbindI [OF log_line_next [OF assms(2) \<open>plain (typed c2)\<close>]], rule holds_res_rbindI [OF failed]) auto
qed

lemma send_input_next:
  assumes "chat_next c c'" and "0 \<le> EAGAIN pf"
  shows "holds_res (\<lambda>(c2, d'). chat_next c c2) (send_input pf fuel c' d)"
proof (cases "input_len c' = 0")
  case False
  show ?thesis
    unfolding send_input_def
  proof (rule holds_res_if, simp add: False, rule holds_res_rbindI [OF send_ack_next [OF assms(1)]], clarify,
      rule holds_res_rbindI [OF drain_next [OF _ assms(2)]], simp, clarify)
    fix c2 :: chat and e
    assume c2: "chat_next c c2"
    let ?inp = "(input c2)[input_len c2 := 10]"
    have len: "input_len c2 < length (input c2)" "length (input c2) = 82" using chat_next_ok [OF c2] by (simp_all add: chat_ok_def)
    then have store: "wr (input c2) (input_len c2) 10 = Inr ?inp" "wr ?inp (input_len c2) 0 = Inr (?inp[input_len c2 := 0])"
      by (simp_all add: wr_def)
    show "holds_res (\<lambda>(c2, d'). chat_next c c2)
      (rbind (wr (input c2) (input_len c2) 10) (\<lambda>inp.
       rbind (tcp_send pf fuel (tcp c2) (input_len c2 + 1) (Some inp) 0 e) (\<lambda>(rc, t, d).
       rbind (wr inp (input_len c2) 0) (\<lambda>inp.
        let c = c2\<lparr>tcp := t, window_open := False, input := inp, input_len := 0\<rparr> in
        rbind (c_str (input c) 0) (\<lambda>s.
        rbind (log_line s c) (\<lambda>c.
        rbind (if rc < 0 then log_line (asc ''*** send failed'') c else Inr c) (\<lambda>c. Inr (c, d))))))))"
      unfolding store rbind_Inr
      by (rule holds_res_rbindI [OF send_line_next [OF c2]])
        (use len in \<open>auto simp: Let_def store(2) intro!: echo_typed_next [OF chat_next_ok [OF c2], simplified]
          input_emptied_next [simplified]\<close>)
  qed
qed (use assms(1) in \<open>simp add: send_input_def\<close>)

lemma handle_key_next:
  assumes "chat_next c c'" and "0 \<le> EAGAIN pf"
  shows "holds_res (\<lambda>(rc, c2, d'). chat_next c c2) (handle_key pf fuel k c' d)"
proof -
  have draw: "holds_res (\<lambda>(rc, c2, d'). chat_next c c2) (rbind (draw_input c2) (\<lambda>c. Inr (r, c, d)))"
    if "chat_ok c2" "outp c2 = outp c'" for c2 r
    by (rule holds_res_rbindI [OF draw_input_next [OF assms(1) that]]) simp
  have send: "holds_res (\<lambda>(rc, c2, d'). chat_next c c2) (rbind (send_input pf fuel c' d) (\<lambda>(c, d). Inr (0, c, d)))"
    by (rule holds_res_rbindI [OF send_input_next [OF assms]]) auto
  have ok: "chat_ok c'" using assms(1) by (rule chat_next_ok)
  have store: "wr (input c') (input_len c') v = Inr ((input c')[input_len c' := v])" for v
    using ok by (simp add: chat_ok_def wr_def)
  show ?thesis
    unfolding handle_key_def store rbind_Inr
    by (intro holds_res_if send draw) (use assms(1) ok typed_store [OF ok] typed_delete [OF ok] in simp_all)
qed

lemma chat_turn_next:
  assumes "chat_next c c'" and "0 \<le> EAGAIN pf"
  shows "holds_res (\<lambda>(go, c2, ks', d'). chat_next c c2) (chat_turn pf kb fuel c' ks d)"
proof -
  obtain k ks1 where k: "in_GetKey kb ks = (k, ks1)" by fastforce
  have key: "holds_res (\<lambda>(rc, c2, d'). chat_next c c2) (if k \<noteq> 0 then handle_key pf fuel k c' d else Inr (0, c', d))"
    using assms(1) handle_key_next [OF assms] by simp
  show ?thesis
    unfolding chat_turn_def k Let_def prod.case
    by (rule holds_res_rbindI [OF key], clarify, rule holds_res_if, simp,
        rule holds_res_rbindI [OF poll_net_next [OF _ assms(2)]]) auto
qed

lemma chat_loop_next:
  "chat_next c c' \<Longrightarrow> 0 \<le> EAGAIN pf \<Longrightarrow> holds_res (\<lambda>(c2, ks', d'). chat_next c c2) (chat_loop pf kb fuel c' ks d)"
proof (induction fuel arbitrary: c' ks d)
  case (Suc fuel)
  show ?case
    unfolding chat_loop.simps
    by (rule holds_res_rbindI [OF chat_turn_next [OF Suc.prems]], clarify, rule holds_res_if, rule Suc.IH) (simp_all add: Suc.prems)
qed simp

section \<open>The whole program\<close>

lemma ask_port_safe:
  assumes "tcp_wf (tcp c)" and "0 < length line"
  shows "holds_res (\<lambda>(port, c', ks'). asked c c') (ask_port kb fuel line c ks)"
  using assms
proof (induction fuel arbitrary: line c ks)
  case (Suc fuel)
  have num: "holds_res (\<lambda>_. True) (if is_digit ch then parse_number l else Inr (0, l))" if "0 \<in> set l" for ch l
    using holds_res_mono [OF parse_digits_safe [OF that]] by (simp add: parse_number_def)
  have first: "holds_res (\<lambda>_. True) (rd l 0)" if "0 \<in> set l" for l
    using that by (cases l) (auto simp: rd_def)
  have ok: "asked c (putcs out c)" for out using Suc.prems(1) by (rule asked_putcs)
  have tail: "holds_res (\<lambda>(port, c', ks'). asked c c') (ask_port kb fuel l (putcs out c) ks')"
    if "length l = length line" for l out ks'
    using that Suc.prems(2) by (intro holds_res_mono [OF Suc.IH]) (auto simp: asked_wf [OF ok] intro: asked_trans [OF ok])
  show ?case
    unfolding ask_port.simps Let_def
    by (rule holds_res_rbindI [OF read_line_safe [OF refl Suc.prems(2)]], clarify)
      (rule holds_res_rbindI [OF first], assumption, rule holds_res_rbindI [OF num], assumption, clarify, rule holds_res_if,
        rule tail, simp_all add: ok)
qed simp

lemma chat_setup_safe:
  assumes "0 < length line"
  shows "holds_res (\<lambda>(c, ks'). tcp_wf (tcp c) \<and> length (tcp_pkt (tcp c)) = 552 \<and> length (input c) = 82 \<and> length (logline c) = 65)
    (chat_setup kb fuel line ks)"
proof -
  define c0 where "c0 = putcs (asc ''My IP address: '' @ dotted (le32 0x020200c0) @ [10, 10])
    ((putcs ([12] @ asc ''Z80 CHAT'' @ [10, 10]) chat_init)\<lparr>tcp := tcp_static\<lparr>tcp_ip := (tcp_ip tcp_static)\<lparr>saddr := 0x020200c0\<rparr>\<rparr>\<rparr>)"
  have wf: "tcp_wf (tcp c0)" "length (tcp_pkt (tcp c0)) = 552" "length (input c0) = 82" "length (logline c0) = 65"
    by (simp_all add: c0_def putcs_def chat_init_def tcp_static_def tcp_wf_def)
  have port: "holds_res (\<lambda>(port, c', ks'). asked c0 c') (ask_port kb fuel l c ks')" if "asked c0 c" "0 < length l" for l c ks'
    using that by (intro holds_res_mono [OF ask_port_safe]) (auto dest: asked_wf intro: asked_trans)
  have keep: "tcp_wf (tcp c) \<and> length (tcp_pkt (tcp c)) = 552 \<and> length (input c) = 82 \<and> length (logline c) = 65" if "asked c0 c" for c
  proof -
    have "input c = input c0" "logline c = logline c0"
      using asked_eq [OF that, of input] asked_eq [OF that, of logline] by simp_all
    then show ?thesis using that wf by (simp add: asked_def)
  qed
  have "chat_setup kb fuel line ks =
      rbind (ask_ip kb fuel (asc ''Chat server IP: '') line c0 (in_GetKeyReset kb ks)) (\<lambda>(line, c, ks).
      rbind (ask_port kb fuel line c ks) (\<lambda>(port, c, ks).
      let c = c\<lparr>tcp := (tcp c)\<lparr>src_port := htons 32768, dst_port := htons port\<rparr>\<rparr> in
      Inr (putcs ([10] @ asc ''Connecting ...'' @ [10]) c, ks)))"
    by (simp add: chat_setup_def Let_def putcs_def chat_init_def c0_def)
  then show ?thesis
    by (simp only:) (rule holds_res_rbindI [OF ask_ip_safe [OF wf(1) assms]], clarify, rule holds_res_rbindI [OF port],
      assumption, use assms in simp, clarify, auto simp: putcs_def tcp_wf_def dest!: keep)
qed

section \<open>Properties\<close>

definition demo_chat :: "bytes \<Rightarrow> chat" where
  "demo_chat s = chat_init\<lparr>tcp := demo_tcp 7 100, input := s @ replicate (82 - length s) 0,
     input_len := length s, window_open := True\<rparr>"

lemma demo_chat_sel [simp]:
  "tcp (demo_chat s) = demo_tcp 7 100" "input_len (demo_chat s) = length s" "window_open (demo_chat s)"
  "outp (demo_chat s) = []" "pending (demo_chat s) = []" "\<not> logline_emitted (demo_chat s)" "typed (demo_chat s) = s"
  by (simp_all add: demo_chat_def chat_init_def pending_def typed_def)

lemma demo_chat_ok: "length s \<le> 80 \<Longrightarrow> plain s \<Longrightarrow> chat_ok (demo_chat s)"
proof -
  have "logline (demo_chat s) = replicate 65 0" "logline_len (demo_chat s) = 0" "length (input (demo_chat s)) = max 82 (length s)"
    by (simp_all add: demo_chat_def chat_init_def)
  then show "length s \<le> 80 \<Longrightarrow> plain s \<Longrightarrow> ?thesis" unfolding chat_ok_def by simp
qed

text \<open>
  C33: a turn of the chat client is safe whatever the line brings and whatever is typed. It never
  leaves a buffer, keeps the invariant of the state (the lengths of the lines, only printable
  characters in them, a well-formed connection), and all it prints are whole log lines and
  input rows: a screen that was in order stays in order, and no received byte reaches the
  console as a control code.
\<close>

theorem chat_turn_safe:
  assumes "chat_ok c" and "0 \<le> EAGAIN pf" and "con_ok con"
  shows "holds_res (\<lambda>(go, c', ks', d'). chat_ok c' \<and> (\<exists>xs. outp c' = outp c @ xs \<and> drawn xs \<and> con_ok (con_puts xs con)))
    (chat_turn pf kb fuel c ks d)"
  by (rule holds_res_mono [OF chat_turn_next [OF chat_next_refl [OF assms(1)] assms(2)]])
    (use con_ok_drawn [OF _ assms(3)] in \<open>auto simp: chat_next_def\<close>)

theorem chat_turn_safe_witness:
  "holds_res (\<lambda>(go, c', ks', d'). chat_ok c' \<and>
      (\<exists>xs. outp c' = outp (demo_chat [104]) @ xs \<and> drawn xs \<and> con_ok (con_puts xs fresh_console)))
    (chat_turn script_line script_keys 9 (demo_chat [104]) [105] ([Some END, Some 1, Some END], []))"
  by (rule chat_turn_safe [OF demo_chat_ok _ con_ok_fresh]) simp_all

text \<open>
  C34: the whole chat program is memory safe: on every line and every keyboard, with the array for
  the answers uninitialised, it never leaves a buffer, from the first question to the end.
\<close>

theorem chat_main_safe:
  assumes "0 < EAGAIN pf" and "length line = MAX_INPUT + 2"
  shows "chat_main pf kb fuel line baud parity ks d \<noteq> Inl OutOfBounds"
proof -
  obtain r d1 where init: "slip_init pf baud parity d = (r, d1)" by fastforce
  have conn: "holds_res (\<lambda>(rc, t, d'). tcp_wf t \<and> length (tcp_pkt t) = length (tcp_pkt t0)) (tcp_connect pf fuel t0 e)"
    if "tcp_wf t0" for t0 e
    using that tcp_connect_loop_sound [OF assms(1), of "t0\<lparr>tcp_ths := 0\<rparr>"] unfolding tcp_connect_def
    by (intro holds_res_mono [OF tcp_connect_loop_sound [OF assms(1)]]) (auto simp: same_peer_def tcp_wf_def)
  have started: "chat_ok (putcs [12] (c\<lparr>input_len := 0, logline_len := 0, logline_emitted := False, window_open := False\<rparr>))"
    if "tcp_wf (tcp c) \<and> length (tcp_pkt (tcp c)) = 552 \<and> length (input c) = 82 \<and> length (logline c) = 65" for c
    using that by (simp add: chat_ok_def putcs_def typed_def pending_def)
  have run: "holds_res (\<lambda>_. True) (rbind (log_line (asc ''*** connected. CAPS+SYM+C quits.'') c) (\<lambda>c.
       rbind (chat_loop pf kb fuel c ks e) (\<lambda>(c, ks, d). Inr (0 :: int, putcs (at INPUT_ROW 0 @ [10]) c, ks, d))))"
    if "chat_ok c" for c ks e
    using assms(1)
    by (intro holds_res_rbindI [OF log_line_next [OF chat_next_refl [OF that] plain_messages(4)]]
        holds_res_rbindI [OF chat_loop_next]) auto
  have "holds_res (\<lambda>_. True) (chat_main pf kb fuel line baud parity ks d)"
    unfolding chat_main_def
  proof (rule holds_res_rbindI [OF chat_setup_safe], use assms(2) in simp, clarify)
    fix c :: chat and ks1
    assume c: "tcp_wf (tcp c)" "length (tcp_pkt (tcp c)) = 552" "length (input c) = 82" "length (logline c) = 65"
    show "holds_res (\<lambda>_. True) (let (_, d) = slip_init pf baud parity d in rbind (tcp_connect pf fuel (tcp c) d) (\<lambda>(rc, t, d).
      let c = c\<lparr>tcp := t\<rparr> in
      if rc < 0 then Inr (1 :: int, putcs (asc ''Failed to connect: '' @ dec_int rc @ [10]) c, ks1, d)
      else rbind (log_line (asc ''*** connected. CAPS+SYM+C quits.'')
         (putcs [12] (c\<lparr>input_len := 0, logline_len := 0, logline_emitted := False, window_open := False\<rparr>))) (\<lambda>c.
       rbind (chat_loop pf kb fuel c ks1 d) (\<lambda>(c, ks, d). Inr (0, putcs (at INPUT_ROW 0 @ [10]) c, ks, d)))))"
      unfolding init Let_def prod.case
      by (rule holds_res_rbindI [OF conn [OF c(1)]], clarify, rule holds_res_if, simp, rule run, rule started)
        (use c in simp)
  qed
  then show ?thesis by (rule holds_res_no_oob)
qed

theorem chat_main_safe_witness:
  "chat_main script_line script_keys 50 (replicate 82 7) 0 0 [0x31, 13] ([], []) \<noteq> Inl OutOfBounds"
  by (rule chat_main_safe) simp_all

text \<open>
  A message of the peer appears on the screen. A data segment that arrives in order with
  whole lines is acknowledged with one packet, and its lines, each as its visible characters
  wrapped to whole rows, an empty one as an empty row, are the new end of the log; what is
  being typed stays on the last row, and the window is marked as closed so that the next poll
  opens it again.
\<close>

lemma chat_message_shown:
  assumes "chat_ok c" and "pending c = []" and "\<not> logline_emitted c" and "window_open c"
    and "1 < tcp_seq (tcp c)" and "packet_for (tcp c) m" and "seg_flags m AND TCP_RST = 0" and "data_segment m"
    and "seg_seq m = tcp_ack (tcp c)" and "arrives pf POLL_TICKS m d d1" and "length m + 2 < fuel" and "0 \<le> EAGAIN pf"
    and "drop (20 + unat (seg_ths m)) m = concat (map (\<lambda>l. l @ [10]) ls)" and "\<forall>l \<in> set ls. 10 \<notin> set l"
    and "displays con log (input_text (typed c))"
  shows "\<exists>c' a out. poll_net pf fuel c d = Inr (0, c', puts pf (slip_frame esc_byte a) d1) \<and>
    seg_ack a = tcp_ack (tcp c') \<and> tcp_ack (tcp c') = tcp_ack (tcp c) + word_of_nat (length m - 20 - unat (seg_ths m)) \<and>
    \<not> window_open c' \<and> typed c' = typed c \<and> outp c' = outp c @ out \<and>
    displays (con_puts out con) (log @ concat (map (\<lambda>l. log_rows (clean l)) ls)) (input_text (typed c))"
proof -
  define n where "n = length m - 20 - unat (seg_ths m)"
  let ?t = "tcp_sent (taken m (tcp c)) 0 []"
  let ?c = "c\<lparr>tcp := ?t, window_open := False\<rparr>"
  have wf: "tcp_wf (tcp c)" using assms(1) by (rule chat_ok_wf)
  have recv: "tcp_recv_timeout pf fuel (tcp c) 0 POLL_TICKS d =
      Inr (int n, ?t, puts pf (slip_frame esc_byte (tcp_packet (taken m (tcp c)) 0 [])) d1)"
    unfolding n_def using assms by (intro tcp_recv_taken wf) simp_all
  have n: "0 < n" using assms(8) by (auto simp: data_segment_def n_def)
  have data: "take n (tcp_rx_buffer ?t) = concat (map (\<lambda>l. l @ [10]) ls)"
    using rx_buffer_taken [OF assms(8), of "tcp c"] assms(6,13) by (simp add: packet_for_def n_def)
  have kept: "tcp_kept (tcp c) ?t" and len: "n \<le> length (tcp_rx_buffer ?t)"
    using stack.recv_safe [OF wf assms(12), of fuel 0 POLL_TICKS d] recv by (simp_all add: rx_bound_def)
  have ok: "chat_ok ?c" using chat_ok_tcp [OF assms(1) kept] by simp
  have "displays con log (input_text (typed ?c))" "pending ?c = []" "\<not> logline_emitted ?c"
    using assms(2,3,15) by (simp_all add: typed_def pending_def)
  from show_data_lines [OF ok this(2,3) assms(14) len data this(1)] obtain c' out where
    c': "show_data (tcp_rx_buffer ?t) n ?c = Inr c'" "outp c' = outp ?c @ out" "tcp c' = ?t" "typed c' = typed ?c"
      "window_open c' = window_open ?c"
      "displays (con_puts out con) (log @ concat (map (\<lambda>l. log_rows (clean l)) ls)) (input_text (typed ?c))" by auto
  have "poll_net pf fuel c d = Inr (0, c', puts pf (slip_frame esc_byte (tcp_packet (taken m (tcp c)) 0 [])) d1)"
    using n assms(4,12) c'(1) recv by (simp add: poll_net_def)
  then show ?thesis
    using c'(2-6) assms(9)
    by (intro exI [of _ c'] exI [of _ "tcp_packet (taken m (tcp c)) 0 []"] exI [of _ out]) (simp add: typed_def n_def)
qed

end
