(* ===== verification/Typing.thy ===== *)
theory Typing
  imports Line_Editing Chat_Session Irc_Talk
begin

text \<open>
  Typing in the main loops of the two clients: their handlers of a key are line editors too, after the
  same specification as \<^verbatim>\<open>read_line\<close>, with the input row of the screen instead of the echo.
\<close>

section \<open>A key in the input line\<close>

text \<open>The row of an edited line is drawn, or the key changes nothing and nothing is drawn.\<close>

definition row_edited :: "nat \<Rightarrow> u16 \<Rightarrow> bytes \<Rightarrow> bytes \<Rightarrow> bool" where
  "row_edited room k s out \<longleftrightarrow>
     out = input_output (input_text (edit_key room k s)) \<or> out = [] \<and> edit_key room k s = s"

lemma row_edited_displays:
  assumes "row_edited room k s out" and "plain s" and "displays con log (input_text s)"
  shows "displays (con_puts out con) log (input_text (edit_key room k s))"
  using assms input_displays [OF assms(3) plain_input_text [OF plain_edit_key [OF assms(2)]]] by (auto simp: row_edited_def)

text \<open>What storing and deleting do to the line.\<close>

lemma edit_key_store:
  assumes "n < room" and "n < length inp" and "32 \<le> k" and "k < 127" and "\<not> is_delete k"
  shows "take (n + 1) (inp[n := ucast k]) = edit_key room k (take n inp)"
  using assms by (simp add: edit_key_def take_Suc_conv_app_nth)

lemma edit_key_delete: "n \<le> length inp \<Longrightarrow> is_delete k \<Longrightarrow> take (n - 1) inp = edit_key room k (take n inp)"
  by (simp add: edit_key_def butlast_take)

lemma edit_key_other:
  assumes "length s \<le> room" and "is_delete k \<longrightarrow> s = []" and "\<not> is_delete k \<longrightarrow> \<not> (32 \<le> k \<and> k < 127 \<and> length s < room)"
  shows "edit_key room k s = s"
  using assms by (auto simp: edit_key_def)

text \<open>A key takes the last character, adds one, or does nothing.\<close>

lemma key_cases:
  assumes "is_delete k \<Longrightarrow> n \<noteq> 0 \<Longrightarrow> P"
    and "\<not> is_delete k \<Longrightarrow> 32 \<le> k \<Longrightarrow> k < 127 \<Longrightarrow> n < room \<Longrightarrow> P"
    and "is_delete k \<longrightarrow> n = (0 :: nat) \<Longrightarrow> \<not> is_delete k \<longrightarrow> \<not> (32 \<le> k \<and> k < 127 \<and> n < room) \<Longrightarrow> P"
  shows P
  using assms by (cases "is_delete k"; cases "n = 0"; cases "32 \<le> k \<and> k < 127 \<and> n < room") simp_all

lemma chat_key:
  assumes "chat_ok c" and "k \<noteq> KEY_ENTER" and "k \<noteq> KEY_QUIT"
  shows "\<exists>c' out. handle_key pf fuel k c d = Inr (0, c', d) \<and> typed c' = edit_key 80 k (typed c) \<and> chat_ok c' \<and>
    tcp c' = tcp c \<and> window_open c' = window_open c \<and> pending c' = pending c \<and> logline_emitted c' = logline_emitted c \<and>
    outp c' = outp c @ out \<and> row_edited 80 k (typed c) out"
proof -
  have len: "input_len c \<le> 80" "length (input c) = 82" "length (typed c) = input_len c" "plain (typed c)"
    using assms(1) by (simp_all add: chat_ok_def typed_def)
  have put: "chat_ok (putcs xs c2)" if "chat_ok c2" for xs c2
    using that by (simp add: chat_ok_def putcs_def typed_def pending_def)
  have draw: "draw_input c2 = Inr (putcs (input_output (input_text (typed c2))) c2)" if "chat_ok c2" for c2
    using that by (intro draw_input_ok) (simp_all add: chat_ok_def)
  show ?thesis
  proof (rule key_cases [of k "input_len c" _ 80])
    assume 1: "is_delete k" "input_len c \<noteq> 0"
    then have "handle_key pf fuel k c d = rbind (draw_input (c\<lparr>input_len := input_len c - 1\<rparr>)) (\<lambda>c. Inr (0, c, d))"
      using assms(2) by (auto simp: handle_key_def is_delete_def)
    then show ?thesis
      using 1 edit_key_delete [of "input_len c" "input c" k 80] len draw [OF typed_delete [OF assms(1)]] put [OF typed_delete [OF assms(1)]]
      by (simp add: putcs_def typed_def pending_def row_edited_def)
  next
    assume 2: "\<not> is_delete k" "32 \<le> k" "k < 127" "input_len c < 80"
    let ?c = "c\<lparr>input := (input c)[input_len c := ucast k], input_len := input_len c + 1\<rparr>"
    have "handle_key pf fuel k c d = rbind (draw_input ?c) (\<lambda>c. Inr (0, c, d))"
      using 2 assms(2,3) len by (auto simp: handle_key_def is_delete_def wr_def)
    then show ?thesis
      using 2 edit_key_store [of "input_len c" 80 "input c" k] len draw [OF typed_store [OF assms(1)]] put [OF typed_store [OF assms(1)]]
      by (simp add: putcs_def typed_def pending_def row_edited_def)
  next
    assume 3: "is_delete k \<longrightarrow> input_len c = 0" "\<not> is_delete k \<longrightarrow> \<not> (32 \<le> k \<and> k < 127 \<and> input_len c < 80)"
    then have "handle_key pf fuel k c d = Inr (0, c, d)"
      using assms(2,3) by (auto simp: handle_key_def is_delete_def)
    moreover have "edit_key 80 k (typed c) = typed c" using 3 len by (intro edit_key_other) auto
    ultimately show ?thesis using assms(1) by (simp add: row_edited_def)
  qed
qed

lemma irc_key:
  assumes "irc_ok c" and "k \<noteq> KEY_ENTER" and "k \<noteq> KEY_QUIT"
  shows "\<exists>c' out. irc_handle_key pf fuel k c d = Inr (0, c', d) \<and> typed c' = edit_key 100 k (typed c) \<and> tcp c' = tcp c \<and>
    outp c' = outp c @ out \<and> row_edited 100 k (typed c) out"
proof -
  have len: "input_len c \<le> 100" "length (input c) = 102" "length (typed c) = input_len c" "plain (typed c)"
    using assms(1) by (simp_all add: irc_ok_def irc_wf_def typed_def)
  show ?thesis
  proof (rule key_cases [of k "input_len c" _ 100])
    assume 1: "is_delete k" "input_len c \<noteq> 0"
    then have "irc_handle_key pf fuel k c d = rbind (irc_draw_input (c\<lparr>input_len := input_len c - 1\<rparr>)) (\<lambda>c. Inr (0, c, d))"
      using assms(2) by (auto simp: irc_handle_key_def is_delete_def)
    then show ?thesis
      using 1 edit_key_delete [of "input_len c" "input c" k 100] len by (simp add: irc_draw_input_ok putcs_def typed_def row_edited_def)
  next
    assume 2: "\<not> is_delete k" "32 \<le> k" "k < 127" "input_len c < 100"
    let ?c = "c\<lparr>input := (input c)[input_len c := ucast k], input_len := input_len c + 1\<rparr>"
    have "irc_handle_key pf fuel k c d = rbind (irc_draw_input ?c) (\<lambda>c. Inr (0, c, d))"
      using 2 assms(2,3) len by (auto simp: irc_handle_key_def is_delete_def wr_def)
    then show ?thesis
      using 2 edit_key_store [of "input_len c" 100 "input c" k] len by (simp add: irc_draw_input_ok putcs_def typed_def row_edited_def)
  next
    assume 3: "is_delete k \<longrightarrow> input_len c = 0" "\<not> is_delete k \<longrightarrow> \<not> (32 \<le> k \<and> k < 127 \<and> input_len c < 100)"
    then have "irc_handle_key pf fuel k c d = Inr (0, c, d)"
      using assms(2,3) by (auto simp: irc_handle_key_def is_delete_def)
    moreover have "edit_key 100 k (typed c) = typed c" using 3 len by (intro edit_key_other) auto
    ultimately show ?thesis by (simp add: row_edited_def)
  qed
qed

section \<open>Property\<close>

text \<open>
  C28: the input lines of the chat client and of the IRC client are line editors, with the same keys as
  \<^verbatim>\<open>read_line\<close>. Every key but ENTER and the one that quits changes the line as the specification says,
  also when the line is full or empty, sends nothing, and leaves the log as it is with the new
  line on the last row of the screen.
\<close>

theorem clients_edit_input:
  assumes "chat_ok c" and "irc_ok i" and "k \<noteq> KEY_ENTER" and "k \<noteq> KEY_QUIT"
    and "displays con log (input_text (typed c))" and "displays con' log' (input_text (typed i))"
  shows "(\<exists>c' out. handle_key pf fuel k c d = Inr (0, c', d) \<and> typed c' = edit_key 80 k (typed c) \<and> outp c' = outp c @ out \<and>
      displays (con_puts out con) log (input_text (edit_key 80 k (typed c)))) \<and>
    (\<exists>i' out. irc_handle_key pf fuel k i d = Inr (0, i', d) \<and> typed i' = edit_key 100 k (typed i) \<and> outp i' = outp i @ out \<and>
      displays (con_puts out con') log' (input_text (edit_key 100 k (typed i))))"
proof -
  have "plain (typed c)" "plain (typed i)" using assms(1,2) by (simp_all add: chat_ok_def irc_ok_def)
  then show ?thesis
    using chat_key [OF assms(1,3,4), of pf fuel d] irc_key [OF assms(2,3,4), of pf fuel d] assms(5,6)
    by (meson row_edited_displays)
qed

theorem clients_edit_input_witness:
  "(\<exists>c' out. handle_key script_line 9 0x62 (demo_chat [0x61]) ([], []) = Inr (0, c', ([], [])) \<and>
      typed c' = edit_key 80 0x62 (typed (demo_chat [0x61])) \<and> outp c' = outp (demo_chat [0x61]) @ out \<and>
      displays (con_puts out (con_puts (input_output (input_text [0x61])) fresh_console)) []
        (input_text (edit_key 80 0x62 (typed (demo_chat [0x61]))))) \<and>
    (\<exists>i' out. irc_handle_key script_line 9 0x62 (demo_irc [0x61]) ([], []) = Inr (0, i', ([], [])) \<and>
      typed i' = edit_key 100 0x62 (typed (demo_irc [0x61])) \<and> outp i' = outp (demo_irc [0x61]) @ out \<and>
      displays (con_puts out (con_puts (input_output (input_text [0x61])) fresh_console)) []
        (input_text (edit_key 100 0x62 (typed (demo_irc [0x61])))))"
  by (rule clients_edit_input [OF demo_chat_ok demo_irc_ok]) (simp_all add: fresh_displays)

end
