(* ===== verification/Hang_Up.thy ===== *)
theory Hang_Up
  imports Chat_Session Irc_Talk
begin

text \<open>
  How a session ends: the packets by which the peer hangs up, what the clients make of them, and that
  their loops end.
\<close>

section \<open>The packets\<close>

text \<open>
  \<open>farewell u m\<close>: the text for the user when \<open>m\<close> ends the session. A reset always does. A FIN does when it comes
  without data, and with data only when the data has been received before: of a FIN with new data only
  the data is seen, and the peer has to send the FIN again. A bare FIN one below the next sequence
  number is taken for a zero window probe.
\<close>

definition farewell :: "tcp_context \<Rightarrow> bytes \<Rightarrow> string option" where
  "farewell u m =
     (if seg_flags m AND TCP_RST \<noteq> 0 then Some ''*** connection reset by peer''
      else if seg_flags m AND TCP_FIN \<noteq> 0 \<and>
        (length m = 20 + unat (seg_ths m) \<and> seg_seq m + 1 \<noteq> tcp_ack u \<or> data_segment m \<and> seg_seq m < tcp_ack u)
      then Some ''*** server closed the connection''
      else None)"

text \<open>What \<^verbatim>\<open>tcp_recv_timeout\<close> makes of them.\<close>

lemma farewell_received:
  assumes "farewell u m = Some msg" and "tcp_wf u" and "1 < tcp_seq u" and "packet_for u m" and "arrives pf to m d d1"
    and "length m + 2 < fuel"
  shows "\<exists>rc u1. tcp_recv_timeout pf fuel u 0 to d = Inr (rc, u1, d1) \<and> tcp_kept u u1 \<and>
    (rc = - ERESET \<and> msg = ''*** connection reset by peer'' \<or>
     rc = 0 \<and> rd (tcp_pkt u1) (20 + 13) = Inr (seg_flags m) \<and> seg_flags m AND TCP_FIN \<noteq> 0 \<and> msg = ''*** server closed the connection'')"
proof -
  have kept: "tcp_kept u u1" if "tcp_recv_timeout pf fuel u 0 to d = Inr (rc, u1, d1)" for rc u1
    using holds_res_InrD [OF tcp_recv_timeout_safe [OF assms(2)] that] by simp
  show ?thesis
  proof (cases "seg_flags m AND TCP_RST = 0")
    case False
    then have "tcp_recv_timeout pf fuel u 0 to d = Inr (- ERESET, loaded m u, d1)"
      using assms by (intro tcp_recv_rst)
    from this kept [OF this] show ?thesis using assms(1) False by (simp add: farewell_def)
  next
    case True
    have len: "40 \<le> length m" "length m \<le> length (tcp_pkt u)" using assms(4) by (simp_all add: packet_for_def)
    have fin: "seg_flags m AND TCP_FIN \<noteq> 0" "msg = ''*** server closed the connection''"
      and cases: "length m = 20 + unat (seg_ths m) \<and> seg_seq m + 1 \<noteq> tcp_ack u \<or> data_segment m \<and> seg_seq m < tcp_ack u"
      using assms(1) True by (auto simp: farewell_def split: if_splits)
    have "tcp_recv_timeout pf fuel u 0 to d = Inr (0, ignored m u, d1)"
      using cases
    proof
      assume bare: "length m = 20 + unat (seg_ths m) \<and> seg_seq m + 1 \<noteq> tcp_ack u"
      then have "tcp_step (loaded m u) (int (length m)) = (Done 0, ignored m u)"
        using assms(3) len by (auto simp: tcp_step_def Let_def ignored_def seg_data_def)
      from tcp_recv_done [OF assms(2,4) True assms(5,6) this] show ?thesis .
    next
      assume "data_segment m \<and> seg_seq m < tcp_ack u"
      then show ?thesis using assms by (intro tcp_recv_old True) simp_all
    qed
    moreover have "rd (tcp_pkt (ignored m u)) (20 + 13) = Inr (seg_flags m)"
      using len by (simp add: rd_def seg_flags_def nth_append)
    ultimately show ?thesis using fin kept by blast
  qed
qed

section \<open>What the clients make of them\<close>

text \<open>A poll that gets the result of such a packet ends the session with the text.\<close>

lemma plain_farewell: "farewell u m = Some msg \<Longrightarrow> plain (asc msg)"
  using plain_messages by (auto simp: farewell_def split: if_splits)

lemma chat_farewell:
  assumes "chat_ok c" and "window_open c" and "farewell (tcp c) m = Some msg" and "1 < tcp_seq (tcp c)" and "packet_for (tcp c) m"
    and "arrives pf POLL_TICKS m d d1" and "length m + 2 < fuel" and "0 < EAGAIN pf" and "EAGAIN pf \<noteq> ERESET"
  shows "\<exists>c'. poll_net pf fuel c d = Inr (- 1, c', d1) \<and> chat_ok c' \<and> outp c' = outp c @ log_output (asc msg) (input_text (typed c))"
proof -
  from farewell_received [OF assms(3) chat_ok_wf [OF assms(1)] assms(4-7)] obtain rc u1 where
    r: "tcp_recv_timeout pf fuel (tcp c) 0 POLL_TICKS d = Inr (rc, u1, d1)" "tcp_kept (tcp c) u1"
      "rc = - ERESET \<and> msg = ''*** connection reset by peer'' \<or> rc = 0 \<and> rd (tcp_pkt u1) (20 + 13) = Inr (seg_flags m) \<and>
       seg_flags m AND TCP_FIN \<noteq> 0 \<and> msg = ''*** server closed the connection''" by blast
  let ?c = "c\<lparr>tcp := u1\<rparr>"
  have ok: "chat_ok ?c" by (rule chat_ok_tcp [OF assms(1) r(2)])
  note pl = plain_farewell [OF assms(3)]
  have log: "log_line (asc msg) ?c = Inr (putcs (log_output (asc msg) (input_text (typed c))) ?c)"
    using log_line_out [OF ok pl] chat_screen.log_out_eq [OF ok pl] by (simp add: typed_def)
  have "poll_net pf fuel c d = rbind (log_line (asc msg) ?c) (\<lambda>c. Inr (- 1, c, d1))"
    using r(1,3) assms(2,8,9) by (auto simp: poll_net_def)
  then show ?thesis
    using log ok by (auto simp: putcs_def chat_ok_def typed_def pending_def)
qed

lemma irc_farewell:
  assumes "irc_ok c" and "window_open c" and "farewell (tcp c) m = Some msg" and "1 < tcp_seq (tcp c)" and "packet_for (tcp c) m"
    and "arrives pf POLL_TICKS m d d1" and "length m + 2 < fuel" and "0 < EAGAIN pf" and "EAGAIN pf \<noteq> ERESET"
  shows "\<exists>c'. irc_poll_net pf fuel c d = Inr (- 1, c', d1) \<and> irc_ok c' \<and> outp c' = outp c @ log_output (asc msg) (input_text (typed c))"
proof -
  have wf: "tcp_wf (tcp c)" "irc_wf c" using assms(1) by (simp_all add: irc_ok_def irc_wf_def)
  from farewell_received [OF assms(3) wf(1) assms(4-7)] obtain rc u1 where
    r: "tcp_recv_timeout pf fuel (tcp c) 0 POLL_TICKS d = Inr (rc, u1, d1)" "tcp_kept (tcp c) u1"
      "rc = - ERESET \<and> msg = ''*** connection reset by peer'' \<or> rc = 0 \<and> rd (tcp_pkt u1) (20 + 13) = Inr (seg_flags m) \<and>
       seg_flags m AND TCP_FIN \<noteq> 0 \<and> msg = ''*** server closed the connection''" by blast
  let ?c = "c\<lparr>tcp := u1\<rparr>"
  have ok: "irc_ok ?c" using irc_wf_tcp [OF wf(2) r(2)] assms(1) by (simp add: irc_ok_def typed_def)
  have log: "irc_log_line (asc msg) ?c = Inr (irc_logged (asc msg) ?c)"
    using ok by (intro irc_log_line_ok irc_wf_input) (simp add: irc_ok_def)
  have "irc_poll_net pf fuel c d = rbind (irc_log_line (asc msg) ?c) (\<lambda>c. Inr (- 1, c, d1))"
    using r(1,3) assms(2,8,9) by (auto simp: irc_poll_net_def)
  moreover have "irc_ok (irc_logged (asc msg) ?c)"
    using irc_next_ok [OF irc_logged_next(2) [OF irc_next_refl [OF ok]]] .
  ultimately show ?thesis
    using log clean_plain [OF plain_farewell [OF assms(3)]] by (simp add: typed_def)
qed

section \<open>Properties\<close>

text \<open>
  C14: the clients end when the peer hangs up. When a packet arrives that ends the session (a reset, or
  a FIN without new data that is not a zero window probe) and no key is pressed, the loops of the
  chat client and of the IRC client return at once, without a byte sent, and the last line of the log,
  above what is being typed, says why.
\<close>

theorem clients_hang_up:
  assumes "chat_ok c" and "irc_ok i" and "tcp i = tcp c" and "window_open c" and "window_open i"
    and "farewell (tcp c) m = Some msg" and "1 < tcp_seq (tcp c)" and "packet_for (tcp c) m" and "arrives pf POLL_TICKS m d d1"
    and "length m + 2 < fuel" and "0 < EAGAIN pf" and "EAGAIN pf \<noteq> ERESET" and "in_GetKey kb ks = (0, ks')"
    and "displays con log (input_text (typed c))" and "displays con' log' (input_text (typed i))"
  shows "(\<exists>c' out. chat_loop pf kb (Suc fuel) c ks d = Inr (c', ks', d1) \<and> outp c' = outp c @ out \<and>
      displays (con_puts out con) (log @ log_rows (asc msg)) (input_text (typed c))) \<and>
    (\<exists>i' out. irc_loop pf kb (Suc fuel) i ks d = Inr (i', ks', d1) \<and> outp i' = outp i @ out \<and>
      displays (con_puts out con') (log' @ log_rows (asc msg)) (input_text (typed i)))"
proof (rule conjI)
  note pl = plain_farewell [OF assms(6)]
  from chat_farewell [OF assms(1,4,6-12)] obtain c' where
    c': "poll_net pf fuel c d = Inr (- 1, c', d1)" "outp c' = outp c @ log_output (asc msg) (input_text (typed c))" by blast
  have "displays (con_puts (log_output (asc msg) (input_text (typed c))) con) (log @ log_rows (asc msg)) (input_text (typed c))"
    using chat_screen.log_displays [OF assms(14,1) pl] chat_screen.log_out_eq [OF assms(1) pl] by simp
  then show "\<exists>c' out. chat_loop pf kb (Suc fuel) c ks d = Inr (c', ks', d1) \<and> outp c' = outp c @ out \<and>
      displays (con_puts out con) (log @ log_rows (asc msg)) (input_text (typed c))"
    using c' assms(13) by (auto simp: chat_turn_def)
  from irc_farewell [of i, unfolded assms(3), OF assms(2,5,6-12)] obtain i' where
    i': "irc_poll_net pf fuel i d = Inr (- 1, i', d1)" "outp i' = outp i @ log_output (asc msg) (input_text (typed i))" by blast
  have "displays (con_puts (log_output (asc msg) (input_text (typed i))) con') (log' @ log_rows (asc msg)) (input_text (typed i))"
    using irc_screen.log_displays [OF assms(15,2) pl] irc_screen.log_out_eq [OF assms(2) pl] by simp
  then show "\<exists>i' out. irc_loop pf kb (Suc fuel) i ks d = Inr (i', ks', d1) \<and> outp i' = outp i @ out \<and>
      displays (con_puts out con') (log' @ log_rows (asc msg)) (input_text (typed i))"
    using i' assms(13) by (auto simp: irc_turn_def)
qed

theorem clients_hang_up_witness:
  "(\<exists>c' out. chat_loop script_line script_keys (Suc 60) (demo_chat [111]) []
        (map Some (slip_frame esc_byte (demo_seg 100 7 0x11 [])) @ [], []) = Inr (c', [], ([], [])) \<and> outp c' = outp (demo_chat [111]) @ out \<and>
      displays (con_puts out (con_puts (input_output (input_text [111])) fresh_console)) ([] @ log_rows (asc ''*** server closed the connection''))
        (input_text (typed (demo_chat [111])))) \<and>
    (\<exists>i' out. irc_loop script_line script_keys (Suc 60) (demo_irc [112]) []
        (map Some (slip_frame esc_byte (demo_seg 100 7 0x11 [])) @ [], []) = Inr (i', [], ([], [])) \<and> outp i' = outp (demo_irc [112]) @ out \<and>
      displays (con_puts out (con_puts (input_output (input_text [112])) fresh_console)) ([] @ log_rows (asc ''*** server closed the connection''))
        (input_text (typed (demo_irc [112]))))"
  by (rule clients_hang_up [OF demo_chat_ok demo_irc_ok, where m = "demo_seg 100 7 0x11 []"])
    (simp_all add: farewell_def arrives_script script_keys_def fresh_displays del: append_Nil append_Nil2)

end
