(* ===== verification/Chat_Machine.thy ===== *)
theory Chat_Machine
  imports Typing Hang_Up
begin

text \<open>
  What the chat client promises, as an abstract machine over lists of texts: a user sees a log and the line
  being typed, a peer sees segments. The theory \<open>Chat_Run\<close> shows that the code implements it.
\<close>

section \<open>State and operations\<close>

text \<open>
  A segment that has been sent: sequence and acknowledgement number, window, data. The state: the rows of
  the log, the line being typed, whether the log ends inside a line of the peer, whether the window has
  been opened, the numbers of the connection, and the segments sent so far.
\<close>

type_synonym segment = "u32 \<times> u32 \<times> u16 \<times> bytes"

record chat_view =
  v_log :: "bytes list"
  v_line :: bytes
  v_mid :: bool
  v_open :: bool
  v_seq :: u32
  v_ack :: u32
  v_sent :: "segment list"

definition v_emit :: "u16 \<Rightarrow> bytes \<Rightarrow> chat_view \<Rightarrow> chat_view" where
  "v_emit w pl v = v\<lparr>v_sent := v_sent v @ [(v_seq v, v_ack v, w, pl)]\<rparr>"

definition v_show :: "bytes list \<Rightarrow> chat_view \<Rightarrow> chat_view" where
  "v_show texts v = v\<lparr>v_log := v_log v @ concat (map log_rows texts)\<rparr>"

text \<open>
  A segment with data arrives. What lies before the next expected number has been seen and only its
  acknowledgement counts; anything else is shown, the window is closed, and it is acknowledged.
\<close>

definition seg_payload :: "bytes \<Rightarrow> bytes" where
  "seg_payload m = drop (20 + unat (seg_ths m)) m"

definition v_receive :: "bytes \<Rightarrow> chat_view \<Rightarrow> chat_view" where
  "v_receive m v =
     (let v = v\<lparr>v_seq := max (v_seq v) (seg_ack m)\<rparr> in
      if seg_seq m < v_ack v then v
      else
        let data = seg_payload m;
            texts = segment_texts data ([], v_mid v);
            mid = segment_mid data ([], v_mid v);
            v = v\<lparr>v_open := False, v_ack := seg_seq m + word_of_nat (length data)\<rparr>
        in (v_show texts (v_emit 0 [] v))\<lparr>v_mid := mid\<rparr>)"

definition v_arrival :: "bytes option \<Rightarrow> chat_view \<Rightarrow> chat_view" where
  "v_arrival a v = (case a of None \<Rightarrow> v | Some m \<Rightarrow> v_receive m v)"

text \<open>A poll of the connection opens the window when it is not.\<close>

definition v_opened :: "chat_view \<Rightarrow> chat_view" where
  "v_opened v = (if v_open v then v else (v_emit RX_WINDOW [] v)\<lparr>v_open := True\<rparr>)"

text \<open>
  ENTER on a line: the window is closed, what still arrives meanwhile is received, and the line is sent.
  Answered by a segment of the peer it is shown; without an answer it is sent six times, and shown
  with a message that says so.
\<close>

definition v_enter :: "bytes option list \<Rightarrow> bytes option \<Rightarrow> chat_view \<Rightarrow> chat_view" where
  "v_enter meanwhile answer v =
     (if v_line v = [] then v
      else
        let v = fold v_arrival meanwhile ((v_emit 0 [] v)\<lparr>v_open := False\<rparr>);
            line = v_line v;
            v = v\<lparr>v_line := []\<rparr>
        in case answer of
             Some a \<Rightarrow> v_show [line] ((v_emit 0 (line @ [10]) v)\<lparr>v_seq := max (v_seq v) (seg_ack a)\<rparr>)
           | None \<Rightarrow> v_show [line, asc ''*** send failed''] ((v_emit 0 (line @ [10]) ^^ 6) v))"

section \<open>Runs\<close>

text \<open>
  One turn of the main loop: the key, 0 when there is none; for ENTER on a line what arrives while it is
  being sent and its answer; and what arrives in the poll.
\<close>

record turn =
  t_key :: u16
  t_meanwhile :: "bytes option list"
  t_answer :: "bytes option"
  t_arrival :: "bytes option"

definition v_key :: "turn \<Rightarrow> chat_view \<Rightarrow> chat_view" where
  "v_key t v =
     (if t_key t = 0 then v
      else if t_key t = KEY_ENTER then v_enter (t_meanwhile t) (t_answer t) v
      else v\<lparr>v_line := edit_key 80 (t_key t) (v_line v)\<rparr>)"

definition v_turn :: "turn \<Rightarrow> chat_view \<Rightarrow> chat_view" where
  "v_turn t v = v_arrival (t_arrival t) (v_opened (v_key t v))"

text \<open>How a run ends: by the key that quits, or by a packet with which the peer hangs up, and its message.\<close>

definition v_end :: "(bytes \<times> string) option \<Rightarrow> chat_view \<Rightarrow> chat_view" where
  "v_end e v = (case e of None \<Rightarrow> v | Some (m, msg) \<Rightarrow> v_show [asc msg] (v_opened v))"

definition v_run :: "turn list \<Rightarrow> (bytes \<times> string) option \<Rightarrow> chat_view \<Rightarrow> chat_view" where
  "v_run ts e v = v_end e (fold v_turn ts v)"

text \<open>The state after the handshake, in which the peer's SYN-ACK was \<open>m\<close>.\<close>

definition v_connected :: "bytes \<Rightarrow> chat_view" where
  "v_connected m = \<lparr>v_log = log_rows (asc ''*** connected. CAPS+SYM+C quits.''), v_line = [], v_mid = False, v_open = False,
     v_seq = 2, v_ack = seg_seq m + 1, v_sent = [(1, 0, 1, []), (2, seg_seq m + 1, 0, [])]\<rparr>"

section \<open>The line and the keyboard of a run\<close>

text \<open>What the serial line brings: a packet, or nothing until a poll times out.\<close>

definition poll_rx :: "bytes option \<Rightarrow> u8 option list" where
  "poll_rx a = (case a of None \<Rightarrow> [None, None] | Some m \<Rightarrow> map Some (slip_frame esc_byte m))"

definition answer_rx :: "bytes option \<Rightarrow> u8 option list" where
  "answer_rx a = (case a of None \<Rightarrow> replicate (6 * unat (RS232_TPS - 1)) None | Some m \<Rightarrow> map Some (slip_frame esc_byte m))"

definition sends_line :: "turn \<Rightarrow> chat_view \<Rightarrow> bool" where
  "sends_line t v \<longleftrightarrow> t_key t = KEY_ENTER \<and> v_line v \<noteq> []"

definition turn_rx :: "turn \<Rightarrow> chat_view \<Rightarrow> u8 option list" where
  "turn_rx t v =
     (if sends_line t v then concat (map poll_rx (t_meanwhile t)) @ answer_rx (t_answer t) else []) @ poll_rx (t_arrival t)"

fun run_rx :: "turn list \<Rightarrow> chat_view \<Rightarrow> u8 option list" where
  "run_rx [] v = []"
| "run_rx (t # ts) v = turn_rx t v @ run_rx ts (v_turn t v)"

definition end_rx :: "(bytes \<times> string) option \<Rightarrow> u8 option list" where
  "end_rx e = (case e of None \<Rightarrow> [] | Some (m, msg) \<Rightarrow> map Some (slip_frame esc_byte m))"

definition run_keys :: "turn list \<Rightarrow> (bytes \<times> string) option \<Rightarrow> u16 list" where
  "run_keys ts e = map t_key ts @ [case e of None \<Rightarrow> KEY_QUIT | Some _ \<Rightarrow> 0]"

text \<open>
  The packets a run may have: segments of the peer with data, and answers without data that are no zero
  window probe; \<open>u\<close> is a context of the connection.
\<close>

definition arrival_ok :: "tcp_context \<Rightarrow> bytes option \<Rightarrow> bool" where
  "arrival_ok u a \<longleftrightarrow> (case a of None \<Rightarrow> True | Some m \<Rightarrow>
     packet_for u m \<and> seg_flags m AND TCP_RST = 0 \<and> seg_flags m AND TCP_FIN = 0 \<and> data_segment m)"

definition answer_ok :: "tcp_context \<Rightarrow> bytes option \<Rightarrow> chat_view \<Rightarrow> bool" where
  "answer_ok u a v \<longleftrightarrow> (case a of None \<Rightarrow> True | Some m \<Rightarrow>
     packet_for u m \<and> seg_flags m AND TCP_RST = 0 \<and> length m = 20 + unat (seg_ths m) \<and> seg_seq m + 1 \<noteq> v_ack v)"

definition turn_ok :: "tcp_context \<Rightarrow> turn \<Rightarrow> chat_view \<Rightarrow> bool" where
  "turn_ok u t v \<longleftrightarrow> t_key t \<noteq> KEY_QUIT \<and> arrival_ok u (t_arrival t) \<and>
     (sends_line t v \<longrightarrow> length (t_meanwhile t) = 3 \<and> list_all (arrival_ok u) (t_meanwhile t) \<and>
        answer_ok u (t_answer t) (fold v_arrival (t_meanwhile t) v))"

fun run_ok :: "tcp_context \<Rightarrow> turn list \<Rightarrow> chat_view \<Rightarrow> bool" where
  "run_ok u [] v = True"
| "run_ok u (t # ts) v = (turn_ok u t v \<and> run_ok u ts (v_turn t v))"

definition end_ok :: "tcp_context \<Rightarrow> (bytes \<times> string) option \<Rightarrow> chat_view \<Rightarrow> bool" where
  "end_ok u e v = (case e of None \<Rightarrow> True | Some (m, msg) \<Rightarrow> packet_for u m \<and> farewell (u\<lparr>tcp_ack := v_ack v\<rparr>) m = Some msg)"

section \<open>Facts about the machine\<close>

lemma v_sel [simp]:
  "v_seq (v_emit w pl v) = v_seq v" "v_ack (v_emit w pl v) = v_ack v" "v_line (v_emit w pl v) = v_line v"
  "v_log (v_emit w pl v) = v_log v" "v_mid (v_emit w pl v) = v_mid v" "v_open (v_emit w pl v) = v_open v"
  "v_seq (v_show texts v) = v_seq v" "v_ack (v_show texts v) = v_ack v" "v_line (v_show texts v) = v_line v"
  "v_mid (v_show texts v) = v_mid v" "v_open (v_show texts v) = v_open v" "v_sent (v_show texts v) = v_sent v"
  "v_sent (v_emit w pl v) = v_sent v @ [(v_seq v, v_ack v, w, pl)]"
  by (simp_all add: v_emit_def v_show_def)

lemma v_arrival_line [simp]: "v_line (v_arrival a v) = v_line v"
  by (simp add: v_arrival_def v_receive_def Let_def split: option.splits)

lemma v_arrivals_line [simp]: "v_line (fold v_arrival as v) = v_line v"
  by (induction as arbitrary: v) simp_all

text \<open>What is typed and arrives does not depend on what has been sent and whether the window is open.\<close>

lemma v_arrival_ack: "v_ack v = v_ack v' \<Longrightarrow> v_ack (v_arrival a v) = v_ack (v_arrival a v')"
  by (cases a) (simp_all add: v_arrival_def v_receive_def Let_def)

lemma v_arrivals_ack: "v_ack v = v_ack v' \<Longrightarrow> v_ack (fold v_arrival as v) = v_ack (fold v_arrival as v')"
proof (induction as arbitrary: v v')
  case (Cons a as)
  from Cons.IH [OF v_arrival_ack [OF Cons.prems]] show ?case by simp
qed simp

lemma v_arrival_closed: "\<not> v_open v \<Longrightarrow> \<not> v_open (v_arrival a v)"
  by (simp add: v_arrival_def v_receive_def Let_def split: option.splits)

lemma v_emit_pow: "(v_emit w pl ^^ n) v = v\<lparr>v_sent := v_sent v @ replicate n (v_seq v, v_ack v, w, pl)\<rparr>"
  by (induction n) (simp_all add: v_emit_def replicate_append_same [symmetric])

lemma v_show_show: "v_show ts (v_show ss v) = v_show (ss @ ts) v"
  by (simp add: v_show_def)

text \<open>ENTER at once: the segments of the line, one when it is answered and six when it is not.\<close>

definition line_sent :: "bytes option \<Rightarrow> chat_view \<Rightarrow> segment list" where
  "line_sent a v = replicate (if a = None then 6 else 1) (v_seq v, v_ack v, 0, v_line v @ [10])"

lemma v_enter_sent:
  fixes mw :: "bytes option list"
  assumes "v_line v \<noteq> []"
  defines "v1 \<equiv> fold v_arrival mw ((v_emit 0 [] v)\<lparr>v_open := False\<rparr>)"
  shows "v_enter mw a v = v_show (if a = None then [v_line v, asc ''*** send failed''] else [v_line v])
    (v1\<lparr>v_line := [], v_seq := (case a of None \<Rightarrow> v_seq v1 | Some m \<Rightarrow> max (v_seq v1) (seg_ack m)), v_ack := v_ack v1,
      v_sent := v_sent v1 @ line_sent a v1\<rparr>)"
proof -
  have "v_line v1 = v_line v" by (simp add: v1_def)
  then show ?thesis
    using assms(1)
    by (cases a; intro chat_view.equality)
      (simp_all add: v_enter_def Let_def v_emit_pow line_sent_def v_show_def v_emit_def v1_def [symmetric, unfolded v_emit_def])
qed

end
