(* ===== verification/Start_Up.thy ===== *)
theory Start_Up
  imports Line_Editing Hang_Up Irc_Commands
begin

text \<open>
  How a session starts: the questions for the address and the port, for the IRC client also for the nick
  and the channel, the connection to what has been typed, and the state in which the main loops
  begin.
\<close>

section \<open>Output before the session\<close>

text \<open>Output without the position code leaves the console ready for the clear screen code.\<close>

lemma con_puts_no_at: "22 \<notin> set cs \<Longrightarrow> params_left con = 0 \<Longrightarrow> params_left (con_puts cs con) = 0"
  by (induction cs arbitrary: con)
    (auto simp: con_putchar_def con_cls_def con_printable_def Let_def split: prod.splits)

lemma cleared_displays:
  assumes "22 \<notin> set cs" and "params_left con = 0"
  shows "displays (con_puts (cs @ [12]) con) [] blank_row"
proof -
  have "con_puts (cs @ [12]) con = con_cls (con_puts cs con)"
    using con_puts_no_at [OF assms] by (simp add: con_putchar_def)
  moreover have "replicate 24 blank_row = replicate 23 blank_row @ [blank_row]"
    using replicate_add [of 23 1 blank_row] by simp
  ultimately show ?thesis using con_puts_no_at [OF assms] by (simp add: displays_def con_ok_def con_cls_def)
qed

lemma dec_no_at: "22 \<notin> set (dec n)"
  using dec_digits [of n] by (auto simp: word_le_nat_alt)

lemma dotted_no_at: "22 \<notin> set (dotted ip)"
  by (simp add: dotted_def dec_no_at asc_def)

section \<open>The answers\<close>

text \<open>An answer is the line it was edited to, ended by a zero.\<close>

lemma answer_read:
  assumes "length line = mx" and "0 < mx" and "keys_answer kb keys ks ks'" and "length keys < fuel"
  shows "\<exists>rest out. read_line kb fuel line mx ks = Inr (edited (mx - 1) keys @ 0 # rest, out, ks') \<and>
    length (edited (mx - 1) keys @ 0 # rest) = mx \<and> c_str (edited (mx - 1) keys @ 0 # rest) 0 = Inr (edited (mx - 1) keys) \<and> 22 \<notin> set out"
proof -
  from read_line_edited [OF assms] obtain b out where
    b: "read_line kb fuel line mx ks = Inr (b, out @ [10], ks')" "length b = mx" "c_str b 0 = Inr (edited (mx - 1) keys)" "22 \<notin> set out"
    by (auto simp: echoes_def)
  then obtain rest where "b = edited (mx - 1) keys @ 0 # rest" by (auto simp: c_str_iff)
  with b show ?thesis by auto
qed

text \<open>The address.\<close>

lemma ask_ip_typed:
  assumes "keys_answer kb keys ks ks'" and "length keys < fuel" and "edited (length line - 1) keys = dotted ip" and "length ip = 4"
    and "0 < length line" and "22 \<notin> set question"
  shows "\<exists>line' out. ask_ip kb (Suc fuel) question line t ks =
      Inr (line', t\<lparr>outp := outp t @ out, tcp := set_daddr_bytes ip (tcp t)\<rparr>, ks') \<and> length line' = length line \<and> 22 \<notin> set out"
proof -
  from answer_read [OF refl assms(5,1,2)] obtain rest out where
    r: "read_line kb fuel line (length line) ks = Inr (dotted ip @ 0 # rest, out, ks')"
      "length (dotted ip @ 0 # rest) = length line" "22 \<notin> set out" unfolding assms(3) by blast
  have "parse_ip (dotted ip @ 0 # rest) (daddr_bytes v) = Inr (0, ip)" for v
    using assms(4) by (intro parse_ip_dotted) (simp_all add: daddr_bytes_def le32_def)
  then show ?thesis
    using r assms(6) by (auto simp: putcs_def)
qed

text \<open>The port of the chat server.\<close>

lemma digits_first: "rd (dec n @ rest) 0 = Inr (hd (dec n)) \<and> is_digit (hd (dec n))"
  using dec_nonempty [of n] by (auto simp: rd_def)

lemma ask_port_typed:
  assumes "keys_answer kb keys ks ks'" and "length keys < fuel" and "edited (length line - 1) keys = dec port" and "0 < port" and "port < 2 ^ 16"
    and "0 < length line"
  shows "\<exists>out. ask_port kb (Suc fuel) line c ks = Inr (word_of_nat port, c\<lparr>outp := outp c @ out\<rparr>, ks') \<and> 22 \<notin> set out"
proof -
  from answer_read [OF refl assms(6,1,2)] obtain rest out where
    r: "read_line kb fuel line (length line) ks = Inr (dec port @ 0 # rest, out, ks')" "22 \<notin> set out" unfolding assms(3) by blast
  have "(word_of_nat port :: u16) \<noteq> 0" using assms(4,5) by (simp add: word_of_nat_eq_0_iff nat_dvd_not_less)
  moreover have "parse_number (dec port @ 0 # rest) = Inr (word_of_nat port, 0 # rest)" by (rule parse_number_dec) simp
  ultimately show ?thesis
    using r digits_first [of port "0 # rest"] by (auto simp: putcs_def asc_def)
qed

section \<open>The chat client\<close>

text \<open>The context with which both clients call \<^verbatim>\<open>tcp_connect\<close>, and the address in a packet of it.\<close>

definition dialled :: "bytes \<Rightarrow> nat \<Rightarrow> tcp_context" where
  "dialled ip port =
     (set_daddr_bytes ip (tcp_static\<lparr>tcp_ip := (tcp_ip tcp_static)\<lparr>saddr := 0x020200c0\<rparr>\<rparr>))
       \<lparr>src_port := htons 32768, dst_port := htons (word_of_nat port)\<rparr>"

definition addressed :: "bytes \<Rightarrow> nat \<Rightarrow> bytes \<Rightarrow> bool" where
  "addressed ip port m \<longleftrightarrow> take 4 (drop 16 m) = ip \<and> take 4 (drop 20 m) = be16 32768 @ be16 (word_of_nat port)"

lemma dialled_wf: "tcp_wf (dialled ip port)" "length (tcp_pkt (dialled ip port)) = 552"
  by (simp_all add: dialled_def tcp_wf_def set_daddr_bytes_def tcp_static_def)

lemma addressed_packet:
  assumes "length ip = 4" and "daddr (tcp_ip t) = daddr (tcp_ip (dialled ip port))" and "src_port t = src_port (dialled ip port)"
    and "dst_port t = dst_port (dialled ip port)"
  shows "addressed ip port (tcp_packet t w pl)"
proof -
  have "take 4 (drop 16 (tcp_packet t w pl)) = le32 (daddr (tcp_ip t))" by (simp add: tcp_packet_def ip_header_daddr)
  also have "\<dots> = ip" using le32_of_le32 [OF assms(1)] by (simp add: assms(2) dialled_def set_daddr_bytes_def)
  finally show ?thesis using assms(3,4) by (simp add: addressed_def tcp_packet_split dialled_def assms(1) wire_simps)
qed

lemma chat_setup_typed:
  assumes "keys_answer kb kip (in_GetKeyReset kb ks) ks1" and "keys_answer kb kport ks1 ks2"
    and "edited (length line - 1) kip = dotted ip" and "length ip = 4"
    and "edited (length line - 1) kport = dec port" and "0 < port" and "port < 2 ^ 16"
    and "0 < length line" and "length kip + 1 < fuel" and "length kport + 1 < fuel"
  shows "\<exists>out. chat_setup kb fuel line ks = Inr (chat_init\<lparr>tcp := dialled ip port, outp := out\<rparr>, ks2) \<and> 22 \<notin> set out"
proof -
  obtain f where f: "fuel = Suc f" "length kip < f" "length kport < f" using assms(9,10) by (cases fuel) auto
  define t where "t = putcs (asc ''My IP address: '' @ dotted (le32 0x020200c0) @ [10, 10])
    ((putcs ([12] @ asc ''Z80 CHAT'' @ [10, 10]) chat_init)\<lparr>tcp := tcp_static\<lparr>tcp_ip := (tcp_ip tcp_static)\<lparr>saddr := 0x020200c0\<rparr>\<rparr>\<rparr>)"
  have q: "22 \<notin> set (asc ''Chat server IP: '')" by (simp add: asc_def)
  from ask_ip_typed [OF assms(1) f(2) assms(3,4,8) q, of t, folded f(1)] obtain line' out where
    a: "ask_ip kb fuel (asc ''Chat server IP: '') line t (in_GetKeyReset kb ks) =
      Inr (line', t\<lparr>outp := outp t @ out, tcp := set_daddr_bytes ip (tcp t)\<rparr>, ks1)" "length line' = length line" "22 \<notin> set out"
    by blast
  define u where "u = t\<lparr>outp := outp t @ out, tcp := set_daddr_bytes ip (tcp t)\<rparr>"
  from ask_port_typed [OF assms(2) f(3) _ assms(6,7), of line' u, folded f(1), unfolded a(2), OF assms(5,8)] obtain out2 where
    b: "ask_port kb fuel line' u ks1 = Inr (word_of_nat port, u\<lparr>outp := outp u @ out2\<rparr>, ks2)" "22 \<notin> set out2" by blast
  have "chat_setup kb fuel line ks =
      rbind (ask_ip kb fuel (asc ''Chat server IP: '') line t (in_GetKeyReset kb ks)) (\<lambda>(line, c, ks).
      rbind (ask_port kb fuel line c ks) (\<lambda>(port, c, ks).
      let c = c\<lparr>tcp := (tcp c)\<lparr>src_port := htons 32768, dst_port := htons port\<rparr>\<rparr> in
      Inr (putcs ([10] @ asc ''Connecting ...'' @ [10]) c, ks)))"
    by (simp add: chat_setup_def Let_def putcs_def chat_init_def t_def)
  then show ?thesis
    using a(3) b(2) dotted_no_at [of "le32 0x020200c0"]
    by (simp only: a(1) u_def [symmetric] b(1) rbind_Inr prod.case Let_def)
      (simp add: putcs_def chat_init_def dialled_def asc_def u_def t_def)
qed

text \<open>The connection made, the message on the cleared screen, and the main loop.\<close>

lemma chat_connected:
  assumes "tcp_wf t" and "length (tcp_pkt t) = 552" and "22 \<notin> set out"
  defines "c \<equiv> chat_init\<lparr>tcp := t, outp := out @ [12]\<rparr>" and "msg \<equiv> asc ''*** connected. CAPS+SYM+C quits.''"
  shows "\<exists>c'. log_line msg c = Inr c' \<and> chat_ok c' \<and> tcp c' = t \<and> typed c' = [] \<and> \<not> window_open c' \<and> pending c' = [] \<and>
    \<not> logline_emitted c' \<and> displays (con_puts (outp c') fresh_console) (log_rows msg) (input_text [])"
proof -
  have c: "chat_ok c" "typed c = []" using assms(1,2) by (simp_all add: c_def chat_init_def chat_ok_def typed_def pending_def)
  have msg: "plain msg" using plain_messages by (simp add: msg_def)
  have "displays (con_puts (outp c) fresh_console) [] blank_row"
    unfolding c_def using cleared_displays [OF assms(3)] by (simp add: fresh_console_def del: con_puts_simps)
  from chat_screen.log_displays [OF this c(1) msg] show ?thesis
    using c by (simp add: log_line_out [OF c(1) msg] putcs_def chat_ok_def typed_def pending_def) (simp add: c_def chat_init_def)
qed

text \<open>
  The chat client connects to what has been typed: it sends its SYN to exactly this address and port;
  when that peer answers with a SYN-ACK it sends the ACK and enters its main loop with the
  session established, nothing typed, the window still closed, and nothing on the screen but the
  message that it is connected.
\<close>

lemma chat_starts:
  assumes "keys_answer kb kip (in_GetKeyReset kb ks) ks1" and "keys_answer kb kport ks1 ks2"
    and "edited 81 kip = dotted ip" and "length ip = 4" and "edited 81 kport = dec port" and "0 < port" and "port < 2 ^ 16"
    and "length line = 82" and "length kip + 1 < fuel" and "length kport + 1 < fuel"
    and "slip_init pf baud parity d = (rc, d0)" and "syn_ack (dialled ip port) m"
    and "arrives pf RS232_TPS m (puts pf (slip_frame esc_byte (tcp_packet (syn_ctx (dialled ip port)) 1 [])) d0) d1"
    and "length m + 4 < fuel" and "0 < EAGAIN pf"
  shows "\<exists>c. chat_main pf kb fuel line baud parity ks d =
      rbind (chat_loop pf kb fuel c ks2 (puts pf (slip_frame esc_byte (tcp_packet (syn_acked (dialled ip port) m) 0 [])) d1)) (\<lambda>(c, ks, d).
        Inr (0, putcs (at INPUT_ROW 0 @ [10]) c, ks, d)) \<and>
    chat_ok c \<and> tcp c = established (dialled ip port) m \<and> typed c = [] \<and> \<not> window_open c \<and> pending c = [] \<and> \<not> logline_emitted c \<and>
    displays (con_puts (outp c) fresh_console) (log_rows (asc ''*** connected. CAPS+SYM+C quits.'')) (input_text [])"
proof -
  let ?u = "dialled ip port"
  from assms(3,5,8) have "edited (length line - 1) kip = dotted ip" "edited (length line - 1) kport = dec port" "0 < length line" by simp_all
  from chat_setup_typed [OF assms(1,2) this(1) assms(4) this(2) assms(6,7) this(3) assms(9,10)] obtain out where
    st: "chat_setup kb fuel line ks = Inr (chat_init\<lparr>tcp := ?u, outp := out\<rparr>, ks2)" "22 \<notin> set out" by blast
  let ?t = "established ?u m"
  have t: "tcp_wf ?t" "length (tcp_pkt ?t) = 552" using established_wf [OF dialled_wf(1) assms(12)] by (simp_all add: dialled_wf)
  from chat_connected [OF t st(2)] obtain c where
    c: "log_line (asc ''*** connected. CAPS+SYM+C quits.'') (chat_init\<lparr>tcp := ?t, outp := out @ [12]\<rparr>) = Inr c"
      "chat_ok c \<and> tcp c = ?t \<and> typed c = [] \<and> \<not> window_open c \<and> pending c = [] \<and> \<not> logline_emitted c \<and>
      displays (con_puts (outp c) fresh_console) (log_rows (asc ''*** connected. CAPS+SYM+C quits.'')) (input_text [])" by blast
  have "putcs [12] ((chat_init\<lparr>outp := out, tcp := ?t\<rparr>)
      \<lparr>input_len := 0, logline_len := 0, logline_emitted := False, window_open := False\<rparr>) = chat_init\<lparr>tcp := ?t, outp := out @ [12]\<rparr>"
    by (simp add: putcs_def chat_init_def)
  moreover note tcp_connect_established [OF dialled_wf(1) assms(12-15)]
  ultimately have "chat_main pf kb fuel line baud parity ks d =
      rbind (chat_loop pf kb fuel c ks2 (puts pf (slip_frame esc_byte (tcp_packet (syn_acked ?u m) 0 [])) d1)) (\<lambda>(c, ks, d).
        Inr (0, putcs (at INPUT_ROW 0 @ [10]) c, ks, d))"
    by (simp add: chat_main_def st(1) assms(11) c(1))
  then show ?thesis using c(2) by blast
qed

section \<open>The IRC client\<close>

text \<open>The port, which has a default, and the nick and the channel that a line stands for.\<close>

definition irc_port :: "bytes \<Rightarrow> nat \<Rightarrow> bool" where
  "irc_port s port \<longleftrightarrow> 0 < port \<and> port < 2 ^ 16 \<and> (s = dec port \<or> s = [] \<and> port = 6667)"

definition nick_typed :: "bytes \<Rightarrow> bytes" where
  "nick_typed s = take 16 (word_of s)"

definition channel_typed :: "bytes \<Rightarrow> bytes" where
  "channel_typed s = (let w = take 32 (word_of s) in if w \<noteq> [] \<and> hd w \<noteq> 35 \<and> hd w \<noteq> 38 then [] else w)"

lemma irc_port_read:
  assumes "irc_port s port"
  shows "\<exists>v r. parse_number (s @ 0 # rest) = Inr (v, r) \<and> (if v = 0 then 6667 else v) = word_of_nat port"
proof (cases "s = []")
  case True
  then have "port = 6667" using assms dec_nonempty [of port] by (auto simp: irc_port_def)
  then show ?thesis using True by (simp add: parse_number_def)
next
  case False
  then have "s = dec port" "(word_of_nat port :: u16) \<noteq> 0"
    using assms by (auto simp: irc_port_def word_of_nat_eq_0_iff nat_dvd_not_less)
  then show ?thesis by (simp add: parse_number_dec)
qed

lemma word_copied:
  assumes "c_str line 0 = Inr s" and "length dst = mx" and "0 < mx"
  shows "\<exists>line' q p dst'. next_word line 0 = Inr (line', q, p) \<and> length line' = length line \<and>
    str_copy dst line' q mx = Inr dst' \<and> length dst' = mx \<and> c_str dst' 0 = Inr (take (mx - 1) (word_of s))"
proof -
  from next_word_ok [OF assms(1)] obtain line' q p where
    w: "next_word line 0 = Inr (line', q, p)" "length line' = length line" "c_str line' q = Inr (word_of s)" by (auto simp: parsed_def)
  from str_copy_ok [OF w(3) assms(2,3)] w(1,2) show ?thesis by blast
qed

lemma ask_nick_typed:
  assumes "keys_answer kb keys ks ks'" and "length keys < fuel" and "0 < length line" and "length (mynick c) = 17" and "mynick c ! 0 = 0"
    and "nick_typed (edited (length line - 1) keys) \<noteq> []"
  shows "\<exists>line' out nick. ask_nick kb (Suc fuel) line c ks = Inr (line', c\<lparr>outp := outp c @ out, mynick := nick\<rparr>, ks') \<and>
    length line' = length line \<and> 22 \<notin> set out \<and> length nick = 17 \<and> c_str nick 0 = Inr (nick_typed (edited (length line - 1) keys))"
proof -
  define s where "s = edited (length line - 1) keys"
  obtain f where f: "fuel = Suc f" using assms(2) by (cases fuel) auto
  from answer_read [OF refl assms(3,1,2), folded s_def] obtain rest out where
    r: "read_line kb fuel line (length line) ks = Inr (s @ 0 # rest, out, ks')"
      "length (s @ 0 # rest) = length line" "c_str (s @ 0 # rest) 0 = Inr s" "22 \<notin> set out" by blast
  from word_copied [OF r(3) assms(4)] obtain line' q p nick where
    w: "next_word (s @ 0 # rest) 0 = Inr (line', q, p)" "length line' = length (s @ 0 # rest)"
      "str_copy (mynick c) line' q 17 = Inr nick" "length nick = 17" "c_str nick 0 = Inr (nick_typed s)" by (auto simp: nick_typed_def)
  let ?c = "c\<lparr>outp := outp c @ asc ''Nick: '' @ out, mynick := nick\<rparr>"
  obtain h where h: "rd nick 0 = Inr h" "h \<noteq> 0" using c_str_head [OF w(5)] assms(6) [folded s_def] by auto
  have "ask_nick kb fuel line' ?c ks' = Inr (line', ?c, ks')" by (simp add: f h)
  moreover have "ask_nick kb (Suc fuel) line c ks = ask_nick kb fuel line' ?c ks'"
    unfolding ask_nick.simps r(1) using w(1,3) assms(4,5) by (simp add: rd_def putcs_def)
  moreover have "22 \<notin> set (asc ''Nick: '' @ out)" using r(4) by (simp add: asc_def)
  ultimately show ?thesis
    using w(2,4,5) r(2) unfolding s_def [symmetric]
    by (intro exI [of _ line'] exI [of _ "asc ''Nick: '' @ out"] exI [of _ nick]) simp
qed

lemma ask_channel_typed:
  assumes "keys_answer kb keys ks ks'" and "length keys < fuel" and "0 < length line" and "length (cur_chan c) = 33"
  shows "\<exists>out chan. ask_channel kb fuel line c ks = Inr (c\<lparr>outp := outp c @ out, cur_chan := chan\<rparr>, ks') \<and>
    22 \<notin> set out \<and> length chan = 33 \<and> c_str chan 0 = Inr (channel_typed (edited (length line - 1) keys))"
proof -
  define s where "s = edited (length line - 1) keys"
  from answer_read [OF refl assms(3,1,2), folded s_def] obtain rest out where
    r: "read_line kb fuel line (length line) ks = Inr (s @ 0 # rest, out, ks')" "c_str (s @ 0 # rest) 0 = Inr s" "22 \<notin> set out" by blast
  from word_copied [OF r(2) assms(4)] obtain line' q p chan where
    w: "next_word (s @ 0 # rest) 0 = Inr (line', q, p)" "str_copy (cur_chan c) line' q 33 = Inr chan" "length chan = 33"
      "c_str chan 0 = Inr (take 32 (word_of s))" by auto
  obtain h where h: "rd chan 0 = Inr h" "h = 0 \<longleftrightarrow> take 32 (word_of s) = []" using c_str_head [OF w(4)] by blast
  note run = ask_channel_def r(1) w(1,2) h(1) is_channel_ok [OF w(4)] putcs_def h(2)
  have out: "22 \<notin> set (asc ''Channel (empty for none): '' @ out)" using r(3) by (simp add: asc_def)
  show ?thesis
  proof (cases "take 32 (word_of s) \<noteq> [] \<and> hd (take 32 (word_of s)) \<noteq> 35 \<and> hd (take 32 (word_of s)) \<noteq> 38")
    case False
    then have "channel_typed s = take 32 (word_of s)" by (auto simp: channel_typed_def Let_def)
    moreover have "ask_channel kb fuel line c ks =
        Inr (c\<lparr>outp := outp c @ asc ''Channel (empty for none): '' @ out, cur_chan := chan\<rparr>, ks')"
      using False by (auto simp: run)
    ultimately show ?thesis
      using out w(3,4) unfolding s_def [symmetric]
      by (intro exI [of _ "asc ''Channel (empty for none): '' @ out"] exI [of _ chan]) simp
  next
    case True
    let ?o = "asc ''Channel (empty for none): '' @ out @ asc ''Channels start with #, ignoring it.'' @ [10]"
    have "ask_channel kb fuel line c ks = Inr (c\<lparr>outp := outp c @ ?o, cur_chan := chan[0 := 0]\<rparr>, ks')"
      using True w(3) by (simp add: run wr_def)
    moreover have "c_str (chan[0 := 0]) 0 = Inr (channel_typed s)"
      using True w(3) by (cases chan) (auto simp: channel_typed_def Let_def c_str_def)
    moreover have "22 \<notin> set ?o" using out by (simp add: asc_def)
    ultimately show ?thesis
      using w(3) unfolding s_def [symmetric] by (intro exI [of _ ?o] exI [of _ "chan[0 := 0]"]) simp
  qed
qed

lemma irc_setup_typed:
  assumes "keys_answer kb kip (in_GetKeyReset kb ks) ks1" and "keys_answer kb kport ks1 ks2" and "keys_answer kb knick ks2 ks3" and "keys_answer kb kchan ks3 ks4"
    and "edited (length line - 1) kip = dotted ip" and "length ip = 4" and "irc_port (edited (length line - 1) kport) port"
    and "nick_typed (edited (length line - 1) knick) \<noteq> []" and "0 < length line"
    and "length kip + 1 < fuel" and "length kport < fuel" and "length knick + 1 < fuel" and "length kchan < fuel"
  shows "\<exists>out nick chan. irc_setup kb fuel line ks =
      Inr (irc_init\<lparr>outp := out, tcp := dialled ip port, mynick := nick, cur_chan := chan\<rparr>, ks4) \<and> 22 \<notin> set out \<and>
    length nick = 17 \<and> c_str nick 0 = Inr (nick_typed (edited (length line - 1) knick)) \<and>
    length chan = 33 \<and> c_str chan 0 = Inr (channel_typed (edited (length line - 1) kchan))"
proof -
  obtain f where f: "fuel = Suc f" "length kip < f" "length knick < f" using assms(10,12) by (cases fuel) auto
  define t where "t = putcs (asc ''My IP address: '' @ dotted (le32 0x020200c0) @ [10, 10])
    ((putcs ([12] @ asc ''Z80 IRC'' @ [10, 10]) irc_init)\<lparr>tcp := tcp_static\<lparr>tcp_ip := (tcp_ip tcp_static)\<lparr>saddr := 0x020200c0\<rparr>\<rparr>\<rparr>)"
  have q: "22 \<notin> set (asc ''IRC server IP: '')" by (simp add: asc_def)
  from ask_ip_typed [OF assms(1) f(2) assms(5,6,9) q, of t, folded f(1)] obtain l1 o1 where
    a: "ask_ip kb fuel (asc ''IRC server IP: '') line t (in_GetKeyReset kb ks) =
      Inr (l1, t\<lparr>outp := outp t @ o1, tcp := set_daddr_bytes ip (tcp t)\<rparr>, ks1)" "length l1 = length line" "22 \<notin> set o1"
    by blast
  define u where "u = t\<lparr>outp := outp t @ o1, tcp := set_daddr_bytes ip (tcp t)\<rparr>"
  from answer_read [OF a(2) assms(9,2,11)] obtain rest o2 where
    b: "read_line kb fuel l1 (length line) ks1 = Inr (edited (length line - 1) kport @ 0 # rest, o2, ks2)"
      "length (edited (length line - 1) kport @ 0 # rest) = length line" "22 \<notin> set o2" by blast
  define l2 where "l2 = edited (length line - 1) kport @ 0 # rest"
  from irc_port_read [OF assms(7), of rest, folded l2_def] obtain v r where
    v: "parse_number l2 = Inr (v, r)" "(if v = 0 then 6667 else v) = word_of_nat port" by blast
  define w where "w = putcs (asc ''Port [6667]: '' @ o2) u"
  have l2: "length l2 = length line" "length (mynick w) = 17" "mynick w ! 0 = 0"
    using b(2) by (simp_all add: l2_def w_def u_def t_def putcs_def irc_init_def)
  from ask_nick_typed [OF assms(3) f(3) _ l2(2,3), of l2, folded f(1), unfolded l2(1), OF assms(9,8)] obtain l3 o3 nick where
    c: "ask_nick kb fuel l2 w ks2 = Inr (l3, w\<lparr>outp := outp w @ o3, mynick := nick\<rparr>, ks3)" "length l3 = length line" "22 \<notin> set o3"
      "length nick = 17" "c_str nick 0 = Inr (nick_typed (edited (length line - 1) knick))" by blast
  define x where "x = w\<lparr>outp := outp w @ o3, mynick := nick\<rparr>"
  have "length (cur_chan x) = 33" by (simp add: x_def w_def u_def t_def putcs_def irc_init_def)
  from ask_channel_typed [OF assms(4,13) _ this, of l3, unfolded c(2), OF assms(9)] obtain o4 chan where
    e: "ask_channel kb fuel l3 x ks3 = Inr (x\<lparr>outp := outp x @ o4, cur_chan := chan\<rparr>, ks4)" "22 \<notin> set o4"
      "length chan = 33" "c_str chan 0 = Inr (channel_typed (edited (length line - 1) kchan))" by blast
  have "irc_setup kb fuel line ks = rbind (ask_ip kb fuel (asc ''IRC server IP: '') line t (in_GetKeyReset kb ks)) (\<lambda>(line, c, ks).
      rbind (read_line kb fuel line (length line) ks) (\<lambda>(line, out, ks).
      rbind (parse_number line) (\<lambda>(port, _).
      rbind (ask_nick kb fuel line (putcs (asc ''Port [6667]: '' @ out) c) ks) (\<lambda>(line, c, ks).
      rbind (ask_channel kb fuel line c ks) (\<lambda>(c, ks).
      Inr (putcs ([10] @ asc ''Connecting ...'' @ [10])
        (c\<lparr>tcp := (tcp c)\<lparr>src_port := htons 32768, dst_port := htons (if port = 0 then 6667 else port)\<rparr>\<rparr>), ks))))))"
    by (simp add: irc_setup_def Let_def putcs_def irc_init_def t_def)
  also have "\<dots> = Inr (putcs ([10] @ asc ''Connecting ...'' @ [10]) (x\<lparr>outp := outp x @ o4, cur_chan := chan,
      tcp := (tcp x)\<lparr>src_port := htons 32768, dst_port := htons (word_of_nat port)\<rparr>\<rparr>), ks4)"
    by (simp add: a(1,2) u_def [symmetric] b(1) [folded l2_def] v(1) w_def [symmetric] c(1) x_def [symmetric] e(1) v(2))
  finally show ?thesis
    using a(3) b(3) c(3-5) e(2-4) dotted_no_at [of "le32 0x020200c0"]
    by (simp add: putcs_def irc_init_def dialled_def asc_def x_def w_def u_def t_def)
qed

lemma slip_init_script: "\<exists>rc. slip_init script_line baud parity d = (rc, d)"
  by (simp add: slip_init_def script_line_def)

text \<open>The line that registers the client.\<close>

definition registration :: "bytes \<Rightarrow> bytes" where
  "registration nick = asc ''NICK '' @ nick @ [13, 10] @ asc ''USER '' @ nick @ asc '' 0 * :'' @ nick @ [13, 10]"

lemma queued_next:
  assumes "puts_queue q c0 c" and "c_str s 0 = Inr t" and "queued c0 = []" and "length q + length t \<le> 254"
  shows "\<exists>c'. o_str s c = Inr c' \<and> puts_queue (q @ t) c0 c'"
proof -
  from o_str_ok [OF puts_queue_sel(1) [OF assms(1)] assms(2)] obtain c' where c': "o_str s c = Inr c'" "puts_queue t c c'" by blast
  have "length (queued c0) + length q \<le> 254" using assms(3,4) by simp
  with c' show ?thesis using puts_queue_trans [OF assms(1) c'(2)] by blast
qed

lemma irc_register_sent:
  assumes "irc_wf c" and "out_len c = 0" and "c_str (mynick c) 0 = Inr nick" and "length nick \<le> 16" and "1 < tcp_seq (tcp c)"
    and "bare_segment (tcp c) a" and "length a + 3 < fuel"
  shows "\<exists>t obuf. irc_register script_line fuel c (replicate 6 None @ map Some (slip_frame esc_byte a) @ rx, tx) =
    Inr (c\<lparr>tcp := t, window_open := False, out_line := obuf, out_len := 0\<rparr>, (rx, tx @ slip_frame esc_byte (tcp_packet (tcp c) 0 []) @
      slip_frame esc_byte (tcp_packet (tcp_sent (tcp c) 0 []) 0 (registration nick)))) \<and>
    tcp_kept (tcp c) t \<and> tcp_ack t = tcp_ack (tcp c) \<and> length obuf = 256"
proof -
  have q0: "queued c = []" using assms(2) by (simp add: queued_def)
  have nick: "c_str (mynick c') 0 = Inr nick" if "puts_queue q c c'" for q c' using puts_queue_sel(6) [OF that] assms(3) by simp
  have lits: "c_str (lit ''NICK '') 0 = Inr (asc ''NICK '')" "c_str ([13, 10] @ lit ''USER '') 0 = Inr ([13, 10] @ asc ''USER '')"
    "c_str (lit '' 0 * :'') 0 = Inr (asc '' 0 * :'')" by (simp_all add: c_str_def lit_def asc_def)
  have len: "length (asc ''NICK '') = 5" "length (asc ''USER '') = 5" "length (asc '' 0 * :'') = 6" by (simp_all add: asc_def)
  from o_str_ok [OF assms(1) lits(1)] obtain c1 where c1: "o_str (lit ''NICK '') c = Inr c1" "puts_queue (asc ''NICK '') c c1" by blast
  from queued_next [OF c1(2) nick [OF c1(2)] q0] assms(4) len obtain c2 where
    c2: "o_str (mynick c1) c1 = Inr c2" "puts_queue (asc ''NICK '' @ nick) c c2" by auto
  from queued_next [OF c2(2) lits(2) q0] assms(4) len obtain c3 where
    c3: "o_str ([13, 10] @ lit ''USER '') c2 = Inr c3" "puts_queue ((asc ''NICK '' @ nick) @ [13, 10] @ asc ''USER '') c c3" by auto
  from queued_next [OF c3(2) nick [OF c3(2)] q0] assms(4) len obtain c4 where
    c4: "o_str (mynick c3) c3 = Inr c4" "puts_queue (((asc ''NICK '' @ nick) @ [13, 10] @ asc ''USER '') @ nick) c c4" by auto
  from queued_next [OF c4(2) lits(3) q0] assms(4) len obtain c5 where
    c5: "o_str (lit '' 0 * :'') c4 = Inr c5" "puts_queue ((((asc ''NICK '' @ nick) @ [13, 10] @ asc ''USER '') @ nick) @ asc '' 0 * :'') c c5" by auto
  from queued_next [OF c5(2) nick [OF c5(2)] q0] assms(4) len obtain c6 where
    c6: "o_str (mynick c5) c5 = Inr c6"
      "puts_queue (((((asc ''NICK '' @ nick) @ [13, 10] @ asc ''USER '') @ nick) @ asc '' 0 * :'') @ nick) c c6" by auto
  have wf: "irc_wf c6" and same: "tcp c6 = tcp c" using puts_queue_sel(1,2) [OF c6(2)] by simp_all
  have reg: "queued c6 @ [13, 10] = registration nick"
    using puts_queue_sel(11) [OF c6(2)] q0 assms(4) len by (simp add: registration_def)
  obtain o6 n6 where upd: "c6 = c\<lparr>out_line := o6, out_len := n6\<rparr>" using c6(2) unfolding puts_queue_def by blast
  from o_send_script [OF wf, of a fuel rx tx] same reg assms(5-7) obtain t obuf where
    "o_send script_line fuel c6 (replicate 6 None @ map Some (slip_frame esc_byte a) @ rx, tx) =
      Inr (c6\<lparr>tcp := t, window_open := False, out_line := obuf, out_len := 0\<rparr>, (rx, tx @ slip_frame esc_byte (tcp_packet (tcp c) 0 []) @
        slip_frame esc_byte (tcp_packet (tcp_sent (tcp c) 0 []) 0 (registration nick))))" "tcp_kept (tcp c) t"
      "tcp_ack t = tcp_ack (tcp c)" "length obuf = 256" by auto
  then show ?thesis
    by (intro exI [of _ t] exI [of _ obuf])
      (simp add: irc_register_def c1(1) c2(1) c3(1) [simplified] c4(1) c5(1) c6(1), simp add: upd)
qed

text \<open>The connection made, and the client registered.\<close>

lemma irc_connected:
  assumes "tcp_wf t" and "length (tcp_pkt t) = 552" and "22 \<notin> set out" and "length nick = 17" and "c_str nick 0 = Inr n"
    and "length chan = 33" and "c_str chan 0 = Inr ch" and "length n \<le> 16" and "1 < tcp_seq t" and "bare_segment t a" and "length a + 3 < fuel"
  defines "c \<equiv> irc_init\<lparr>outp := out @ [12], tcp := t, mynick := nick, cur_chan := chan\<rparr>"
    and "msg \<equiv> asc ''*** connected. /help for commands, CAPS+SYM+C quits.''"
  shows "\<exists>c'. rbind (irc_log_line msg c) (\<lambda>c. irc_register script_line fuel c (replicate 6 None @ map Some (slip_frame esc_byte a) @ rx, tx)) =
      Inr (c', (rx, tx @ slip_frame esc_byte (tcp_packet t 0 []) @ slip_frame esc_byte (tcp_packet (tcp_sent t 0 []) 0 (registration n)))) \<and>
    irc_ok c' \<and> typed c' = [] \<and> \<not> window_open c' \<and> rxlen c' = 0 \<and> out_len c' = 0 \<and> \<not> pong_pending c' \<and> \<not> join_pending c' \<and>
    c_str (mynick c') 0 = Inr n \<and> c_str (cur_chan c') 0 = Inr ch \<and> tcp_ack (tcp c') = tcp_ack t \<and>
    displays (con_puts (outp c') fresh_console) (log_rows msg) (input_text [])"
proof -
  have z: "0 \<in> set nick" "0 \<in> set chan" using assms(5,7) by (auto simp: c_str_def split: if_splits)
  have c: "irc_ok c" "typed c = []"
    using assms(1,2,4,6) z by (simp_all add: c_def irc_init_def irc_ok_def irc_wf_def typed_def)
  have msg: "plain msg" by (simp add: msg_def asc_def)
  let ?l = "irc_logged msg c"
  have log: "irc_log_line msg c = Inr ?l" using c(1) by (intro irc_log_line_ok irc_wf_input) (simp add: irc_ok_def)
  have l: "irc_ok ?l" using irc_next_ok [OF irc_logged_next(2) [OF irc_next_refl [OF c(1)]]] .
  have "displays (con_puts (outp c) fresh_console) [] blank_row"
    unfolding c_def using cleared_displays [OF assms(3)] by (simp add: fresh_console_def del: con_puts_simps)
  from irc_screen.log_displays [OF this c(1) msg] have
    screen: "displays (con_puts (outp ?l) fresh_console) (log_rows msg) (input_text [])"
    using irc_screen.log_out_eq [OF c(1) msg] c(2) clean_plain [OF msg] by simp
  have "irc_wf ?l" "out_len ?l = 0" "c_str (mynick ?l) 0 = Inr n" "tcp ?l = t"
    using l assms(5) by (simp_all add: irc_ok_def c_def irc_init_def)
  from irc_register_sent [OF this(1-3) assms(8) _ _ assms(11), unfolded this(4), OF assms(9,10)] obtain t' obuf where
    r: "irc_register script_line fuel ?l (replicate 6 None @ map Some (slip_frame esc_byte a) @ rx, tx) =
      Inr (?l\<lparr>tcp := t', window_open := False, out_line := obuf, out_len := 0\<rparr>, (rx, tx @ slip_frame esc_byte (tcp_packet t 0 []) @
        slip_frame esc_byte (tcp_packet (tcp_sent t 0 []) 0 (registration n))))" "tcp_kept t t'" "tcp_ack t' = tcp_ack t" "length obuf = 256" by blast
  let ?c = "?l\<lparr>tcp := t', window_open := False, out_line := obuf, out_len := 0\<rparr>"
  have "irc_ok ?c" using l r(2,4) \<open>tcp ?l = t\<close> assms(2) by (auto simp: irc_ok_def irc_wf_def typed_def tcp_kept_def)
  then show ?thesis
    using r(1,3) screen c(2) assms(5,7)
    by (intro exI [of _ ?c]) (simp add: log, simp add: c_def irc_init_def typed_def)
qed

text \<open>The whole program from the answers to the main loop.\<close>

lemma irc_main_registers:
  assumes "irc_setup kb fuel line ks = Inr (irc_init\<lparr>outp := out, tcp := u, mynick := nick, cur_chan := chan\<rparr>, ks4)"
    and "22 \<notin> set out" and "length nick = 17" and "c_str nick 0 = Inr n" and "length chan = 33" and "c_str chan 0 = Inr ch" and "length n \<le> 16"
    and "tcp_wf u" and "length (tcp_pkt u) = 552" and "syn_ack u m" and "bare_segment (established u m) a" and "length m + 4 < fuel" and "length a + 3 < fuel"
  defines "ps \<equiv> [tcp_packet (syn_ctx u) 1 [], tcp_packet (syn_acked u m) 0 [], tcp_packet (established u m) 0 [],
    tcp_packet (tcp_sent (established u m) 0 []) 0 (registration n)]"
  shows "\<exists>c. irc_main script_line kb fuel line baud parity ks
        (map Some (slip_frame esc_byte m) @ replicate 6 None @ map Some (slip_frame esc_byte a) @ rx, tx) =
      rbind (irc_loop script_line kb fuel c ks4 (rx, tx @ concat (map (slip_frame esc_byte) ps))) (\<lambda>(c, ks, d).
        Inr (0, putcs (at INPUT_ROW 0 @ [10]) c, ks, d)) \<and>
    irc_ok c \<and> typed c = [] \<and> \<not> window_open c \<and> rxlen c = 0 \<and> out_len c = 0 \<and> \<not> pong_pending c \<and> \<not> join_pending c \<and>
    c_str (mynick c) 0 = Inr n \<and> c_str (cur_chan c) 0 = Inr ch \<and> tcp_ack (tcp c) = seg_seq m + 1 \<and>
    displays (con_puts (outp c) fresh_console) (log_rows (asc ''*** connected. /help for commands, CAPS+SYM+C quits.'')) (input_text [])"
proof -
  let ?t = "established u m" and ?rx = "replicate 6 None @ map Some (slip_frame esc_byte a) @ rx"
    and ?msg = "asc ''*** connected. /help for commands, CAPS+SYM+C quits.''"
    and ?c = "irc_init\<lparr>outp := out @ [12], tcp := established u m, mynick := nick, cur_chan := chan\<rparr>"
    and ?tx = "tx @ slip_frame esc_byte (tcp_packet (syn_ctx u) 1 []) @ slip_frame esc_byte (tcp_packet (syn_acked u m) 0 [])"
  have t: "tcp_wf ?t" "length (tcp_pkt ?t) = 552" using established_wf [OF assms(8,10)] assms(9) by simp_all
  have conn: "tcp_connect script_line fuel u (map Some (slip_frame esc_byte m) @ ?rx, tx) = Inr (0, ?t, (?rx, ?tx))"
    using tcp_connect_established [OF assms(8,10) _ assms(12), of script_line _ "(?rx, tx @ slip_frame esc_byte (tcp_packet (syn_ctx u) 1 []))"]
      arrives_script by (simp add: puts_script)
  from irc_connected [OF t assms(2-7) _ assms(11,13), of rx ?tx] obtain c where
    c: "rbind (irc_log_line ?msg ?c) (\<lambda>c. irc_register script_line fuel c (?rx, ?tx)) =
      Inr (c, (rx, tx @ concat (map (slip_frame esc_byte) ps)))"
    and ok: "irc_ok c" "typed c = []" "\<not> window_open c" "rxlen c = 0" "out_len c = 0" "\<not> pong_pending c" "\<not> join_pending c"
      "c_str (mynick c) 0 = Inr n" "c_str (cur_chan c) 0 = Inr ch" "tcp_ack (tcp c) = seg_seq m + 1"
      "displays (con_puts (outp c) fresh_console) (log_rows ?msg) (input_text [])" by (auto simp: ps_def)
  obtain c1 where log: "irc_log_line ?msg ?c = Inr c1" using c by (cases "irc_log_line ?msg ?c") auto
  then have reg: "irc_register script_line fuel c1 (?rx, ?tx) = Inr (c, (rx, tx @ concat (map (slip_frame esc_byte) ps)))" using c by simp
  obtain r where r: "slip_init script_line baud parity (map Some (slip_frame esc_byte m) @ ?rx, tx) =
      (r, (map Some (slip_frame esc_byte m) @ ?rx, tx))" using slip_init_script by blast
  have init: "putcs [12] (irc_init\<lparr>outp := out, mynick := nick, cur_chan := chan, tcp := ?t, input_len := 0, rxlen := 0, out_len := 0,
      pong_pending := False, join_pending := False, window_open := False\<rparr>) = ?c" by (simp add: putcs_def irc_init_def)
  show ?thesis
    using conn reg init r ok by (intro exI [of _ c]) (simp add: irc_main_def assms(1) log)
qed

section \<open>Property\<close>

text \<open>
  C10: the IRC client registers where and as what has been typed. With the four questions answered, an
  empty answer for the port meaning 6667, the client connects to exactly this address and port,
  and then sends in one segment its nick, cut to 16 characters, and its user line; it enters the
  main loop with the nick and the channel it has been given, the channel only when it is one,
  nothing received and nothing noted, and only the message that it is connected on the screen.
\<close>

theorem irc_starts:
  assumes "keys_answer kb kip (in_GetKeyReset kb ks) ks1" and "keys_answer kb kport ks1 ks2" and "keys_answer kb knick ks2 ks3" and "keys_answer kb kchan ks3 ks4"
    and "edited 101 kip = dotted ip" and "length ip = 4" and "irc_port (edited 101 kport) port" and "nick = nick_typed (edited 101 knick)"
    and "nick \<noteq> []" and "length line = 102" and "length kip + 1 < fuel" and "length kport < fuel" and "length knick + 1 < fuel"
    and "length kchan < fuel" and "syn_ack (dialled ip port) m" and "bare_segment (established (dialled ip port) m) a"
    and "length m + 4 < fuel" and "length a + 3 < fuel"
  shows "\<exists>c ps. irc_main script_line kb fuel line baud parity ks
        (map Some (slip_frame esc_byte m) @ replicate 6 None @ map Some (slip_frame esc_byte a) @ rx, tx) =
      rbind (irc_loop script_line kb fuel c ks4 (rx, tx @ concat (map (slip_frame esc_byte) ps))) (\<lambda>(c, ks, d).
        Inr (0, putcs (at INPUT_ROW 0 @ [10]) c, ks, d)) \<and>
    list_all (addressed ip port) ps \<and> map seg_flags ps = [TCP_SYN, TCP_ACK, TCP_ACK, TCP_ACK OR TCP_PSH] \<and>
    map seg_seq ps = [1, 2, 2, 2] \<and> map (drop 40) ps = [[], [], [], registration nick] \<and>
    irc_ok c \<and> typed c = [] \<and> \<not> window_open c \<and> rxlen c = 0 \<and> out_len c = 0 \<and> \<not> pong_pending c \<and> \<not> join_pending c \<and>
    c_str (mynick c) 0 = Inr nick \<and> c_str (cur_chan c) 0 = Inr (channel_typed (edited 101 kchan)) \<and> tcp_ack (tcp c) = seg_seq m + 1 \<and>
    displays (con_puts (outp c) fresh_console) (log_rows (asc ''*** connected. /help for commands, CAPS+SYM+C quits.'')) (input_text [])"
proof -
  let ?u = "dialled ip port"
  have line: "length line - 1 = 101" "0 < length line" using assms(10) by simp_all
  from irc_setup_typed [OF assms(1-4), of line, unfolded line(1), OF assms(5-7) _ line(2) assms(11-14)] assms(8,9) obtain out n ch where
    st: "irc_setup kb fuel line ks = Inr (irc_init\<lparr>outp := out, tcp := ?u, mynick := n, cur_chan := ch\<rparr>, ks4)" "22 \<notin> set out"
      "length n = 17" "c_str n 0 = Inr nick" "length ch = 33" "c_str ch 0 = Inr (channel_typed (edited 101 kchan))" by blast
  have nick: "length nick \<le> 16" by (simp add: assms(8) nick_typed_def)
  define ps where "ps = [tcp_packet (syn_ctx ?u) 1 [], tcp_packet (syn_acked ?u m) 0 [], tcp_packet (established ?u m) 0 [],
    tcp_packet (tcp_sent (established ?u m) 0 []) 0 (registration nick)]"
  have "list_all (addressed ip port) ps"
    by (simp add: ps_def addressed_packet [OF assms(6)] tcp_sent_def)
  moreover have "map seg_flags ps = [TCP_SYN, TCP_ACK, TCP_ACK, TCP_ACK OR TCP_PSH] \<and> map seg_seq ps = [1, 2, 2, 2] \<and>
      map (drop 40) ps = [[], [], [], registration nick]"
    by (simp add: ps_def tcp_out_flags_def tcp_sent_def registration_def)
  moreover note irc_main_registers [OF st nick dialled_wf assms(15-18), folded ps_def, of baud parity rx tx]
  ultimately show ?thesis by (elim exE conjE, intro exI conjI) assumption+
qed

text \<open>The keys of a run: the address, with a mistyped character deleted, and the port.\<close>

definition demo_ip_keys :: "u16 list" where
  "demo_ip_keys = [0x31, 0x39, 0x32, 0x2e, 0x30, 0x2e, 0x33, 12, 0x32, 0x2e, 0x31]"

definition demo_port_keys :: "u16 list" where
  "demo_port_keys = [0x38, 0x30]"

lemma demo_edited:
  "edited 81 demo_ip_keys = dotted [192, 0, 2, 1]" "edited 81 demo_port_keys = dec 80"
  "edited 101 demo_ip_keys = dotted [192, 0, 2, 1]" "edited 101 demo_port_keys = dec 80"
  by (simp_all add: edited_def demo_ip_keys_def demo_port_keys_def edit_key_def is_delete_def dotted_def dec.simps asc_def)

lemma demo_keys_answer:
  "keys_answer script_keys demo_ip_keys (demo_ip_keys @ 13 # ks) ks" "keys_answer script_keys demo_port_keys (demo_port_keys @ 13 # ks) ks"
  by (simp_all add: script_keys_def demo_ip_keys_def demo_port_keys_def)

lemma dialled_demo: "dialled [192, 0, 2, 1] 80 = demo_tcp 0 0"
  by (simp add: dialled_def demo_tcp_def set_daddr_bytes_def tcp_static_def of_le32_def htons_def)

lemma demo_words:
  "keys_answer script_keys [0x6d, 0x65] (0x6d # 0x65 # 13 # ks) ks" "keys_answer script_keys [0x23, 0x7a] (0x23 # 0x7a # 13 # ks) ks"
  "[0x6d, 0x65] = nick_typed (edited 101 [0x6d, 0x65])"
  by (simp_all add: script_keys_def nick_typed_def word_of_def edited_def edit_key_def is_delete_def)

lemma demo_bare: "bare_segment (established (dialled [192, 0, 2, 1] 80) (demo_seg 99 2 0x12 [])) (demo_seg 100 60 TCP_ACK [])"
proof -
  have "syn_ack (demo_tcp 0 0) (demo_seg 99 2 0x12 [])" by (simp add: syn_ack_def)
  from established_wf(2) [OF _ this] have "length (tcp_pkt (established (demo_tcp 0 0) (demo_seg 99 2 0x12 []))) = 552" by simp
  moreover have "packet_for (demo_tcp 0 0) (demo_seg 100 60 TCP_ACK [])" by simp
  ultimately have "packet_for (established (demo_tcp 0 0) (demo_seg 99 2 0x12 [])) (demo_seg 100 60 TCP_ACK [])"
    by (simp add: packet_for_def)
  then show ?thesis by (simp add: dialled_demo bare_segment_def)
qed

theorem irc_starts_witness:
  "\<exists>c ps. irc_main script_line script_keys 99 (replicate 102 7) 0 0
        (demo_ip_keys @ 13 # demo_port_keys @ 13 # 0x6d # 0x65 # 13 # 0x23 # 0x7a # 13 # [])
        (map Some (slip_frame esc_byte (demo_seg 99 2 0x12 [])) @ replicate 6 None @
          map Some (slip_frame esc_byte (demo_seg 100 60 TCP_ACK [])) @ [], []) =
      rbind (irc_loop script_line script_keys 99 c [] ([], [] @ concat (map (slip_frame esc_byte) ps))) (\<lambda>(c, ks, d).
        Inr (0, putcs (at INPUT_ROW 0 @ [10]) c, ks, d)) \<and>
    list_all (addressed [192, 0, 2, 1] 80) ps \<and> map seg_flags ps = [TCP_SYN, TCP_ACK, TCP_ACK, TCP_ACK OR TCP_PSH] \<and>
    map seg_seq ps = [1, 2, 2, 2] \<and> map (drop 40) ps = [[], [], [], registration [0x6d, 0x65]] \<and>
    irc_ok c \<and> typed c = [] \<and> \<not> window_open c \<and> rxlen c = 0 \<and> out_len c = 0 \<and> \<not> pong_pending c \<and> \<not> join_pending c \<and>
    c_str (mynick c) 0 = Inr [0x6d, 0x65] \<and> c_str (cur_chan c) 0 = Inr (channel_typed (edited 101 [0x23, 0x7a])) \<and>
    tcp_ack (tcp c) = seg_seq (demo_seg 99 2 0x12 []) + 1 \<and>
    displays (con_puts (outp c) fresh_console) (log_rows (asc ''*** connected. /help for commands, CAPS+SYM+C quits.'')) (input_text [])"
proof (rule irc_starts [OF _ demo_keys_answer(2) demo_words(1,2) demo_edited(3) _ _ demo_words(3) _ _ _ _ _ _ _ demo_bare])
  show "keys_answer script_keys demo_ip_keys (in_GetKeyReset script_keys
      (demo_ip_keys @ 13 # demo_port_keys @ 13 # 0x6d # 0x65 # 13 # 0x23 # 0x7a # 13 # []))
      (demo_port_keys @ 13 # 0x6d # 0x65 # 13 # 0x23 # 0x7a # 13 # [])"
    using demo_keys_answer(1) by (simp add: script_keys_def)
  show "irc_port (edited 101 demo_port_keys) 80" using demo_edited(4) by (simp add: irc_port_def)
qed (simp_all add: demo_ip_keys_def demo_port_keys_def dialled_demo syn_ack_def)

end
