(* ===== verification/Chat_Run.thy ===== *)
theory Chat_Run
  imports Chat_Machine Start_Up
begin

text \<open>
  The chat client implements the machine of \<open>Chat_Machine\<close>: each operation of the code, on a scripted line,
  ends in a state that stands for the machine's state after its operation; so do whole runs of the
  main loop, and the whole program from its questions to its end.
\<close>

section \<open>What a state of the program stands for\<close>

text \<open>An IP packet of the stack that carries a segment to the peer of \<open>u\<close> and its port.\<close>

definition carries :: "tcp_context \<Rightarrow> bytes \<Rightarrow> segment \<Rightarrow> bool" where
  "carries u p s \<longleftrightarrow> (case s of (sq, ak, w, pl) \<Rightarrow>
     length p = 40 + length pl \<and> length pl \<le> 512 \<and> p ! 0 = 0x45 \<and> take 4 (drop 16 p) = le32 (daddr (tcp_ip u)) \<and>
     take 4 (drop 20 p) = le16 (src_port u) @ le16 (dst_port u) \<and>
     seg_seq p = sq \<and> seg_ack p = ak \<and> take 2 (drop 34 p) = be16 w \<and> drop 40 p = pl)"

definition same_ends :: "tcp_context \<Rightarrow> tcp_context \<Rightarrow> bool" where
  "same_ends u t \<longleftrightarrow> daddr (tcp_ip t) = daddr (tcp_ip u) \<and> src_port t = src_port u \<and> dst_port t = dst_port u \<and>
     length (tcp_pkt t) = length (tcp_pkt u)"

lemma same_ends_kept: "same_ends u t \<Longrightarrow> tcp_kept t t' \<Longrightarrow> same_ends u t'"
  by (simp add: same_ends_def tcp_kept_def)

lemma same_ends_packet: "same_ends u t \<Longrightarrow> packet_for t m = packet_for u m"
  by (simp add: same_ends_def packet_for_def)

lemma carries_packet:
  assumes "daddr (tcp_ip t) = daddr (tcp_ip u)" and "src_port t = src_port u" and "dst_port t = dst_port u" and "length pl \<le> 512"
  shows "carries u (tcp_packet t w pl) (tcp_seq t, tcp_ack t, w, pl)"
proof -
  have "take 4 (drop 16 (tcp_packet t w pl)) = le32 (daddr (tcp_ip t))" by (simp add: tcp_packet_def ip_header_daddr)
  moreover have "take 4 (drop 20 (tcp_packet t w pl)) = le16 (src_port t) @ le16 (dst_port t)" "take 2 (drop 34 (tcp_packet t w pl)) = be16 w"
    by (simp_all add: tcp_packet_split)
  moreover have "tcp_packet t w pl ! 0 = 0x45" by (simp add: tcp_packet_def ip_header_def ip_head_def Let_def nth_append)
  ultimately show ?thesis using assms by (simp add: carries_def)
qed

lemma carries_same_ends: "same_ends u t \<Longrightarrow> length pl \<le> 512 \<Longrightarrow> carries u (tcp_packet t w pl) (tcp_seq t, tcp_ack t, w, pl)"
  by (intro carries_packet) (simp_all add: same_ends_def)

text \<open>The bytes written so far are the frames of the segments sent.\<close>

definition wire :: "tcp_context \<Rightarrow> bytes \<Rightarrow> segment list \<Rightarrow> bool" where
  "wire u tx ss \<longleftrightarrow> (\<exists>ps. tx = concat (map (slip_frame esc_byte) ps) \<and> list_all2 (carries u) ps ss)"

lemma wire_Nil: "wire u [] []"
  by (simp add: wire_def)

lemma wire_packets:
  assumes "wire u tx ss" and "list_all2 (carries u) ps ss'"
  shows "wire u (tx @ concat (map (slip_frame esc_byte) ps)) (ss @ ss')"
proof -
  from assms(1) obtain qs where "tx = concat (map (slip_frame esc_byte) qs)" "list_all2 (carries u) qs ss" by (auto simp: wire_def)
  then show ?thesis using assms(2) unfolding wire_def by (intro exI [of _ "qs @ ps"]) (simp add: list_all2_appendI)
qed

lemma wire_packet: "wire u tx ss \<Longrightarrow> carries u p s \<Longrightarrow> wire u (tx @ slip_frame esc_byte p) (ss @ [s])"
  using wire_packets [of u tx ss "[p]" "[s]"] by simp

text \<open>
  The program and the bytes \<open>tx\<close> on the line agree with a state of the machine; they stand for it when also
  the output on the console \<open>con\<close> does.
\<close>

definition agrees :: "tcp_context \<Rightarrow> chat \<Rightarrow> bytes \<Rightarrow> chat_view \<Rightarrow> bool" where
  "agrees u c tx v \<longleftrightarrow> chat_ok c \<and> pending c = [] \<and> same_ends u (tcp c) \<and> 1 < tcp_seq (tcp c) \<and>
     typed c = v_line v \<and> logline_emitted c = v_mid v \<and> window_open c = v_open v \<and>
     tcp_seq (tcp c) = v_seq v \<and> tcp_ack (tcp c) = v_ack v \<and> wire u tx (v_sent v)"

definition stands_for :: "tcp_context \<Rightarrow> console \<Rightarrow> chat \<Rightarrow> bytes \<Rightarrow> chat_view \<Rightarrow> bool" where
  "stands_for u con c tx v \<longleftrightarrow> agrees u c tx v \<and> displays (con_puts (outp c) con) (v_log v) (input_text (v_line v))"

lemma stands_for_sel:
  assumes "stands_for u con c tx v"
  shows "chat_ok c" and "tcp_wf (tcp c)" and "length (tcp_pkt (tcp c)) = 552" and "1 < tcp_seq (tcp c)" and "same_ends u (tcp c)"
    and "typed c = v_line v" and "input_len c = length (v_line v)" and "window_open c = v_open v"
    and "tcp_seq (tcp c) = v_seq v" and "tcp_ack (tcp c) = v_ack v" and "pending c = []" and "logline_emitted c = v_mid v"
proof -
  show a: "chat_ok c" "1 < tcp_seq (tcp c)" "same_ends u (tcp c)" "typed c = v_line v" "window_open c = v_open v"
    "tcp_seq (tcp c) = v_seq v" "tcp_ack (tcp c) = v_ack v" "pending c = []" "logline_emitted c = v_mid v"
    using assms unfolding stands_for_def agrees_def by blast+
  show "tcp_wf (tcp c)" "length (tcp_pkt (tcp c)) = 552" using a(1) by (simp_all add: chat_ok_def)
  have "length (typed c) = input_len c" using a(1) by (simp add: chat_ok_def typed_def)
  then show "input_len c = length (v_line v)" using a(4) by simp
qed

text \<open>A change of the context and of the window, with what it puts on the line.\<close>

lemma stands_for_tcp:
  assumes "stands_for u con c tx v" and "tcp_kept (tcp c) t" and "wire u tx' ss"
  shows "stands_for u con (c\<lparr>tcp := t, window_open := w\<rparr>) tx'
    (v\<lparr>v_open := w, v_seq := tcp_seq t, v_ack := tcp_ack t, v_sent := ss\<rparr>)"
proof -
  note s = stands_for_sel [OF assms(1)]
  have "1 < tcp_seq t" using s(4) assms(2) by (auto simp: tcp_kept_def)
  then show ?thesis
    using assms s chat_ok_tcp [OF s(1) assms(2)] same_ends_kept [OF s(5) assms(2)]
    by (simp add: stands_for_def agrees_def typed_def pending_def)
qed

text \<open>An ACK without data, such as the ones that open and close the window.\<close>

lemma ack_emitted:
  fixes w :: u16
  assumes "stands_for u con c tx v" and "0 < fuel"
  defines "t \<equiv> tcp_sent (tcp c) w []" and "p \<equiv> slip_frame esc_byte (tcp_packet (tcp c) w [])"
  shows "tcp_send script_line fuel (tcp c) 0 None w (rx, tx) = Inr (0, t, (rx, tx @ p))"
    and "stands_for u con (c\<lparr>tcp := t, window_open := b\<rparr>) (tx @ p) ((v_emit w [] v)\<lparr>v_open := b\<rparr>)"
proof -
  note s = stands_for_sel [OF assms(1)]
  obtain f where f: "fuel = Suc f" using assms(2) by (cases fuel) auto
  show "tcp_send script_line fuel (tcp c) 0 None w (rx, tx) = Inr (0, t, (rx, tx @ p))"
    unfolding f tcp_send_def t_def p_def tcp_send_ack [OF s(2,4)] by (simp add: puts_script)
  have kept: "tcp_kept (tcp c) t" unfolding t_def using s(2,3) by (intro tcp_kept_sent) simp_all
  have "wire u tx (v_sent v)" using assms(1) by (simp add: stands_for_def agrees_def)
  from wire_packet [OF this carries_same_ends [OF s(5)]] have "wire u (tx @ p) (v_sent v @ [(v_seq v, v_ack v, w, [])])"
    using s(9,10) by (simp add: p_def)
  note now = stands_for_tcp [OF assms(1) kept this, of b]
  have "(v_emit w [] v)\<lparr>v_open := b\<rparr> =
      v\<lparr>v_open := b, v_seq := tcp_seq t, v_ack := tcp_ack t, v_sent := v_sent v @ [(v_seq v, v_ack v, w, [])]\<rparr>"
    using s(9,10) by (intro chat_view.equality) (simp_all add: t_def v_emit_def tcp_sent_def)
  with now show "stands_for u con (c\<lparr>tcp := t, window_open := b\<rparr>) (tx @ p) ((v_emit w [] v)\<lparr>v_open := b\<rparr>)" by simp
qed

section \<open>Arrivals\<close>

lemma data_displayed:
  assumes "stands_for u con c tx v" and "len \<le> length data"
  shows "\<exists>c'. show_data data len c = Inr c' \<and> stands_for u con c' tx
    ((v_show (segment_texts (take len data) ([], v_mid v)) v)\<lparr>v_mid := segment_mid (take len data) ([], v_mid v)\<rparr>)"
proof -
  note s = stands_for_sel [OF assms(1)]
  let ?ts = "segment_texts (take len data) ([], v_mid v)"
  from show_data_ok [OF s(1) assms(2)] s(11,12) obtain c' where
    c': "show_data data len c = Inr c'" "shown ?ts c c'" "pending c' = []" "logline_emitted c' = segment_mid (take len data) ([], v_mid v)" by auto
  have "displays (con_puts (outp c) con) (v_log v) (input_text (typed c))" using assms(1) s(6) by (simp add: stands_for_def agrees_def)
  from chat_screen.logs_display [OF this s(1), of ?ts] c'(2)
  have "displays (con_puts (outp c') con) (v_log v @ concat (map log_rows ?ts)) (input_text (typed c))" by (simp add: shown_def)
  moreover have "typed c' = typed c" "chat_ok c'" "tcp c' = tcp c" "window_open c' = window_open c"
    using c'(2) by (simp_all add: shown_def typed_def)
  ultimately show ?thesis
    using assms(1) c' s by (intro exI [of _ c']) (simp add: stands_for_def agrees_def v_show_def)
qed

lemma same_ends_taken: "same_ends u t \<Longrightarrow> length m \<le> length (tcp_pkt t) \<Longrightarrow> same_ends u (taken m t)"
  by (simp add: same_ends_def taken_def loaded_def set_pkt_def)

lemma data_received:
  assumes "stands_for u con c tx v" and "arrival_ok u (Some m)" and "\<not> seg_seq m < v_ack v" and "600 \<le> fuel"
  defines "t \<equiv> tcp_sent (taken m (tcp c)) 0 []"
  shows "\<exists>c' tx'. tcp_recv_timeout script_line fuel (tcp c) 0 POLL_TICKS (poll_rx (Some m) @ rx, tx) = Inr (int (length (seg_payload m)), t, (rx, tx')) \<and>
    0 < length (seg_payload m) \<and> show_data (tcp_rx_buffer t) (length (seg_payload m)) (c\<lparr>tcp := t, window_open := False\<rparr>) = Inr c' \<and>
    stands_for u con c' tx' (v_receive m v)"
proof -
  note s = stands_for_sel [OF assms(1)]
  define n where "n = length m - 20 - unat (seg_ths m)"
  let ?p = "tcp_packet (taken m (tcp c)) 0 []"
  have m: "packet_for (tcp c) m" "seg_flags m AND TCP_RST = 0" "data_segment m"
    using assms(2) by (simp_all add: arrival_ok_def same_ends_packet [OF s(5)])
  then have len: "length m \<le> 552" "length m \<le> length (tcp_pkt (tcp c))" using s(3) by (simp_all add: packet_for_def)
  have n: "length (seg_payload m) = n" "0 < n" using m(3) by (auto simp: seg_payload_def data_segment_def n_def)
  have recv: "tcp_recv_timeout script_line fuel (tcp c) 0 POLL_TICKS (poll_rx (Some m) @ rx, tx) = Inr (int n, t, (rx, tx @ slip_frame esc_byte ?p))"
    using tcp_recv_taken [OF s(2,4) m, of script_line POLL_TICKS "(poll_rx (Some m) @ rx, tx)" "(rx, tx)" fuel] s(10) assms(3,4) len(1)
    by (simp add: poll_rx_def arrives_script puts_script t_def not_less n_def)
  have kept: "tcp_kept (tcp c) t" "n \<le> length (tcp_rx_buffer t)"
    using stack.recv_safe [OF s(2), of script_line fuel 0 POLL_TICKS "(poll_rx (Some m) @ rx, tx)"] recv by (simp_all add: rx_bound_def)
  have data: "take n (tcp_rx_buffer t) = seg_payload m"
    unfolding seg_payload_def t_def n_def using m(3) len(2) by (rule rx_buffer_taken)
  let ?v = "v\<lparr>v_open := False, v_seq := tcp_seq t, v_ack := tcp_ack t, v_sent := v_sent v @ [(tcp_seq t, tcp_ack t, 0, [])]\<rparr>"
  have "wire u (tx @ slip_frame esc_byte ?p) (v_sent v @ [(tcp_seq t, tcp_ack t, 0, [])])"
    using wire_packet [OF _ carries_same_ends [OF same_ends_taken [OF s(5) len(2)]]] assms(1) by (simp add: stands_for_def agrees_def t_def tcp_sent_def)
  from data_displayed [OF stands_for_tcp [OF assms(1) kept(1) this, of False] kept(2)] obtain c' where
    c': "show_data (tcp_rx_buffer t) n (c\<lparr>tcp := t, window_open := False\<rparr>) = Inr c'"
      "stands_for u con c' (tx @ slip_frame esc_byte ?p)
        ((v_show (segment_texts (seg_payload m) ([], v_mid v)) ?v)\<lparr>v_mid := segment_mid (seg_payload m) ([], v_mid v)\<rparr>)"
    by (auto simp: data)
  have "v_receive m v = (v_show (segment_texts (seg_payload m) ([], v_mid v)) ?v)\<lparr>v_mid := segment_mid (seg_payload m) ([], v_mid v)\<rparr>"
    using assms(3) s(9,10) n(1)
    by (intro chat_view.equality) (simp_all add: v_receive_def v_show_def v_emit_def Let_def t_def tcp_sent_def n_def)
  with c' recv n show ?thesis by auto
qed

text \<open>What any arrival leaves, for a caller that shows the data it is given.\<close>

lemma window_same [simp]: "c\<lparr>tcp := t, window_open := window_open c\<rparr> = c\<lparr>tcp := t\<rparr>" for c :: chat
  by (cases c) simp

lemma arrival_step:
  assumes "stands_for u con c tx v" and "arrival_ok u a" and "600 \<le> fuel"
  shows "\<exists>rc t c' tx'. tcp_recv_timeout script_line fuel (tcp c) 0 POLL_TICKS (poll_rx a @ rx, tx) = Inr (rc, t, (rx, tx')) \<and>
    (if 0 < rc then show_data (tcp_rx_buffer t) (nat rc) (c\<lparr>tcp := t, window_open := False\<rparr>) else Inr (c\<lparr>tcp := t\<rparr>)) = Inr c' \<and>
    stands_for u con c' tx' (v_arrival a v) \<and>
    (rc = - 11 \<or> 0 < rc \<or> rc = 0 \<and> (\<exists>fl. rd (tcp_pkt t) (20 + 13) = Inr fl \<and> fl AND TCP_FIN = 0))"
proof (cases a)
  case None
  note s = stands_for_sel [OF assms(1)]
  obtain f where f: "fuel = Suc (Suc f)" using assms(3) by (cases fuel; cases "fuel - 1") auto
  have "reads script_line [None, None] ([None, None] @ rx, tx) (rx, tx)" by (rule reads_script)
  then have "tcp_recv_timeout script_line fuel (tcp c) 0 POLL_TICKS (poll_rx a @ rx, tx) = Inr (- 11, tcp c, (rx, tx))"
    using tcp_recv_idle [of script_line "[None, None]" _ _ POLL_TICKS "tcp c" f] s(2) by (simp add: None poll_rx_def f)
  then show ?thesis using assms(1) None by (auto simp: v_arrival_def)
next
  case (Some m)
  note s = stands_for_sel [OF assms(1)]
  show ?thesis
  proof (cases "seg_seq m < v_ack v")
    case False
    from data_received [OF assms(1) assms(2) [unfolded Some] False assms(3), of rx] show ?thesis
      by (fastforce simp: Some v_arrival_def)
  next
    case True
    have m: "packet_for (tcp c) m" "seg_flags m AND TCP_RST = 0" "data_segment m" "seg_flags m AND TCP_FIN = 0"
      using assms(2) by (simp_all add: Some arrival_ok_def same_ends_packet [OF s(5)])
    then have len: "40 \<le> length m" "length m \<le> 552" using s(3) by (simp_all add: packet_for_def)
    let ?t = "ignored m (tcp c)"
    have recv: "tcp_recv_timeout script_line fuel (tcp c) 0 POLL_TICKS (poll_rx a @ rx, tx) = Inr (0, ?t, (rx, tx))"
      using s m True assms(3) len(2) by (auto simp: Some poll_rx_def intro!: tcp_recv_old arrives_script)
    have kept: "tcp_kept (tcp c) ?t"
      using stack.recv_safe [OF s(2), of script_line fuel 0 POLL_TICKS "(poll_rx a @ rx, tx)"] recv by simp
    have "wire u tx (v_sent v)" using assms(1) by (simp add: stands_for_def agrees_def)
    from stands_for_tcp [OF assms(1) kept this, of "window_open c"]
    have "stands_for u con (c\<lparr>tcp := ?t\<rparr>) tx (v\<lparr>v_open := window_open c, v_seq := tcp_seq ?t, v_ack := tcp_ack ?t, v_sent := v_sent v\<rparr>)" by simp
    moreover have "v\<lparr>v_open := window_open c, v_seq := tcp_seq ?t, v_ack := tcp_ack ?t, v_sent := v_sent v\<rparr> = v_arrival a v"
      using True s(8-10) by (intro chat_view.equality) (simp_all add: v_arrival_def v_receive_def Some Let_def)
    moreover have "rd (tcp_pkt ?t) (20 + 13) = Inr (seg_flags m)"
      using len by (simp add: rd_def seg_flags_def nth_append)
    ultimately show ?thesis using recv m(4) by auto
  qed
qed

text \<open>A poll begins by opening the window.\<close>

lemma poll_opens:
  assumes "stands_for u con c tx v" and "0 < fuel"
  shows "\<exists>c' tx'. poll_net script_line fuel c (rx, tx) = poll_net script_line fuel c' (rx, tx') \<and> window_open c' \<and>
    stands_for u con c' tx' (v_opened v)"
proof (cases "window_open c")
  case True
  then show ?thesis using assms(1) stands_for_sel(8) [OF assms(1)] by (auto simp: v_opened_def)
next
  case False
  from ack_emitted(1) [OF assms, where w = RX_WINDOW and rx = rx] False
  have "poll_net script_line fuel c (rx, tx) = poll_net script_line fuel (c\<lparr>tcp := tcp_sent (tcp c) RX_WINDOW [], window_open := True\<rparr>)
      (rx, tx @ slip_frame esc_byte (tcp_packet (tcp c) RX_WINDOW []))"
    by (simp add: poll_net_def)
  moreover have "stands_for u con (c\<lparr>tcp := tcp_sent (tcp c) RX_WINDOW [], window_open := True\<rparr>)
      (tx @ slip_frame esc_byte (tcp_packet (tcp c) RX_WINDOW [])) (v_opened v)"
    using ack_emitted(2) [OF assms, where w = RX_WINDOW and b = True] False stands_for_sel(8) [OF assms(1)] by (simp add: v_opened_def)
  ultimately show ?thesis
    by (intro exI [of _ "c\<lparr>tcp := tcp_sent (tcp c) RX_WINDOW [], window_open := True\<rparr>"]
        exI [of _ "tx @ slip_frame esc_byte (tcp_packet (tcp c) RX_WINDOW [])"]) simp
qed

lemma poll_step:
  assumes "stands_for u con c tx v" and "arrival_ok u a" and "600 \<le> fuel"
  shows "\<exists>c' tx'. poll_net script_line fuel c (poll_rx a @ rx, tx) = Inr (0, c', (rx, tx')) \<and>
    stands_for u con c' tx' (v_arrival a (v_opened v))"
proof -
  obtain c1 tx1 where c1: "poll_net script_line fuel c (poll_rx a @ rx, tx) = poll_net script_line fuel c1 (poll_rx a @ rx, tx1)"
      "window_open c1" "stands_for u con c1 tx1 (v_opened v)"
    using poll_opens [OF assms(1), of fuel] assms(3) by fastforce
  from arrival_step [OF c1(3) assms(2,3), of rx] obtain rc t c2 tx2 where
    r: "tcp_recv_timeout script_line fuel (tcp c1) 0 POLL_TICKS (poll_rx a @ rx, tx1) = Inr (rc, t, (rx, tx2))"
    and c2: "(if 0 < rc then show_data (tcp_rx_buffer t) (nat rc) (c1\<lparr>tcp := t, window_open := False\<rparr>) else Inr (c1\<lparr>tcp := t\<rparr>)) = Inr c2"
      "stands_for u con c2 tx2 (v_arrival a (v_opened v))"
      "rc = - 11 \<or> 0 < rc \<or> rc = 0 \<and> (\<exists>fl. rd (tcp_pkt t) (20 + 13) = Inr fl \<and> fl AND TCP_FIN = 0)" by blast
  have "poll_net script_line fuel c1 (poll_rx a @ rx, tx1) = Inr (0, c2, (rx, tx2))"
    using c1(2) r c2(1,3) by (auto simp: poll_net_def Let_def)
  then show ?thesis using c1(1) c2(2) by auto
qed

section \<open>A line that is sent\<close>

text \<open>A text that is logged, below whatever row the screen ended with.\<close>

lemma line_logged:
  assumes "agrees u c tx v" and "displays (con_puts (outp c) con) (v_log v) row" and "plain s"
  shows "\<exists>c'. log_line s c = Inr c' \<and> stands_for u con c' tx (v_show [s] v)"
proof -
  have ok: "chat_ok c" "typed c = v_line v" using assms(1) by (simp_all add: agrees_def)
  have "chat_ok (putcs (chat_log_out s c) c)" using ok(1) by (simp add: chat_ok_def putcs_def typed_def pending_def)
  then have "agrees u (putcs (chat_log_out s c) c) tx (v_show [s] v)"
    using assms(1) by (auto simp: agrees_def putcs_def typed_def pending_def v_show_def)
  moreover have "displays (con_puts (outp (putcs (chat_log_out s c) c)) con) (v_log (v_show [s] v)) (input_text (v_line v))"
    using chat_screen.log_displays [OF assms(2) ok(1) assms(3)] ok(2) by (simp add: putcs_def v_show_def)
  ultimately show ?thesis by (simp add: log_line_out [OF ok(1) assms(3)] stands_for_def)
qed

text \<open>What arrives while the window is closed.\<close>

lemma drained:
  assumes "stands_for u con c tx v" and "\<not> v_open v" and "list_all (arrival_ok u) as" and "600 \<le> fuel"
  shows "\<exists>c' tx'. drain script_line fuel (length as) c (concat (map poll_rx as) @ rx, tx) = Inr (c', (rx, tx')) \<and>
    stands_for u con c' tx' (fold v_arrival as v) \<and> \<not> v_open (fold v_arrival as v)"
  using assms(1-3)
proof (induction as arbitrary: c tx v)
  case (Cons a as)
  let ?rx = "concat (map poll_rx as) @ rx"
  have a: "arrival_ok u a" "list_all (arrival_ok u) as" using Cons.prems(3) by simp_all
  from arrival_step [OF Cons.prems(1) a(1) assms(4), of ?rx] obtain rc t c1 tx1 where
    r: "tcp_recv_timeout script_line fuel (tcp c) 0 POLL_TICKS (poll_rx a @ ?rx, tx) = Inr (rc, t, (?rx, tx1))"
    and c1: "(if 0 < rc then show_data (tcp_rx_buffer t) (nat rc) (c\<lparr>tcp := t, window_open := False\<rparr>) else Inr (c\<lparr>tcp := t\<rparr>)) = Inr c1"
      "stands_for u con c1 tx1 (v_arrival a v)" by blast
  have "c\<lparr>tcp := t, window_open := False\<rparr> = c\<lparr>tcp := t\<rparr>"
    using stands_for_sel(8) [OF Cons.prems(1)] Cons.prems(2) window_same [of c t] by simp
  with r c1(1) have "drain script_line fuel (length (a # as)) c (concat (map poll_rx (a # as)) @ rx, tx) =
      drain script_line fuel (length as) c1 (?rx, tx1)" by (simp split: if_splits)
  with Cons.IH [OF c1(2) v_arrival_closed [OF Cons.prems(2)] a(2)] show ?case by simp
qed simp

text \<open>The segment of the line.\<close>

lemma line_packet:
  fixes d :: "u8 option list \<times> bytes"
  assumes "stands_for u con c tx v"
  defines "n \<equiv> input_len c + 1" and "data \<equiv> Some ((input c)[input_len c := 10])"
  shows "data_ok n data" and "n + 40 \<le> length (tcp_pkt (tcp c))" and "0 < n"
    and "carries u (tcp_packet (bump_id i (tcp c)) 0 (tcp_payload (tcp c) n data)) (v_seq v, v_ack v, 0, v_line v @ [10])"
    and "tcp_send script_line fuel (tcp c) n data 0 d = Inr (rc, t, d') \<Longrightarrow> tcp_kept (tcp c) t"
proof -
  note s = stands_for_sel [OF assms(1)]
  have len: "input_len c \<le> 80" "length (input c) = 82" using s(1) by (simp_all add: chat_ok_def)
  show ok: "data_ok n data" "n + 40 \<le> length (tcp_pkt (tcp c))" "0 < n" using len s(3) by (simp_all add: data_ok_def n_def data_def)
  have pl: "tcp_payload (tcp c) n data = v_line v @ [10]"
    using len s(6) by (simp add: tcp_payload_def typed_def take_Suc_conv_app_nth n_def data_def)
  have "same_ends u (bump_id i (tcp c))" using s(5) by (simp add: same_ends_def bump_id_def)
  from carries_same_ends [OF this, of "v_line v @ [10]" 0] len(1) s(7,9,10)
  show "carries u (tcp_packet (bump_id i (tcp c)) 0 (tcp_payload (tcp c) n data)) (v_seq v, v_ack v, 0, v_line v @ [10])"
    unfolding pl by (simp add: bump_id_def)
  show "tcp_send script_line fuel (tcp c) n data 0 d = Inr (rc, t, d') \<Longrightarrow> tcp_kept (tcp c) t"
    using stack.send_safe [OF s(2) ok(2,1), of script_line fuel 0 d] by simp
qed

lemma line_on_wire:
  assumes "stands_for u con c tx v" and "answer_ok u a v" and "600 \<le> fuel"
  shows "\<exists>rc t tx'. tcp_send script_line fuel (tcp c) (input_len c + 1) (Some ((input c)[input_len c := 10])) 0 (answer_rx a @ rx, tx) =
      Inr (rc, t, (rx, tx')) \<and> (rc < 0 \<longleftrightarrow> a = None) \<and> tcp_kept (tcp c) t \<and> wire u tx' (v_sent v @ line_sent a v) \<and> tcp_ack t = v_ack v \<and>
    tcp_seq t = (case a of None \<Rightarrow> v_seq v | Some m \<Rightarrow> max (v_seq v) (seg_ack m))"
proof -
  note s = stands_for_sel [OF assms(1)] and p = line_packet [OF assms(1)]
  note ok = p(1-3) and on = p(4) and kept = p(5)
  let ?n = "input_len c + 1" and ?data = "Some ((input c)[input_len c := 10])"
  let ?pl = "tcp_payload (tcp c) ?n ?data"
  have w: "wire u tx (v_sent v)" using assms(1) by (simp add: stands_for_def agrees_def)
  show ?thesis
  proof (cases a)
    case None
    let ?k = "unat (RS232_TPS - 1)"
    define P where "P = (\<lambda>n (d :: u8 option list \<times> bytes). fst d = replicate (n * ?k) None @ rx)"
    have "P (Suc 5) (answer_rx a @ rx, tx)" by (simp add: P_def None answer_rx_def)
    moreover have "fuel = 5 + 3 + (fuel - 8)" using assms(3) by simp
    ultimately obtain t d' where r: "tcp_send script_line fuel (tcp c) ?n ?data 0 (answer_rx a @ rx, tx) = Inr (- 1, t, d')" "P 0 d'"
      "snd d' = tx @ concat (map (slip_frame esc_byte) (transmissions 6 (tcp c) 0 ?pl))" "tcp_seq t = tcp_seq (tcp c)" "tcp_ack t = tcp_ack (tcp c)"
      using tcp_send_silent [OF silences_script [of rx, folded P_def] _ ok(1) order_refl _ s(2) ok(2), of "(answer_rx a @ rx, tx)" "fuel - 8" 0] ok(3)
      by (auto simp: tcp_send_def)
    have "list_all2 (carries u) (transmissions 6 (tcp c) 0 ?pl) (line_sent a v)"
      using on by (simp add: transmissions_def line_sent_def None list_all2_conv_all_nth)
    from wire_packets [OF w this] r kept [OF r(1)] s(9,10) None show ?thesis
      by (intro exI [of _ "- 1"] exI [of _ t] exI [of _ "snd d'"]) (auto simp: P_def prod_eq_iff)
  next
    case (Some m)
    have m: "bare_segment (tcp c) m" "length m + 3 < fuel"
      using assms(2,3) s(3,10) same_ends_packet [OF s(5), of m] by (auto simp: Some answer_ok_def bare_segment_def packet_for_def)
    let ?tx = "tx @ slip_frame esc_byte (tcp_packet (tcp c) 0 ?pl)"
    have "arrives script_line RS232_TPS m (puts script_line (slip_frame esc_byte (tcp_packet (tcp c) 0 ?pl)) (answer_rx a @ rx, tx)) (rx, ?tx)"
      using m(1) by (auto simp: puts_script Some answer_rx_def bare_segment_def packet_for_def intro!: arrives_script)
    from tcp_send_answered [OF s(2,4) ok(3,2,1) m(1) this m(2), of 0] obtain t where
      r: "tcp_send script_line fuel (tcp c) ?n ?data 0 (answer_rx a @ rx, tx) = Inr (0, t, (rx, ?tx))"
        "tcp_seq t = max (tcp_seq (tcp c)) (seg_ack m)" "tcp_ack t = tcp_ack (tcp c)" by (auto simp: tcp_send_def)
    from wire_packet [OF w on [of 0]] r kept [OF r(1)] s(9,10) Some show ?thesis
      by (intro exI [of _ 0] exI [of _ t] exI [of _ ?tx]) (simp add: line_sent_def)
  qed
qed

text \<open>The input is emptied, and the line shown, with what came of it.\<close>

lemma line_emptied:
  assumes "stands_for u con c tx v" and "\<not> v_open v" and "tcp_kept (tcp c) t" and "wire u tx' ss"
  defines "c' \<equiv> c\<lparr>tcp := t, window_open := False, input := (input c)[input_len c := 10, input_len c := 0], input_len := 0\<rparr>"
  shows "agrees u c' tx' (v\<lparr>v_line := [], v_seq := tcp_seq t, v_ack := tcp_ack t, v_sent := ss\<rparr>)" and "outp c' = outp c"
proof -
  note s = stands_for_sel [OF assms(1)]
  have "chat_ok c'" using chat_ok_tcp [OF s(1) assms(3)] by (simp add: c'_def chat_ok_def typed_def pending_def)
  moreover have "1 < tcp_seq t" using s(4) assms(3) by (auto simp: tcp_kept_def)
  ultimately show "agrees u c' tx' (v\<lparr>v_line := [], v_seq := tcp_seq t, v_ack := tcp_ack t, v_sent := ss\<rparr>)"
    using s(11,12) assms(2,4) same_ends_kept [OF s(5) assms(3)] by (auto simp: agrees_def c'_def typed_def pending_def)
qed (simp add: c'_def)

lemma line_shown:
  assumes "agrees u c tx v" and "displays (con_puts (outp c) con) (v_log v) row" and "plain s"
  shows "\<exists>c'. rbind (log_line s c) (\<lambda>c. rbind (if rc < (0 :: int) then log_line (asc ''*** send failed'') c else Inr c) (\<lambda>c. Inr (c, d))) = Inr (c', d) \<and>
    stands_for u con c' tx (v_show (if rc < 0 then [s, asc ''*** send failed''] else [s]) v)"
proof -
  from line_logged [OF assms] obtain c1 where c1: "log_line s c = Inr c1" "stands_for u con c1 tx (v_show [s] v)" by blast
  then have "agrees u c1 tx (v_show [s] v)" "displays (con_puts (outp c1) con) (v_log (v_show [s] v)) (input_text (v_line v))"
    by (simp_all add: stands_for_def)
  from line_logged [OF this plain_messages(3)] c1 show ?thesis by (cases "rc < 0") (auto simp: v_show_show)
qed

lemma entered:
  assumes "stands_for u con c tx v" and "600 \<le> fuel"
    and "v_line v \<noteq> [] \<Longrightarrow> length mw = 3 \<and> list_all (arrival_ok u) mw \<and> answer_ok u a (fold v_arrival mw v)"
  shows "\<exists>c' tx'. send_input script_line fuel c ((if v_line v \<noteq> [] then concat (map poll_rx mw) @ answer_rx a else []) @ rx, tx) = Inr (c', (rx, tx')) \<and>
    stands_for u con c' tx' (v_enter mw a v)"
proof (cases "v_line v = []")
  case True
  then show ?thesis using stands_for_sel(7) [OF assms(1)] assms(1) by (simp add: send_input_def v_enter_def)
next
  case False
  note len = stands_for_sel(7) [OF assms(1)]
  let ?rx = "answer_rx a @ rx" and ?v0 = "(v_emit 0 [] v)\<lparr>v_open := False\<rparr>"
  let ?v1 = "fold v_arrival mw ?v0"
  have mw: "length mw = 3" "list_all (arrival_ok u) mw" and ans: "answer_ok u a (fold v_arrival mw v)" using assms(3) [OF False] by blast+
  have "v_ack (fold v_arrival mw v) = v_ack ?v1" by (rule v_arrivals_ack) simp
  then have ans: "answer_ok u a ?v1" using ans by (simp add: answer_ok_def split: option.splits)
  let ?t0 = "tcp_sent (tcp c) 0 []" and ?tx0 = "tx @ slip_frame esc_byte (tcp_packet (tcp c) 0 [])"
  from assms(2) have "0 < fuel" by simp
  note closed = ack_emitted(1) [OF assms(1) this, where w = 0] ack_emitted(2) [OF assms(1) this, where w = 0 and b = False]
  from drained [OF closed(2) _ mw(2) assms(2), of ?rx] mw(1) obtain c1 tx1 where
    c1: "drain script_line fuel 3 (c\<lparr>tcp := ?t0, window_open := False\<rparr>) (concat (map poll_rx mw) @ ?rx, ?tx0) = Inr (c1, (?rx, tx1))"
      "stands_for u con c1 tx1 ?v1" "\<not> v_open ?v1" by auto
  note s = stands_for_sel [OF c1(2)]
  have line: "v_line ?v1 = v_line v" by simp
  from line_on_wire [OF c1(2) ans assms(2), of rx] obtain rc t tx2 where
    t: "tcp_send script_line fuel (tcp c1) (input_len c1 + 1) (Some ((input c1)[input_len c1 := 10])) 0 (?rx, tx1) = Inr (rc, t, (rx, tx2))"
      "rc < 0 \<longleftrightarrow> a = None" "tcp_kept (tcp c1) t" "wire u tx2 (v_sent ?v1 @ line_sent a ?v1)" "tcp_ack t = v_ack ?v1"
      "tcp_seq t = (case a of None \<Rightarrow> v_seq ?v1 | Some m \<Rightarrow> max (v_seq ?v1) (seg_ack m))" by auto
  let ?c2 = "c1\<lparr>tcp := t, window_open := False, input := (input c1)[input_len c1 := 10, input_len c1 := 0], input_len := 0\<rparr>"
  note e = line_emptied [OF c1(2,3) t(3,4)]
  have pl: "plain (v_line v)" using s(1,6) line by (simp add: chat_ok_def)
  have "displays (con_puts (outp ?c2) con) (v_log (?v1\<lparr>v_line := [], v_seq := tcp_seq t, v_ack := tcp_ack t, v_sent := v_sent ?v1 @ line_sent a ?v1\<rparr>))
      (input_text (v_line ?v1))" using c1(2) unfolding stands_for_def by simp
  from line_shown [OF e(1) this pl, of rc "(rx, tx2)"] obtain c3 where
    c3: "rbind (log_line (v_line v) ?c2) (\<lambda>c. rbind (if rc < 0 then log_line (asc ''*** send failed'') c else Inr c) (\<lambda>c. Inr (c, (rx, tx2)))) = Inr (c3, (rx, tx2))"
      "stands_for u con c3 tx2 (v_enter mw a v)" unfolding v_enter_sent [OF False] t(2,5,6) by blast
  have store: "wr (input c1) (input_len c1) 10 = Inr ((input c1)[input_len c1 := 10])"
    "wr ((input c1)[input_len c1 := 10]) (input_len c1) 0 = Inr ((input c1)[input_len c1 := 10, input_len c1 := 0])"
    using s(1) by (simp_all add: chat_ok_def wr_def)
  have "typed c1 = v_line v" using s(6) line by simp
  then have "send_input script_line fuel c (concat (map poll_rx mw) @ ?rx, tx) = Inr (c3, (rx, tx2))"
    using c3(1) typed_string [OF s(1)] len False by (simp add: send_input_def closed(1) c1(1) store t(1) Let_def del: One_nat_def)
  then show ?thesis using c3(2) False by auto
qed

section \<open>Turns and runs\<close>

lemma key_step:
  assumes "stands_for u con c tx v" and "turn_ok u t v" and "600 \<le> fuel"
  shows "\<exists>c' tx'. (if t_key t \<noteq> 0 then handle_key script_line fuel (t_key t) c (turn_rx t v @ rx, tx) else Inr (0, c, (turn_rx t v @ rx, tx))) =
      Inr (0, c', (poll_rx (t_arrival t) @ rx, tx')) \<and> stands_for u con c' tx' (v_key t v)"
proof -
  note s = stands_for_sel [OF assms(1)]
  have quit: "t_key t \<noteq> KEY_QUIT" using assms(2) by (simp add: turn_ok_def)
  consider "t_key t = 0" | "t_key t = KEY_ENTER" | "t_key t \<noteq> 0" "t_key t \<noteq> KEY_ENTER" by blast
  then show ?thesis
  proof cases
    case 1
    then show ?thesis using assms(1) by (simp add: turn_rx_def sends_line_def v_key_def)
  next
    case 2
    let ?rx = "poll_rx (t_arrival t) @ rx"
    have "v_line v \<noteq> [] \<Longrightarrow> length (t_meanwhile t) = 3 \<and> list_all (arrival_ok u) (t_meanwhile t) \<and>
        answer_ok u (t_answer t) (fold v_arrival (t_meanwhile t) v)"
      using assms(2) 2 by (simp add: turn_ok_def sends_line_def)
    from entered [OF assms(1,3) this, of ?rx] obtain c' tx' where
      "send_input script_line fuel c (turn_rx t v @ rx, tx) = Inr (c', (?rx, tx'))" "stands_for u con c' tx' (v_enter (t_meanwhile t) (t_answer t) v)"
      using 2 by (auto simp: turn_rx_def sends_line_def)
    then show ?thesis using 2 by (simp add: handle_key_def v_key_def)
  next
    case 3
    from chat_key [OF s(1) 3(2) quit, of script_line fuel "(turn_rx t v @ rx, tx)"] obtain c' out where
      c': "handle_key script_line fuel (t_key t) c (turn_rx t v @ rx, tx) = Inr (0, c', (turn_rx t v @ rx, tx))"
        "typed c' = edit_key 80 (t_key t) (typed c)" "chat_ok c'" "tcp c' = tcp c" "window_open c' = window_open c" "pending c' = pending c"
        "logline_emitted c' = logline_emitted c" "outp c' = outp c @ out" "row_edited 80 (t_key t) (typed c) out" by blast
    have "plain (typed c)" using s(1) by (simp add: chat_ok_def)
    moreover have "displays (con_puts (outp c) con) (v_log v) (input_text (typed c))" using assms(1) by (simp add: stands_for_def s(6))
    moreover note c'(9)
    ultimately have "displays (con_puts (outp c') con) (v_log v) (input_text (edit_key 80 (t_key t) (v_line v)))"
      using row_edited_displays [of 80 "t_key t" "typed c" out] by (simp add: c'(8) s(6))
    then have "stands_for u con c' tx (v_key t v)"
      using assms(1) c'(2-7) 3 by (auto simp: stands_for_def agrees_def v_key_def)
    then show ?thesis using 3 c'(1) by (simp add: turn_rx_def sends_line_def)
  qed
qed

lemma turn_step:
  assumes "stands_for u con c tx v" and "turn_ok u t v" and "600 \<le> fuel"
  shows "\<exists>c' tx'. chat_turn script_line script_keys fuel c (t_key t # ks) (turn_rx t v @ rx, tx) = Inr (True, c', ks, (rx, tx')) \<and>
    stands_for u con c' tx' (v_turn t v)"
proof -
  from key_step [OF assms, of rx] obtain c1 tx1 where
    c1: "(if t_key t \<noteq> 0 then handle_key script_line fuel (t_key t) c (turn_rx t v @ rx, tx) else Inr (0, c, (turn_rx t v @ rx, tx))) =
        Inr (0, c1, (poll_rx (t_arrival t) @ rx, tx1))" "stands_for u con c1 tx1 (v_key t v)" by blast
  have "arrival_ok u (t_arrival t)" using assms(2) by (simp add: turn_ok_def)
  from poll_step [OF c1(2) this assms(3), of rx] obtain c2 tx2 where
    c2: "poll_net script_line fuel c1 (poll_rx (t_arrival t) @ rx, tx1) = Inr (0, c2, (rx, tx2))" "stands_for u con c2 tx2 (v_turn t v)"
    by (auto simp: v_turn_def)
  have "in_GetKey script_keys (t_key t # ks) = (t_key t, ks)" by (simp add: script_keys_def)
  then have "chat_turn script_line script_keys fuel c (t_key t # ks) (turn_rx t v @ rx, tx) = Inr (True, c2, ks, (rx, tx2))"
    using c2(1) by (simp only: chat_turn_def Let_def prod.case c1(1) rbind_Inr) simp
  then show ?thesis using c2(2) by blast
qed

text \<open>The end: nothing is sent any more but what opens the window.\<close>

lemma end_step:
  assumes "stands_for u con c tx v" and "end_ok u e v" and "600 \<le> fuel"
  shows "\<exists>c' tx'. chat_turn script_line script_keys fuel c ((case e of None \<Rightarrow> KEY_QUIT | Some _ \<Rightarrow> 0) # ks) (end_rx e @ rx, tx) =
      Inr (False, c', ks, (rx, tx')) \<and>
    displays (con_puts (outp c') con) (v_log (v_end e v)) (input_text (v_line v)) \<and> wire u tx' (v_sent (v_end e v))"
proof (cases e)
  case None
  then show ?thesis
    using assms(1) by (simp add: chat_turn_def script_keys_def handle_key_def end_rx_def v_end_def stands_for_def agrees_def)
next
  case (Some p)
  obtain m msg where p: "p = (m, msg)" by fastforce
  let ?d = "(map Some (slip_frame esc_byte m) @ rx, tx)"
  obtain c1 tx1 where c1: "poll_net script_line fuel c (map Some (slip_frame esc_byte m) @ rx, tx) =
        poll_net script_line fuel c1 (map Some (slip_frame esc_byte m) @ rx, tx1)"
      "window_open c1" "stands_for u con c1 tx1 (v_opened v)"
    using poll_opens [OF assms(1), of fuel] assms(3) by fastforce
  note s = stands_for_sel [OF c1(3)]
  have m: "packet_for (tcp c1) m" "farewell (tcp c1) m = Some msg"
    using assms(2) Some p s(10) same_ends_packet [OF s(5), of m]
    by (auto simp: end_ok_def v_opened_def farewell_def)
  then have "length m + 2 < fuel" using s(3) assms(3) by (auto simp: packet_for_def)
  from chat_farewell [OF s(1) c1(2) m(2) s(4) m(1) arrives_script this, of rx tx1] obtain c2 where
    c2: "poll_net script_line fuel c1 (map Some (slip_frame esc_byte m) @ rx, tx1) = Inr (- 1, c2, (rx, tx1))"
      "outp c2 = outp c1 @ log_output (asc msg) (input_text (typed c1))" by auto
  note pl = plain_farewell [OF m(2)]
  have line: "v_line (v_opened v) = v_line v" by (simp add: v_opened_def)
  have now: "displays (con_puts (outp c1) con) (v_log (v_opened v)) (input_text (v_line v))" "wire u tx1 (v_sent (v_opened v))"
    using c1(3) line by (simp_all add: stands_for_def agrees_def)
  from chat_screen.log_displays [OF this(1) s(1) pl] have "displays (con_puts (outp c2) con) (v_log (v_end e v)) (input_text (v_line v))"
    using c2(2) s(6) line chat_screen.log_out_eq [OF s(1) pl] by (simp add: v_end_def Some p v_show_def)
  moreover have "chat_turn script_line script_keys fuel c (0 # ks) (map Some (slip_frame esc_byte m) @ rx, tx) = Inr (False, c2, ks, (rx, tx1))"
    by (simp add: chat_turn_def script_keys_def c1(1) c2(1))
  ultimately show ?thesis using now(2) by (auto simp: Some p end_rx_def v_end_def)
qed

lemma run_steps:
  assumes "stands_for u con c tx v" and "run_ok u ts v" and "end_ok u e (fold v_turn ts v)" and "600 + length ts < fuel"
  shows "\<exists>c' tx'. chat_loop script_line script_keys fuel c (run_keys ts e @ ks) (run_rx ts v @ end_rx e @ rx, tx) = Inr (c', ks, (rx, tx')) \<and>
    displays (con_puts (outp c') con) (v_log (v_run ts e v)) (input_text (v_line (v_run ts e v))) \<and> wire u tx' (v_sent (v_run ts e v))"
  using assms
proof (induction ts arbitrary: c tx v fuel)
  case Nil
  then obtain f where f: "fuel = Suc f" "600 \<le> f" by (cases fuel) auto
  have "v_line (v_run [] e v) = v_line v" by (simp add: v_run_def v_end_def v_opened_def split: option.splits)
  with end_step [OF Nil.prems(1) _ f(2), of e ks rx] Nil.prems(3) show ?case
    by (auto simp: f(1) run_keys_def v_run_def)
next
  case (Cons t ts)
  obtain f where f: "fuel = Suc f" "600 \<le> f" "600 + length ts < f" using Cons.prems(4) by (cases fuel) auto
  have ok: "turn_ok u t v" "run_ok u ts (v_turn t v)" "end_ok u e (fold v_turn ts (v_turn t v))" using Cons.prems(2,3) by simp_all
  from turn_step [OF Cons.prems(1) ok(1) f(2), of "run_keys ts e @ ks" "run_rx ts (v_turn t v) @ end_rx e @ rx"] obtain c1 tx1 where
    "chat_turn script_line script_keys f c (t_key t # run_keys ts e @ ks) (turn_rx t v @ run_rx ts (v_turn t v) @ end_rx e @ rx, tx) =
      Inr (True, c1, run_keys ts e @ ks, (run_rx ts (v_turn t v) @ end_rx e @ rx, tx1))" "stands_for u con c1 tx1 (v_turn t v)" by blast
  with Cons.IH [OF this(2) ok(2,3) f(3)] show ?case
    by (simp add: f(1) run_keys_def v_run_def)
qed

section \<open>The whole program\<close>

lemma connected_stands_for:
  assumes "syn_ack (dialled ip port) m" and "chat_ok c" and "tcp c = established (dialled ip port) m" and "typed c = []"
    and "\<not> window_open c" and "pending c = []" and "\<not> logline_emitted c"
    and "displays (con_puts (outp c) con) (log_rows (asc ''*** connected. CAPS+SYM+C quits.'')) (input_text [])"
  shows "stands_for (dialled ip port) con c (slip_frame esc_byte (tcp_packet (syn_ctx (dialled ip port)) 1 []) @
    slip_frame esc_byte (tcp_packet (syn_acked (dialled ip port) m) 0 [])) (v_connected m)"
proof -
  let ?u = "dialled ip port"
  have "same_ends ?u (established ?u m)"
    using established_wf(2) [OF dialled_wf(1) assms(1)] by (simp add: same_ends_def)
  moreover have "list_all2 (carries ?u) [tcp_packet (syn_ctx ?u) 1 [], tcp_packet (syn_acked ?u m) 0 []] (v_sent (v_connected m))"
    using carries_packet [of "syn_ctx ?u" ?u "[]" 1] carries_packet [of "syn_acked ?u m" ?u "[]" 0] by (simp add: v_connected_def)
  from wire_packets [OF wire_Nil this] have "wire ?u (slip_frame esc_byte (tcp_packet (syn_ctx ?u) 1 []) @
      slip_frame esc_byte (tcp_packet (syn_acked ?u m) 0 [])) (v_sent (v_connected m))" by simp
  ultimately show ?thesis
    using assms(2-8) by (simp add: stands_for_def agrees_def) (simp add: v_connected_def)
qed

lemma chat_main_runs:
  assumes "keys_answer script_keys kip (in_GetKeyReset script_keys keys) ks1" and "keys_answer script_keys kport ks1 (run_keys ts e @ ks)"
    and "edited 81 kip = dotted ip" and "length ip = 4" and "edited 81 kport = dec port" and "0 < port" and "port < 2 ^ 16"
    and "length line = 82" and "length kip + 1 < fuel" and "length kport + 1 < fuel" and "600 + length ts < fuel"
    and "syn_ack (dialled ip port) m" and "run_ok (dialled ip port) ts (v_connected m)"
    and "end_ok (dialled ip port) e (fold v_turn ts (v_connected m))"
  shows "\<exists>c tx. chat_main script_line script_keys fuel line baud parity keys
      (map Some (slip_frame esc_byte m) @ run_rx ts (v_connected m) @ end_rx e @ rx, []) =
      Inr (0, putcs (at INPUT_ROW 0 @ [10]) c, ks, (rx, tx)) \<and>
    displays (con_puts (outp c) fresh_console) (v_log (v_run ts e (v_connected m))) (input_text (v_line (v_run ts e (v_connected m)))) \<and>
    wire (dialled ip port) tx (v_sent (v_run ts e (v_connected m)))"
proof -
  let ?u = "dialled ip port" and ?rx = "run_rx ts (v_connected m) @ end_rx e @ rx"
  let ?syn = "slip_frame esc_byte (tcp_packet (syn_ctx ?u) 1 [])" and ?ack = "slip_frame esc_byte (tcp_packet (syn_acked ?u m) 0 [])"
  obtain r where init: "slip_init script_line baud parity (map Some (slip_frame esc_byte m) @ ?rx, []) = (r, (map Some (slip_frame esc_byte m) @ ?rx, []))"
    using slip_init_script by blast
  have arr: "arrives script_line RS232_TPS m (puts script_line ?syn (map Some (slip_frame esc_byte m) @ ?rx, [])) (?rx, ?syn)"
    by (simp add: puts_script arrives_script)
  have fuel: "length m + 4 < fuel" using assms(11,12) by (auto simp: syn_ack_def packet_for_def dialled_wf)
  from chat_starts [OF assms(1-10) init assms(12) arr fuel] obtain c where
    c: "chat_main script_line script_keys fuel line baud parity keys (map Some (slip_frame esc_byte m) @ ?rx, []) =
      rbind (chat_loop script_line script_keys fuel c (run_keys ts e @ ks) (?rx, ?syn @ ?ack)) (\<lambda>(c, ks, d).
        Inr (0, putcs (at INPUT_ROW 0 @ [10]) c, ks, d))"
    and ok: "chat_ok c" "tcp c = established ?u m" "typed c = []" "\<not> window_open c" "pending c = []" "\<not> logline_emitted c"
      "displays (con_puts (outp c) fresh_console) (log_rows (asc ''*** connected. CAPS+SYM+C quits.'')) (input_text [])"
    by (auto simp: puts_script)
  from run_steps [OF connected_stands_for [OF assms(12) ok] assms(13,14,11), of ks rx] c show ?thesis by auto
qed

text \<open>
  A run: the user types a letter and ENTER, the peer takes the line and answers with one of its own, and
  then closes the session.
\<close>

definition demo_turns :: "turn list" where
  "demo_turns =
     [\<lparr>t_key = 0x68, t_meanwhile = [], t_answer = None, t_arrival = None\<rparr>,
      \<lparr>t_key = KEY_ENTER, t_meanwhile = [None, None, None], t_answer = Some (demo_seg 100 4 TCP_ACK []),
        t_arrival = Some (demo_seg 100 4 0x18 [111, 107, 10])\<rparr>]"

definition demo_end :: "(bytes \<times> string) option" where
  "demo_end = Some (demo_seg 103 4 0x11 [], ''*** server closed the connection'')"

lemma demo_run_ok: "run_ok (demo_tcp 0 0) demo_turns (v_connected (demo_seg 99 2 0x12 []))"
  by (simp add: demo_turns_def turn_ok_def arrival_ok_def answer_ok_def sends_line_def v_turn_def v_key_def v_opened_def v_connected_def
      v_arrival_def edit_key_def is_delete_def data_segment_def)

lemma demo_run:
  "v_sent (v_run demo_turns demo_end (v_connected (demo_seg 99 2 0x12 []))) =
     [(1, 0, 1, []), (2, 100, 0, []), (2, 100, RX_WINDOW, []), (2, 100, 0, []), (2, 100, 0, [104, 10]),
      (4, 100, RX_WINDOW, []), (4, 103, 0, []), (4, 103, RX_WINDOW, [])]"
  "v_log (v_run demo_turns demo_end (v_connected (demo_seg 99 2 0x12 []))) =
     log_rows (asc ''*** connected. CAPS+SYM+C quits.'') @ log_rows [104] @ log_rows [111, 107] @
     log_rows (asc ''*** server closed the connection'')"
  by (simp_all add: demo_turns_def demo_end_def v_turn_def v_key_def v_opened_def v_connected_def v_enter_def v_run_def v_end_def
      v_emit_def v_show_def v_arrival_def v_receive_def edit_key_def is_delete_def seg_payload_def Let_def segment_texts_def
      segment_mid_def feed_def visible_def)

lemma demo_end_ok: "end_ok (demo_tcp 0 0) demo_end (fold v_turn demo_turns (v_connected (demo_seg 99 2 0x12 [])))"
  by (simp add: demo_turns_def demo_end_def end_ok_def farewell_def v_turn_def v_key_def v_opened_def v_connected_def v_enter_def
      v_arrival_def v_receive_def edit_key_def is_delete_def seg_payload_def Let_def)

lemma demo_run_answers:
  "keys_answer script_keys demo_ip_keys (in_GetKeyReset script_keys (demo_ip_keys @ 13 # demo_port_keys @ 13 # run_keys demo_turns demo_end @ []))
    (demo_port_keys @ 13 # run_keys demo_turns demo_end @ [])"
  using demo_keys_answer(1) by (simp add: script_keys_def)

end
