(* ===== verification/Ping.thy ===== *)
theory Ping
  imports Terminal Icmp
begin

text \<open>
  The program \<^verbatim>\<open>ping.c\<close>: it reads an address with \<^verbatim>\<open>scanf\<close>, pings it once with \<^verbatim>\<open>icmp_echo_request\<close> and
  prints the result. What \<^verbatim>\<open>scanf\<close> does with the format \<^verbatim>\<open>%d.%d.%d.%d\n\<close> is written out, the white space
  at its end included; the array \<^verbatim>\<open>ipi\<close> is an argument, because the program does not initialise it and
  does not look at the result of \<^verbatim>\<open>scanf\<close>. The argument \<^verbatim>\<open>stdin\<close> is what has been typed so far: the console has no
  end of file, so a call that needs a character which has not been typed still waits for it, and
  the result is \<open>OutOfFuel\<close>. Output is the text printed after \<^verbatim>\<open>zx_cls\<close>.
\<close>

section \<open>The program\<close>

text \<open>
  The conversion \<^verbatim>\<open>%d\<close>: white space, a sign, digits; an \<^verbatim>\<open>int\<close> has 16 bits. The number, if there is one, and what
  follows it: the character after the digits has been looked at.
\<close>

abbreviation is_white :: "u8 \<Rightarrow> bool" where "is_white c \<equiv> c = 32 \<or> 9 \<le> c \<and> c \<le> 13"

definition scan_digits :: "bytes \<Rightarrow> (u16 option \<times> bytes) res" where
  "scan_digits s =
     (let ds = takeWhile (\<lambda>c. is_digit c) s;
          r = drop (length ds) s in
      if r = [] then Inl OutOfFuel
      else if ds = [] then Inr (None, r)
      else Inr (Some (fold (\<lambda>c v. v * 10 + (ucast c - 48)) ds 0), r))"

definition scan_int :: "bytes \<Rightarrow> (u16 option \<times> bytes) res" where
  "scan_int s =
     (case dropWhile (\<lambda>c. is_white c) s of
        [] \<Rightarrow> Inl OutOfFuel
      | c # cs \<Rightarrow>
          if c = 45 then rbind (scan_digits cs) (\<lambda>(v, r). Inr (map_option uminus v, r))
          else if c = 43 then scan_digits cs
          else scan_digits (c # cs))"

text \<open>White space in the format: all the white space there is, up to a character that is none.\<close>

definition scan_white :: "bytes \<Rightarrow> bytes res" where
  "scan_white s = (let r = dropWhile (\<lambda>c. is_white c) s in if r = [] then Inl OutOfFuel else Inr r)"

text \<open>
  The whole format: the first number that is not there, or the first dot, ends the call, and
  what has not been reached keeps its value. After the last number comes the white space.
\<close>

fun scan_ints :: "nat \<Rightarrow> nat \<Rightarrow> bytes \<Rightarrow> u16 list \<Rightarrow> (u16 list \<times> bytes) res" where
  "scan_ints 0 i s ipi = rbind (scan_white s) (\<lambda>s. Inr (ipi, s))"
| "scan_ints (Suc left) i s ipi =
     rbind (scan_int s) (\<lambda>(v, s).
     case v of
       None \<Rightarrow> Inr (ipi, s)
     | Some v \<Rightarrow>
         (let ipi = ipi[i := v] in
          if left = 0 then scan_ints 0 (i + 1) s ipi
          else if s = [] then Inl OutOfFuel
          else if hd s = 46 then scan_ints left (i + 1) (tl s) ipi
          else Inr (ipi, s)))"

text \<open>The static variables \<^verbatim>\<open>ip_ctx\<close> and \<^verbatim>\<open>icmp_buf\<close>.\<close>

definition ping_static :: ip_context where
  "ping_static = \<lparr>saddr = 0, daddr = 0, pkt_size = 112, ip_id = 0, pkt = replicate 112 0\<rparr>"

definition set_daddr :: "bytes \<Rightarrow> ip_context \<Rightarrow> ip_context" where
  "set_daddr ip c = c\<lparr>daddr := of_le32 (ip ! 0) (ip ! 1) (ip ! 2) (ip ! 3)\<rparr>"

definition ping_main :: "'d platform \<Rightarrow> nat \<Rightarrow> bytes \<Rightarrow> u16 list \<Rightarrow> int \<Rightarrow> int \<Rightarrow> 'd \<Rightarrow> (bytes \<times> ip_context \<times> 'd) res" where
  "ping_main pf fuel stdin ipi baud parity d =
     (let ip_ctx = ping_static\<lparr>saddr := 0x020200c0\<rparr>;
          out = asc ''My IP ADDRESS: '' @ dotted (le32 (saddr ip_ctx)) @ [10];
          out = out @ asc ''IP ADDRESS to ping: '' in
      rbind (scan_ints 4 0 stdin ipi) (\<lambda>(ipi, _).
      let ip_ctx = set_daddr (map ucast ipi) ip_ctx;
          out = out @ [10];
          (_, d) = slip_init pf baud parity d in
      rbind (icmp_echo_request pf fuel ip_ctx d) (\<lambda>(rc, ip_ctx, d).
      let ip = le32 (daddr ip_ctx) in
      if rc = 0 then Inr (out @ dotted ip @ asc '' is alive'' @ [10], ip_ctx, d)
      else Inr (out @ asc ''No response from '' @ dotted ip @ [10], ip_ctx, d))))"

section \<open>Reading the address\<close>

lemma scan_digits_dec:
  assumes "\<not> is_digit c"
  shows "scan_digits (dec n @ c # rest) = Inr (Some (word_of_nat n), c # rest)"
proof -
  have "takeWhile (\<lambda>c. is_digit c) (dec n @ c # rest) = dec n"
    using dec_digits [of n] assms by (auto simp: takeWhile_append)
  then show ?thesis using dec_nonempty [of n] dec_value [of n] by (auto simp: scan_digits_def)
qed

lemma scan_int_dec:
  assumes "\<not> is_digit e"
  shows "scan_int (dec n @ e # rest) = Inr (Some (word_of_nat n), e # rest)"
proof -
  obtain c cs where c: "dec n = c # cs" "is_digit c" using dec_nonempty [of n] by blast
  then have "48 \<le> unat c" by (simp add: word_le_nat_alt)
  then have "\<not> is_white c" "c \<noteq> 45" "c \<noteq> 43" by (auto simp: word_le_nat_alt)
  then have "dropWhile (\<lambda>c. is_white c) (dec n @ e # rest) = c # cs @ e # rest" by (auto simp: c(1))
  then show ?thesis
    using scan_digits_dec [OF assms, of n] c \<open>c \<noteq> 45\<close> \<open>c \<noteq> 43\<close> by (simp add: scan_int_def)
qed

text \<open>A typed address and ENTER: all four numbers are read, and then the white space is skipped.\<close>

lemma scan_ints_dotted:
  assumes "length ip = 4" and "length ipi = 4"
  shows "\<exists>v. scan_ints 4 0 (dotted ip @ 10 # rest) ipi = rbind (scan_white (10 # rest)) (\<lambda>s. Inr (v, s)) \<and> map ucast v = ip"
proof -
  from assms(1) obtain a b e f where ip: "ip = [a, b, e, f]" by (auto simp: numeral_eq_Suc length_Suc_conv)
  from assms(2) obtain q r s t where old: "ipi = [q, r, s, t]" by (auto simp: numeral_eq_Suc length_Suc_conv)
  have "dotted ip @ 10 # rest = dec (unat a) @ 46 # dec (unat b) @ 46 # dec (unat e) @ 46 # dec (unat f) @ 10 # rest"
    by (simp add: dotted_def ip asc_def)
  moreover have "(ucast (word_of_nat (unat x) :: u16) :: u8) = x" for x
    by (simp, rule bit_word_eqI) (auto simp: bit_simps)
  moreover have "scan_int (dec n @ 46 # rest) = Inr (Some (word_of_nat n), 46 # rest)"
    "scan_int (dec n @ 10 # rest) = Inr (Some (word_of_nat n), 10 # rest)" for n rest
    by (rule scan_int_dec, simp)+
  moreover have "scan_ints 4 = scan_ints (Suc (Suc (Suc (Suc 0))))" by (simp add: numeral_eq_Suc)
  ultimately show ?thesis by (intro exI [of _ "map ucast ip"]) (simp add: ip old)
qed

lemma scan_white_waits: "list_all is_white ws \<Longrightarrow> scan_white ws = Inl OutOfFuel"
  by (simp add: scan_white_def Let_def dropWhile_eq_Nil_conv list_all_iff)

lemma scan_white_stops: "list_all is_white ws \<Longrightarrow> \<not> is_white c \<Longrightarrow> scan_white (ws @ c # later) = Inr (c # later)"
  by (induction ws) (auto simp: scan_white_def)

section \<open>Properties\<close>

text \<open>The context with which the program calls \<^verbatim>\<open>icmp_echo_request\<close>.\<close>

definition ping_to :: "bytes \<Rightarrow> ip_context" where
  "ping_to ip = set_daddr ip (ping_static\<lparr>saddr := 0x020200c0\<rparr>)"

lemma icmp_ready_ping_to: "icmp_ready (ping_to ip)"
  by (simp add: icmp_ready_def ping_to_def set_daddr_def ping_static_def)

text \<open>
  The program on a typed address: it waits as long as nothing but white space follows, and then it is the call of
  \<^verbatim>\<open>icmp_echo_request\<close> it makes.
\<close>

lemma ping_main_waits:
  assumes "length ip = 4" and "length ipi = 4" and "list_all is_white ws"
  shows "ping_main pf fuel (dotted ip @ 10 # ws) ipi baud parity d = Inl OutOfFuel"
  using scan_ints_dotted [OF assms(1,2), of ws] scan_white_waits [of "10 # ws"] assms(3) by (auto simp: ping_main_def)

lemma ping_main_typed:
  assumes "length ip = 4" and "length ipi = 4" and "list_all is_white ws" and "\<not> is_white c"
    and "slip_init pf baud parity d = (rc, d1)"
  shows "ping_main pf fuel (dotted ip @ 10 # ws @ c # later) ipi baud parity d =
    rbind (icmp_echo_request pf fuel (ping_to ip) d1) (\<lambda>(rc, ip_ctx, d).
      Inr (asc ''My IP ADDRESS: '' @ dotted [192, 0, 2, 2] @ [10] @ asc ''IP ADDRESS to ping: '' @ [10] @
        (if rc = 0 then dotted (le32 (daddr ip_ctx)) @ asc '' is alive'' @ [10]
         else asc ''No response from '' @ dotted (le32 (daddr ip_ctx)) @ [10]), ip_ctx, d))"
proof -
  from scan_ints_dotted [OF assms(1,2), of "ws @ c # later"] scan_white_stops [of "10 # ws" c later] assms(3,4) obtain v where
    "scan_ints 4 0 (dotted ip @ 10 # ws @ c # later) ipi = Inr (v, c # later)" "map ucast v = ip" by auto
  moreover have "le32 (saddr (ping_static\<lparr>saddr := 0x020200c0\<rparr>)) = [192, 0, 2, 2]" by (simp add: le32_def)
  ultimately show ?thesis
    unfolding ping_main_def Let_def assms(5) ping_to_def
    by (auto intro!: arg_cong [where f = "rbind _"])
qed

text \<open>The requests of the program, all to the address.\<close>

lemma ping_request:
  assumes "length ip = 4"
  shows "length (icmp_request ((ping_to ip)\<lparr>ip_id := i\<rparr>)) = 36"
    and "take 4 (drop 16 (icmp_request ((ping_to ip)\<lparr>ip_id := i\<rparr>))) = ip"
    and "icmp_request ((ping_to ip)\<lparr>ip_id := i\<rparr>) ! 9 = IP_ICMP"
    and "icmp_request ((ping_to ip)\<lparr>ip_id := i\<rparr>) ! 20 = ICMP_TYPE_ECHO"
proof -
  let ?ip = "(ping_to ip)\<lparr>ip_id := i\<rparr>"
  show "length (icmp_request ?ip) = 36" by (simp add: icmp_request_def)
  show "take 4 (drop 16 (icmp_request ?ip)) = ip"
    using le32_of_le32 [OF assms] by (simp add: icmp_request_def ip_header_daddr ping_to_def set_daddr_def)
  show "icmp_request ?ip ! 9 = IP_ICMP" by (simp add: icmp_request_def ip_header_def ip_head_def be16_def le16_def Let_def)
  show "icmp_request ?ip ! 20 = ICMP_TYPE_ECHO" by (simp add: icmp_request_def icmp_echo_def nth_append)
qed

lemma slip_init_line: "slip_init script_line baud parity d = (0, d)"
  by (simp add: slip_init_def script_line_def)

section \<open>Properties\<close>

text \<open>
  C38: \<^verbatim>\<open>ping\<close> answers the question it is asked, on every line. A typed address and ENTER are not enough: the
  program waits for a character that is not white space. With one it sends its request to exactly
  the typed address, whatever the uninitialised array held before, and repeats it while nothing
  begins to arrive in the 79 reads of a try, five times at most. It prints that the address is alive exactly when a frame begins to
  arrive within these five tries and this frame is an echo reply; a line
  on which nothing ever arrives, such as silence, gets five requests and the answer that there is no response. The line holds anything without an END,
  and then nothing more or a frame and anything after it.
\<close>

theorem ping_reports:
  assumes "length ip = 4" and "length ipi = 4" and "list_all is_white ws" and "\<not> is_white c" and "Some END \<notin> set noise"
    and "\<forall>m. reply = Some m \<longrightarrow> m \<noteq> [] \<and> length m \<le> 112 \<and> length m < fuel"
  shows "ping_main script_line fuel (dotted ip @ 10 # ws) ipi baud parity (answer_line noise reply rx, tx) = Inl OutOfFuel \<and>
    (\<exists>ctx rx' ps.
      ping_main script_line fuel (dotted ip @ 10 # ws @ c # later) ipi baud parity (answer_line noise reply rx, tx) =
        Inr (asc ''My IP ADDRESS: '' @ dotted [192, 0, 2, 2] @ [10] @ asc ''IP ADDRESS to ping: '' @ [10] @
          (if \<exists>m. reply = Some m \<and> length noise < 5 * 79 \<and> 28 \<le> length m \<and> m ! 0 = 0x45 \<and> m ! 9 = IP_ICMP \<and>
              m ! 20 = ICMP_TYPE_ECHO_REPLY
           then dotted ip @ asc '' is alive'' @ [10]
           else asc ''No response from '' @ dotted ip @ [10]),
          ctx, (rx', tx @ concat (map (slip_frame esc_byte) ps))) \<and>
      length ps = (if reply = None then 5 else min 5 (length noise div 79 + 1)) \<and>
      list_all (\<lambda>p. length p = 36 \<and> take 4 (drop 16 p) = ip \<and> p ! 9 = IP_ICMP \<and> p ! 20 = ICMP_TYPE_ECHO) ps)"
proof (intro conjI ping_main_waits assms)
  let ?n = "if reply = None then 5 else min 5 (length noise div 79 + 1)"
  let ?ps = "map (\<lambda>i. icmp_request ((ping_to ip)\<lparr>ip_id := ip_id (ping_to ip) + of_nat i\<rparr>)) [0..<?n]"
  define alive where "alive \<longleftrightarrow> (\<exists>m. reply = Some m \<and> length noise < 5 * 79 \<and> 28 \<le> length m \<and> m ! 0 = 0x45 \<and>
    m ! 9 = IP_ICMP \<and> m ! 20 = ICMP_TYPE_ECHO_REPLY)"
  have sent: "icmp_requests ?n (ping_to ip) = concat (map (slip_frame esc_byte) ?ps)"
    by (simp add: icmp_requests_def comp_def)
  have "length (pkt (ping_to ip)) = 112" by (simp add: ping_to_def set_daddr_def ping_static_def)
  then have "\<forall>m. reply = Some m \<longrightarrow> m \<noteq> [] \<and> length m \<le> length (pkt (ping_to ip)) \<and> length m < fuel"
    using assms(6) by simp
  from icmp_again_line [OF icmp_ready_ping_to assms(5) this, of 4 rx tx] obtain ctx rx' where
    r: "icmp_echo_request script_line fuel (ping_to ip) (answer_line noise reply rx, tx) =
      Inr (if \<exists>m. reply = Some m \<and> length noise < 5 * 79 \<and> 28 \<le> length m \<and> m ! 0 = 0x45 \<and> m ! 9 = IP_ICMP \<and> m ! 20 = ICMP_TYPE_ECHO_REPLY
           then 0 else - 1, ctx, (rx', tx @ icmp_requests ?n (ping_to ip)))"
    and d: "daddr ctx = daddr (ping_to ip)" by (auto simp: icmp_echo_request_def)
  have "le32 (daddr ctx) = ip" using le32_of_le32 [OF assms(1)] by (simp add: d ping_to_def set_daddr_def)
  then show "\<exists>ctx rx' ps.
      ping_main script_line fuel (dotted ip @ 10 # ws @ c # later) ipi baud parity (answer_line noise reply rx, tx) =
        Inr (asc ''My IP ADDRESS: '' @ dotted [192, 0, 2, 2] @ [10] @ asc ''IP ADDRESS to ping: '' @ [10] @
          (if \<exists>m. reply = Some m \<and> length noise < 5 * 79 \<and> 28 \<le> length m \<and> m ! 0 = 0x45 \<and> m ! 9 = IP_ICMP \<and>
              m ! 20 = ICMP_TYPE_ECHO_REPLY
           then dotted ip @ asc '' is alive'' @ [10]
           else asc ''No response from '' @ dotted ip @ [10]),
          ctx, (rx', tx @ concat (map (slip_frame esc_byte) ps))) \<and>
      length ps = ?n \<and>
      list_all (\<lambda>p. length p = 36 \<and> take 4 (drop 16 p) = ip \<and> p ! 9 = IP_ICMP \<and> p ! 20 = ICMP_TYPE_ECHO) ps"
    unfolding ping_main_typed [OF assms(1-4) slip_init_line] r sent alive_def [symmetric]
    by (intro exI [of _ ctx] exI [of _ rx'] exI [of _ ?ps]) (simp add: list_all_iff ping_request [OF assms(1)])
qed

text \<open>An address that answers the second request, and one that answers none.\<close>

definition some_reply :: bytes where
  "some_reply = [0x45, 0, 0, 0, 0, 0, 0, 0, 0, IP_ICMP, 0, 0, 0, 0, 0, 0, 0, 0, 0, 0, 0, 0, 0, 0, 0, 0, 0, 0]"

lemma some_reply_fields:
  "some_reply \<noteq> []" "length some_reply = 28" "some_reply ! 0 = 0x45" "some_reply ! 9 = IP_ICMP" "some_reply ! 20 = ICMP_TYPE_ECHO_REPLY"
  by (simp_all add: some_reply_def)

theorem ping_reports_witness:
  "ping_main script_line 99 (dotted [192, 0, 2, 1] @ [10, 32]) [7, 7, 7, 7] 0 0 (answer_line [] None [], []) = Inl OutOfFuel \<and>
    (\<exists>ctx rx' ps.
      ping_main script_line 99 (dotted [192, 0, 2, 1] @ [10, 32, 65]) [7, 7, 7, 7] 0 0
          (answer_line (replicate 80 None) (Some some_reply) [], []) =
        Inr (asc ''My IP ADDRESS: '' @ dotted [192, 0, 2, 2] @ [10] @ asc ''IP ADDRESS to ping: '' @ [10] @
          dotted [192, 0, 2, 1] @ asc '' is alive'' @ [10], ctx, (rx', concat (map (slip_frame esc_byte) ps))) \<and>
      length ps = 2) \<and>
    (\<exists>ctx rx' ps.
      ping_main script_line 99 (dotted [192, 0, 2, 1] @ [10, 32, 65]) [7, 7, 7, 7] 0 0 (answer_line [] None [], []) =
        Inr (asc ''My IP ADDRESS: '' @ dotted [192, 0, 2, 2] @ [10] @ asc ''IP ADDRESS to ping: '' @ [10] @
          asc ''No response from '' @ dotted [192, 0, 2, 1] @ [10], ctx, (rx', concat (map (slip_frame esc_byte) ps))) \<and>
      length ps = 5)"
proof (intro conjI)
  note run = ping_reports [of "[192, 0, 2, 1]" "[7, 7, 7, 7]" "[32]" 65 _ _ 99 0 0 "[]" "[]" "[]"]
  show "ping_main script_line 99 (dotted [192, 0, 2, 1] @ [10, 32]) [7, 7, 7, 7] 0 0 (answer_line [] None [], []) = Inl OutOfFuel"
    using run [of "[]" None] by simp
  show "\<exists>ctx rx' ps.
      ping_main script_line 99 (dotted [192, 0, 2, 1] @ [10, 32, 65]) [7, 7, 7, 7] 0 0 (answer_line (replicate 80 None) (Some some_reply) [], []) =
        Inr (asc ''My IP ADDRESS: '' @ dotted [192, 0, 2, 2] @ [10] @ asc ''IP ADDRESS to ping: '' @ [10] @
          dotted [192, 0, 2, 1] @ asc '' is alive'' @ [10], ctx, (rx', concat (map (slip_frame esc_byte) ps))) \<and>
      length ps = 2"
  proof -
    have "Some END \<notin> set (replicate 80 None)" by simp
    moreover have "\<forall>m. Some some_reply = Some m \<longrightarrow> m \<noteq> [] \<and> length m \<le> 112 \<and> length m < 99"
      by (simp add: some_reply_fields)
    moreover have "list_all is_white [32]" "\<not> is_white 65" by simp_all
    ultimately show ?thesis
      using run [of "replicate 80 None" "Some some_reply"]
      by (simp add: numeral_2_eq_2 some_reply_fields del: in_set_replicate) (elim conjE exE, intro exI conjI, assumption+)
  qed
  show "\<exists>ctx rx' ps.
      ping_main script_line 99 (dotted [192, 0, 2, 1] @ [10, 32, 65]) [7, 7, 7, 7] 0 0 (answer_line [] None [], []) =
        Inr (asc ''My IP ADDRESS: '' @ dotted [192, 0, 2, 2] @ [10] @ asc ''IP ADDRESS to ping: '' @ [10] @
          asc ''No response from '' @ dotted [192, 0, 2, 1] @ [10], ctx, (rx', concat (map (slip_frame esc_byte) ps))) \<and>
      length ps = 5"
    using run [of "[]" None] by simp blast
qed

end
