(* ===== verification/Tst.thy ===== *)
theory Tst
  imports Terminal
begin

text \<open>
  The serial port test \<^verbatim>\<open>tst.c\<close>: it opens the port and writes \<^verbatim>\<open>Hello\<close> and the 32 control codes to
  it, past the framing. The result is the exit code, what \<^verbatim>\<open>printf\<close> prints, and the device.
\<close>

fun tst_loop :: "'d platform \<Rightarrow> nat \<Rightarrow> nat \<Rightarrow> 'd \<Rightarrow> 'd" where
  "tst_loop pf 0 i d = d"
| "tst_loop pf (Suc left) i d = tst_loop pf left (i + 1) (rs232_put pf (word_of_nat i) d)"

definition tst_main :: "'d platform \<Rightarrow> int \<Rightarrow> int \<Rightarrow> 'd \<Rightarrow> int \<times> bytes \<times> 'd" where
  "tst_main pf baud parity d =
     (let (ok, d) = rs232_init pf d in
      if \<not> ok then (- 1, [], d)
      else let (ok, d) = rs232_params pf baud parity d in
        if \<not> ok then (- 1, [], d)
        else
          let d = rs232_put pf 72 d; d = rs232_put pf 101 d; d = rs232_put pf 108 d;
              d = rs232_put pf 108 d; d = rs232_put pf 111 d in
          (0, asc ''foo'' @ [10], tst_loop pf 32 0 d))"

lemma tst_loop_puts: "tst_loop pf n i d = puts pf (map word_of_nat [i..<i + n]) d"
proof (induction n arbitrary: i d)
  case (Suc n)
  have "[i..<i + Suc n] = i # [Suc i..<Suc i + n]" by (simp add: upt_rec)
  then show ?case using Suc by (simp add: puts_Cons)
qed simp

text \<open>With a port that opens, exactly these 37 bytes leave; with one that does not, none.\<close>

lemma tst_main_bytes:
  assumes "slip_init pf baud parity d = (rc, d1)"
  shows "tst_main pf baud parity d =
    (if rc = 0 then (0, asc ''foo'' @ [10], puts pf (asc ''Hello'' @ map word_of_nat [0..<32]) d1) else (- 1, [], d1))"
  using assms
  by (auto simp: tst_main_def slip_init_def tst_loop_puts puts_Cons asc_def Let_def split: prod.splits if_splits
      simp del: upt_rec_numeral)

end
