(* ===== verification/Spec2Isabelle.thy ===== *)
theory Spec2Isabelle
  imports Tcp_Stream Tcp_Lossy Tcp_Results Slip_Tun_Session Irc_Pending Chat_Run Ping Tst
begin

text \<open>
  A verification of the TCP/IP stack for the Z80 (ZX Spectrum with an Interface 1) and of the
  programs around it.

  \<^bold>\<open>The program.\<close> A Spectrum has a serial port and nothing else. On it runs a stack of C files:
  \<^verbatim>\<open>slip.c\<close> frames packets on the port, \<^verbatim>\<open>ip.c\<close> puts an IPv4 header in front of a payload and sends it,
  \<^verbatim>\<open>icmp.c\<close> pings, \<^verbatim>\<open>tcp.c\<close> keeps one connection. The stack has one packet buffer, in which it
  receives and sends; it has no task of its own, and works only while an application is inside
  one of its calls. Three applications use it: \<^verbatim>\<open>ping.c\<close>, the chat client \<^verbatim>\<open>tcp_chat.c\<close> and the IRC
  client \<^verbatim>\<open>irc.c\<close>, which share the layout of the screen, a log that scrolls above an input row. On
  the other end of the serial line, on a Linux host, \<^verbatim>\<open>slip-tun.c\<close> carries packets between two fifos
  and a tun device. \<^verbatim>\<open>tst.c\<close> is a test of the port.

  \<^bold>\<open>The theories\<close>, in the order of their imports.
  \<^item> \<^verbatim>\<open>Z80_Prelude\<close>: bytes and words, the result type \<open>'a res\<close> with the errors \<open>OutOfBounds\<close>, \<open>OutOfFuel\<close>
    and \<open>Exited\<close>, its \<open>rbind\<close>, checked access to arrays (\<open>rd\<close>, \<open>wr\<close>, \<open>memcpy\<close>, \<open>memset\<close>), byte order, and
    the predicate \<open>holds_res\<close> (no access out of bounds, and every result satisfies a predicate).
  \<^item> \<^verbatim>\<open>Slip\<close> (\<^verbatim>\<open>slip.c\<close>): the record \<open>platform\<close> stands for \<^verbatim>\<open>rs232.h\<close>; \<open>send_packet\<close> and \<open>recv_packet\<close>.
  \<^item> \<^verbatim>\<open>Ip\<close> (\<^verbatim>\<open>ip.c\<close>): \<open>csum\<close> and \<open>ip_build_and_send\<close> over the record \<open>ip_context\<close>.
  \<^item> \<^verbatim>\<open>Icmp\<close> (\<^verbatim>\<open>icmp.c\<close>): \<open>icmp_echo_request\<close> with its retries.
  \<^item> \<^verbatim>\<open>Tcp\<close>, \<^verbatim>\<open>Tcp_Session\<close>, \<^verbatim>\<open>Tcp_Connect\<close> (\<^verbatim>\<open>tcp.c\<close>): the operations over the record \<open>tcp_context\<close>, what
    happens on an open connection, and the handshake and sending with acknowledgement.
  \<^item> \<^verbatim>\<open>Tcp_Stream\<close>, \<^verbatim>\<open>Tcp_Lossy\<close>, \<^verbatim>\<open>Tcp_Results\<close> (\<^verbatim>\<open>tcp.c\<close>): whole sequences of calls. A receiver that is only a position
    in a stream (\<open>advance\<close>), a peer behind a line that loses packets in both directions (the record
    \<open>lossy\<close>), and the ranges of what the calls return.
  \<^item> \<^verbatim>\<open>Slip_Tun\<close>, \<^verbatim>\<open>Slip_Tun_Session\<close> (\<^verbatim>\<open>slip-tun.c\<close>): the record \<open>host\<close> stands for the operating system, \<open>world\<close>
    adds a trace of what the program did to it; every function, and \<open>bridge_reach\<close>, the states the
    loop of \<^verbatim>\<open>main\<close> can reach.
  \<^item> \<^verbatim>\<open>Console\<close> (\<^verbatim>\<open>test/test_screen.c\<close>): the text console of the machine as the host test of the
    repository emulates it, \<open>displays\<close> (what is on the screen), and the locale \<open>log_screen\<close>.
  \<^item> \<^verbatim>\<open>Terminal\<close>: what \<^verbatim>\<open>tcp_chat.c\<close> and \<^verbatim>\<open>irc.c\<close> have in common; the record \<open>keyboard\<close> stands for the keyboard.
  \<^item> \<^verbatim>\<open>Tcp_Chat\<close>, \<^verbatim>\<open>Chat_Session\<close> (\<^verbatim>\<open>tcp_chat.c\<close>): the chat client, from its questions to its loop.
  \<^item> \<^verbatim>\<open>Irc_Text\<close>, \<^verbatim>\<open>Irc\<close>, \<^verbatim>\<open>Irc_Server\<close>, \<^verbatim>\<open>Irc_Session\<close>, \<^verbatim>\<open>Irc_Talk\<close> (\<^verbatim>\<open>irc.c\<close>): the parsing of strings in place and
    what it means, the client, the specification of its reaction to each message of a server, its
    invariant, and its properties.
  \<^item> \<^verbatim>\<open>Irc_Commands\<close>, \<^verbatim>\<open>Irc_Pending\<close> (\<^verbatim>\<open>irc.c\<close>): the effect of a typed line as a function of strings (\<open>line_effect\<close>), which
    every command of the client refines, and the lines that the client sends of its own accord (\<open>due\<close>).
  \<^item> \<^verbatim>\<open>Line_Editing\<close>, \<^verbatim>\<open>Typing\<close>, \<^verbatim>\<open>Start_Up\<close> (\<^verbatim>\<open>tcp_chat.c\<close>, \<^verbatim>\<open>irc.c\<close>): the specification of line editing (\<open>edited\<close>), which
    the questions and the input lines of both clients implement, and how their sessions start.
  \<^item> \<^verbatim>\<open>Hang_Up\<close> (\<^verbatim>\<open>tcp_chat.c\<close>, \<^verbatim>\<open>irc.c\<close>): the packets that end a session, and how both clients end.
  \<^item> \<^verbatim>\<open>Chat_Machine\<close>, \<^verbatim>\<open>Chat_Run\<close> (\<^verbatim>\<open>tcp_chat.c\<close>): what the chat client promises, as an abstract machine over a log, a line
    and the list of sent segments (\<open>chat_view\<close>, \<open>v_run\<close>), and the simulation by the code: \<open>stands_for\<close> relates a
    state of the program to one of the machine, and every operation of the code keeps it.
  \<^item> \<^verbatim>\<open>Ping\<close> (\<^verbatim>\<open>ping.c\<close>) and \<^verbatim>\<open>Tst\<close> (\<^verbatim>\<open>tst.c\<close>).
  \<^item> This theory: the properties that span the bridge, the stack and an application.

  \<^bold>\<open>How the code is modelled.\<close> The packet buffer is a list of bytes inside the context, and a pointer
  into it is an offset. Every access to an array is checked and gives \<open>OutOfBounds\<close> outside of it, so that
  \<^emph>\<open>memory safe\<close> is a theorem about the definitions. Integers keep their width: sequence numbers are
  32 bits, lengths and ports 16, and \<^verbatim>\<open>int\<close> values that the code compares with zero are integers. The
  serial port, the keyboard and the operating system are arguments, records of functions on a
  state of their own; no theorem assumes anything of them but what it names, such as \<open>reads\<close> (the
  next reads bring these bytes), \<open>quiet_line\<close> (nobody answers) or \<open>takes_bytes\<close> (the fifo is being read).
  The concrete \<open>script_line\<close>, \<open>script_keys\<close> and \<open>script_host\<close> follow a script and serve the witnesses.

  \<^bold>\<open>Loops and fuel.\<close> Loops with a bound are recursion over it and need no fuel. Those that end only
  when the line, the keyboard or the host lets them have a fuel, and without it the value is
  \<open>OutOfFuel\<close>, never a result: the loop of \<open>recv_packet\<close> over the bytes of a frame (more fuel than the
  packet has bytes is enough, \<open>recv_packet_frame\<close>), the label \<^verbatim>\<open>again\<close> of \<open>tcp_recv_timeout\<close>
  and \<open>tcp_send\<close> (the properties give the fuel for the packets they receive), \<open>rx_write\<close> and \<open>tx_drain\<close> (a
  fifo that takes bytes needs no more than the frame is long, \<open>rx_write_takes\<close>), the questions to
  the user and the loops of the applications, which run for as long as the user wishes.
  In \<open>scan_ints\<close>, which is given what has been typed so far, the same value says that \<^verbatim>\<open>scanf\<close> still waits for a key.
  The properties that a call returns are stated as such, for enough fuel.

  \<^bold>\<open>Interfaces.\<close> \<open>byte_stuffing\<close> has the laws of an escaping code and what follows for frames; it is
  interpreted on the code of \<^verbatim>\<open>slip.c\<close>. \<open>checksum\<close> is a checksum that verifies when it is put into its own field,
  interpreted on the Internet checksum. \<open>tcp_service\<close> is what an application may rely on of the stack, on every
  line: the context stays well-formed and the buffer keeps its size; it is interpreted on
  \<open>tcp_send\<close> and \<open>tcp_recv_timeout\<close>, and the invariants of the clients rest on it. \<open>log_screen\<close> is a program that
  shows a log above an input row; it is interpreted on both clients.

  \<^bold>\<open>What is shown.\<close>
  \<^item> Framing: what is sent is received (\<open>slip_roundtrip\<close>), frames are clean and bounded, longer ones
    are truncated, \<open>recv_packet\<close> never leaves its buffer, and the encoder and the decoder of the
    bridge agree with the stack.
  \<^item> Packets: \<open>csum\<close> is the Internet checksum, and IP, ICMP and TCP packets on the line are valid, with
    every byte of their headers stated (\<open>icmp_request_valid\<close>, \<open>tcp_segment_on_wire\<close>); \<^verbatim>\<open>ping\<close> reports an address alive exactly when it
    answers within five tries (\<open>ping_reports\<close>).
  \<^item> TCP: data in order is delivered and acknowledged once, retransmissions and probes are not
    delivered, a reset is reported, the handshake succeeds with a peer that answers, \<open>tcp_send\<close>
    retries six times and gives up; and where the code deviates, with the exact result. Over whole
    sequences of calls: what is received is a prefix of the peer's stream, whatever the peer repeats, as long as it
    skips nothing and the sequence numbers do not wrap (\<open>tcp_stream_received\<close>); what is sent through a lossy line arrives once and in order, and a
    call returns 0 exactly when one of its six transmissions was answered (\<open>tcp_send_exactly_once\<close>,
    \<open>tcp_stream_sent\<close>).
  \<^item> Bridge: the sessions of its clients as an invariant of every reachable state, what it
    forwards in both directions (whole frames while the client reads, \<open>handle_tun_forwards\<close>), and what happens when a frame is dropped half way.
  \<^item> Clients: the invariants and memory safety of the whole programs; what appears on the screen
    for what arrives; what is sent for what is typed, for every command of the IRC client and every
    misuse of it; the reaction to each line of an IRC server refines a specification, however the
    lines are cut into segments; and both clients end when the peer hangs up. What is typed is what is
    read and shown (\<open>read_line_edits\<close>, \<open>clients_edit_input\<close>).
  \<^item> Whole starts: from the keys that answer the questions to the connection with the typed address
    and port, the registration of the IRC client, and the main loop (\<open>chat_starts\<close>, \<open>irc_starts\<close>).
  \<^item> Whole sessions: the chat client, from its questions to its end, refines an abstract machine; what it shows and
    what the bridge sends are the machine's log and segments (\<open>chat_session\<close>; the fuel is 600, more than a frame has
    bytes, and one more for each turn).
  \<^item> End to end: from a typed line to the packet that leaves the bridge, and from a packet on the
    tun device to the row on the screen.

  \<^bold>\<open>Not modelled.\<close> Diagnostic output of \<^verbatim>\<open>slip-tun.c\<close> on its terminal; real time, of which only the number
  of reads until a timeout is left; the settings of the key repeat; the test cases under
  \<^verbatim>\<open>test/\<close>, of which only the emulated console is used; \<^verbatim>\<open>NET.sh\<close>, which configures a network. The value
  of a \<^verbatim>\<open>%d\<close> conversion that does not fit an \<^verbatim>\<open>int\<close> is taken modulo its width.
\<close>

section \<open>From the Spectrum to the network\<close>

text \<open>A packet of the stack is one the bridge accepts, and goes to the address in the context.\<close>

lemma tcp_packet_injected:
  assumes "40 + length pl \<le> MTU"
  shows "injectable (tcp_packet t w pl)" "sent_to (tcp_packet t w pl) = SentTo (le32 (daddr (tcp_ip t))) (tcp_packet t w pl)"
proof -
  have "tcp_packet t w pl ! 0 = 0x45"
    by (simp add: tcp_packet_def ip_header_def ip_head_def Let_def nth_append)
  then show "injectable (tcp_packet t w pl)" using assms by (simp add: injectable_def)
  show "sent_to (tcp_packet t w pl) = SentTo (le32 (daddr (tcp_ip t))) (tcp_packet t w pl)"
    by (simp add: sent_to_def tcp_packet_def ip_header_daddr)
qed

lemma decode_two:
  assumes "length (frame b) = MTU" and "decoder_reset b" and "injectable p" and "injectable q"
  shows "\<exists>b' w'. decode_all h (slip_frame esc_byte p @ slip_frame esc_byte q) b w = Inr (b', w') \<and> decoder_reset b' \<and>
    trace w' = trace w @ [sent_to p, sent_to q]"
proof -
  from decode_stream [OF assms(1,2), of w "[p, q]" h] obtain f y w' where
    "trace w' = trace w @ [sent_to p, sent_to q]"
    "decode_all h (slip_frame esc_byte p @ slip_frame esc_byte q) b w = Inr (b\<lparr>frame := f, in_sync := y\<rparr>, w')"
    using assms(3,4) by auto
  moreover have "decoder_reset (b\<lparr>frame := f, in_sync := y\<rparr>)" using assms(2) by (simp add: decoder_reset_def)
  ultimately show ?thesis by blast
qed

text \<open>
  C9: a line typed in the IRC client leaves the bridge for the server. When ENTER is pressed on a
  line that is not a command, the client writes two frames to the serial port and shows
  \<^verbatim>\<open><nick> text\<close> as the new end of its log; the bridge that reads these bytes sends exactly two
  packets, both to the address of the server: the ACK that closes the window, without
  payload, and one whose payload is \<^verbatim>\<open>PRIVMSG channel :text\<close> with the whole text.
\<close>

theorem typed_line_reaches_server:
  assumes "irc_ok c" and "out_len c = 0" and "typed c \<noteq> []" and "hd (typed c) \<noteq> 47" and "c_val (cur_chan c) \<noteq> []"
    and "1 < tcp_seq (tcp c)" and "bare_segment (tcp c) a" and "length a + 3 < fuel" and "displays con log (input_text (typed c))"
    and "length (frame b) = MTU" and "decoder_reset b"
  shows "\<exists>c' bs out closed sent b' w'. irc_handle_key script_line fuel KEY_ENTER c
      (replicate 6 None @ map Some (slip_frame esc_byte a) @ rx, tx) = Inr (0, c', (rx, tx @ bs)) \<and>
    typed c' = [] \<and> outp c' = outp c @ out \<and>
    displays (con_puts out con) (log @ log_rows (clean (asc ''<'' @ c_val (mynick c) @ asc ''> '' @ typed c))) (input_text []) \<and>
    decode_all h bs b w = Inr (b', w') \<and> decoder_reset b' \<and>
    trace w' = trace w @ [SentTo (le32 (daddr (tcp_ip (tcp c)))) closed, SentTo (le32 (daddr (tcp_ip (tcp c)))) sent] \<and>
    drop 40 closed = [] \<and> drop 40 sent = asc ''PRIVMSG '' @ c_val (cur_chan c) @ asc '' :'' @ typed c @ [13, 10]"
proof -
  define said where "said = asc ''PRIVMSG '' @ c_val (cur_chan c) @ asc '' :'' @ typed c @ [13, 10]"
  let ?closed = "tcp_packet (tcp c) 0 []" and ?sent = "tcp_packet (tcp_sent (tcp c) 0 []) 0 said"
  have "length (c_val (cur_chan c)) < 33" "length (typed c) \<le> 100"
    using assms(1) length_c_val [of "cur_chan c"] by (auto simp: irc_ok_def irc_wf_def typed_def)
  then have len: "40 + length said \<le> MTU" "40 + length ([] :: bytes) \<le> MTU" by (simp_all add: said_def asc_def)
  have daddr: "daddr (tcp_ip (tcp_sent (tcp c) 0 [])) = daddr (tcp_ip (tcp c))" by (simp add: tcp_sent_def)
  have "drop 40 ?closed = []" "drop 40 ?sent = asc ''PRIVMSG '' @ c_val (cur_chan c) @ asc '' :'' @ typed c @ [13, 10]"
    by (simp_all add: said_def)
  moreover from irc_said [OF assms(1-9), where rx = rx and tx = tx] obtain c' out where
    "irc_handle_key script_line fuel KEY_ENTER c (replicate 6 None @ map Some (slip_frame esc_byte a) @ rx, tx) =
       Inr (0, c', (rx, tx @ slip_frame esc_byte ?closed @ slip_frame esc_byte ?sent))"
    "typed c' = []" "outp c' = outp c @ out"
    "displays (con_puts out con) (log @ log_rows (clean (asc ''<'' @ c_val (mynick c) @ asc ''> '' @ typed c))) (input_text [])"
    unfolding said_def [symmetric] by blast
  moreover have "injectable ?closed" "injectable ?sent"
    using tcp_packet_injected(1) [OF len(1)] tcp_packet_injected(1) [OF len(2)] by blast+
  with decode_two [OF assms(10,11), of ?closed ?sent h w] obtain b' w' where
    "decode_all h (slip_frame esc_byte ?closed @ slip_frame esc_byte ?sent) b w = Inr (b', w')" "decoder_reset b'"
    "trace w' = trace w @ [SentTo (le32 (daddr (tcp_ip (tcp c)))) ?closed, SentTo (le32 (daddr (tcp_ip (tcp c)))) ?sent]"
    unfolding tcp_packet_injected(2) [OF len(1)] tcp_packet_injected(2) [OF len(2)] daddr by blast
  ultimately show ?thesis by blast
qed

theorem typed_line_reaches_server_witness:
  "\<exists>c' bs out closed sent b' w'. irc_handle_key script_line 60 KEY_ENTER (demo_irc (asc ''hi''))
      (replicate 6 None @ map Some (slip_frame esc_byte (demo_seg 100 29 TCP_ACK [])) @ [], []) = Inr (0, c', ([], [] @ bs)) \<and>
    typed c' = [] \<and> outp c' = outp (demo_irc (asc ''hi'')) @ out \<and>
    displays (con_puts out (con_puts (input_output (input_text (asc ''hi''))) fresh_console)) ([] @ log_rows (clean (asc ''<'' @
      c_val (mynick (demo_irc (asc ''hi''))) @ asc ''> '' @ typed (demo_irc (asc ''hi''))))) (input_text []) \<and>
    decode_all script_host bs demo_bridge (demo_world []) = Inr (b', w') \<and> decoder_reset b' \<and>
    trace w' = trace (demo_world []) @ [SentTo (le32 (daddr (tcp_ip (tcp (demo_irc (asc ''hi'')))))) closed,
      SentTo (le32 (daddr (tcp_ip (tcp (demo_irc (asc ''hi'')))))) sent] \<and>
    drop 40 closed = [] \<and> drop 40 sent = asc ''PRIVMSG '' @ c_val (cur_chan (demo_irc (asc ''hi''))) @ asc '' :'' @
      typed (demo_irc (asc ''hi'')) @ [13, 10]"
proof (rule typed_line_reaches_server [OF demo_irc_ok])
  show "c_val (cur_chan (demo_irc (asc ''hi''))) \<noteq> []" by (simp add: demo_irc_def asc_def)
qed (simp_all add: asc_def bare_segment_def fresh_displays)

section \<open>A whole session\<close>

text \<open>The bridge sends the packets that the client has written, each to its peer.\<close>

lemma wire_sent:
  assumes "wire u bs ss" and "length (frame b) = MTU" and "decoder_reset b"
  shows "\<exists>ps b' w'. decode_all h bs b w = Inr (b', w') \<and> trace w' = trace w @ map (SentTo (le32 (daddr (tcp_ip u)))) ps \<and>
    list_all2 (carries u) ps ss"
proof -
  from assms(1) obtain ps where ps: "bs = concat (map (slip_frame esc_byte) ps)" "list_all2 (carries u) ps ss" by (auto simp: wire_def)
  have "carries u p s \<Longrightarrow> injectable p \<and> sent_to p = SentTo (le32 (daddr (tcp_ip u))) p" for p s
    by (cases s) (auto simp: carries_def injectable_def sent_to_def)
  with ps(2) have "injectable p \<and> sent_to p = SentTo (le32 (daddr (tcp_ip u))) p" if "p \<in> set ps" for p
    using that unfolding list_all2_conv_all_nth in_set_conv_nth by blast
  then have "map sent_to (filter injectable ps) = map (SentTo (le32 (daddr (tcp_ip u)))) ps" by simp
  with decode_stream [OF assms(2,3), of w ps h] ps show ?thesis by metis
qed

text \<open>
  C2: whole sessions of the chat client implement the abstract machine of \<^verbatim>\<open>Chat_Machine\<close>. The user answers
  the questions, mistyped and corrected keys included, by an address and a port; the peer there
  accepts the connection; then any turns follow, of keys of the user, data segments of the peer, old or new, one or none in each
  poll, also in those between ENTER and the line being sent, and an answer without data to a sent
  line or none; and the session ends by the key that quits or by a packet of the peer. The program
  terminates normally, having taken exactly these keys and bytes. On the screen, before the last
  newline, is the log of the machine, with the line being typed on the last row; and the bridge that has read what the program has
  written has sent the segments of the machine, from the SYN to the last, in this order, to the
  typed address, with these numbers, windows and data.
\<close>

theorem chat_session:
  assumes "keys_answer script_keys kip (in_GetKeyReset script_keys keys) ks1" and "keys_answer script_keys kport ks1 (run_keys ts e @ ks)"
    and "edited 81 kip = dotted ip" and "length ip = 4" and "edited 81 kport = dec port" and "0 < port" and "port < 2 ^ 16"
    and "length line = 82" and "length kip + 1 < fuel" and "length kport + 1 < fuel" and "600 + length ts < fuel"
    and "syn_ack (dialled ip port) m" and "run_ok (dialled ip port) ts (v_connected m)"
    and "end_ok (dialled ip port) e (fold v_turn ts (v_connected m))"
    and "length (frame b) = MTU" and "decoder_reset b"
  shows "\<exists>c tx ps b' w'. chat_main script_line script_keys fuel line baud parity keys
      (map Some (slip_frame esc_byte m) @ run_rx ts (v_connected m) @ end_rx e @ rx, []) =
      Inr (0, putcs (at INPUT_ROW 0 @ [10]) c, ks, (rx, tx)) \<and>
    displays (con_puts (outp c) fresh_console) (v_log (v_run ts e (v_connected m))) (input_text (v_line (v_run ts e (v_connected m)))) \<and>
    decode_all h tx b w = Inr (b', w') \<and> trace w' = trace w @ map (SentTo ip) ps \<and>
    list_all2 (carries (dialled ip port)) ps (v_sent (v_run ts e (v_connected m)))"
proof -
  from chat_main_runs [OF assms(1-14), of baud parity rx] obtain c tx where
    c: "chat_main script_line script_keys fuel line baud parity keys (map Some (slip_frame esc_byte m) @ run_rx ts (v_connected m) @ end_rx e @ rx, []) =
      Inr (0, putcs (at INPUT_ROW 0 @ [10]) c, ks, (rx, tx))"
      "displays (con_puts (outp c) fresh_console) (v_log (v_run ts e (v_connected m))) (input_text (v_line (v_run ts e (v_connected m))))"
    and tx: "wire (dialled ip port) tx (v_sent (v_run ts e (v_connected m)))" by blast
  have "le32 (daddr (tcp_ip (dialled ip port))) = ip"
    using le32_of_le32 [OF assms(4)] by (simp add: dialled_def set_daddr_bytes_def)
  with wire_sent [OF tx assms(15,16), of h w] c show ?thesis by auto
qed

theorem chat_session_witness:
  "\<exists>c tx ps b' w'. chat_main script_line script_keys 700 (replicate 82 7) 0 0
        (demo_ip_keys @ 13 # demo_port_keys @ 13 # run_keys demo_turns demo_end @ [])
      (map Some (slip_frame esc_byte (demo_seg 99 2 0x12 [])) @ run_rx demo_turns (v_connected (demo_seg 99 2 0x12 [])) @ end_rx demo_end @ [], []) =
      Inr (0, putcs (at INPUT_ROW 0 @ [10]) c, [], ([], tx)) \<and>
    displays (con_puts (outp c) fresh_console) (v_log (v_run demo_turns demo_end (v_connected (demo_seg 99 2 0x12 []))))
      (input_text (v_line (v_run demo_turns demo_end (v_connected (demo_seg 99 2 0x12 []))))) \<and>
    decode_all script_host tx demo_bridge (demo_world []) = Inr (b', w') \<and> trace w' = trace (demo_world []) @ map (SentTo [192, 0, 2, 1]) ps \<and>
    list_all2 (carries (dialled [192, 0, 2, 1] 80)) ps (v_sent (v_run demo_turns demo_end (v_connected (demo_seg 99 2 0x12 []))))"
  by (rule chat_session [OF demo_run_answers demo_keys_answer(2) demo_edited(1) _ demo_edited(2)])
    (simp_all add: demo_ip_keys_def demo_port_keys_def dialled_demo syn_ack_def demo_run_ok demo_end_ok, simp_all add: demo_turns_def)

section \<open>From the network to the Spectrum\<close>

text \<open>
  C8: a message of the peer goes from the tun device to the screen of the chat client. When the
  bridge reads a data segment of the session from the tun device and the fifo takes bytes, in
  pieces of any size, its turn ends with the whole frame written; and a client that reads
  these bytes from its serial port, after at most one read without data, acknowledges the
  segment with one packet and shows its lines, wrapped to whole rows, as the new end of the
  log.
\<close>

theorem message_reaches_screen:
  assumes "sys_read h (tun_fd b) MTU w = (Ret m, w1)" and "take 4 (drop 16 m) = remote" and "attached b"
    and "takes_bytes h (rx_fd b)" and "2 * length m + 2 \<le> bfuel"
    and "chat_ok c" and "pending c = []" and "\<not> logline_emitted c" and "window_open c"
    and "1 < tcp_seq (tcp c)" and "packet_for (tcp c) m" and "seg_flags m AND TCP_RST = 0" and "data_segment m"
    and "seg_seq m = tcp_ack (tcp c)" and "length m + 2 < fuel" and "0 \<le> EAGAIN pf"
    and "drop (20 + unat (seg_ths m)) m = concat (map (\<lambda>l. l @ [10]) ls)" and "\<forall>l \<in> set ls. 10 \<notin> set l"
    and "displays con log (input_text (typed c))" and "Some END \<notin> set noise" and "length noise < 2"
  shows "\<exists>w' ws. handle_tun h bfuel remote b w = Inr (b, w') \<and> trace w' = trace w @ ws \<and> writes_only (rx_fd b) ws \<and>
    (\<forall>d d1. reads pf (noise @ map Some (written ws)) d d1 \<longrightarrow>
      (\<exists>c' a out. poll_net pf fuel c d = Inr (0, c', puts pf (slip_frame esc_byte a) d1) \<and>
        seg_ack a = tcp_ack (tcp c) + word_of_nat (length m - 20 - unat (seg_ths m)) \<and>
        typed c' = typed c \<and> outp c' = outp c @ out \<and>
        displays (con_puts out con) (log @ concat (map (\<lambda>l. log_rows (clean l)) ls)) (input_text (typed c))))"
proof -
  have "forwardable remote m" using assms(2,11) by (simp add: forwardable_def packet_for_def)
  from handle_tun_delivers [OF assms(1) this assms(3-5)] obtain w' ws where
    ws: "handle_tun h bfuel remote b w = Inr (b, w')" "trace w' = trace w @ ws" "writes_only (rx_fd b) ws"
      "written ws = slip_frame esc_byte m" by blast
  have "\<exists>c' a out. poll_net pf fuel c d = Inr (0, c', puts pf (slip_frame esc_byte a) d1) \<and>
        seg_ack a = tcp_ack (tcp c) + word_of_nat (length m - 20 - unat (seg_ths m)) \<and>
        typed c' = typed c \<and> outp c' = outp c @ out \<and>
        displays (con_puts out con) (log @ concat (map (\<lambda>l. log_rows (clean l)) ls)) (input_text (typed c))"
    if "reads pf (noise @ map Some (written ws)) d d1" for d d1
  proof -
    have "arrives pf POLL_TICKS m d d1"
      using that assms(20,21) unfolding arrives_def ws(4) by (intro exI [of _ noise]) simp
    from chat_message_shown [OF assms(6-14) this assms(15-19)] show ?thesis by force
  qed
  with ws(1-3) show ?thesis by blast
qed

theorem message_reaches_screen_witness:
  "\<exists>w' ws. handle_tun script_host 200 REMOTE_ADDR demo_bridge (demo_world [Ret (demo_seg 100 7 TCP_ACK [104, 105, 10])]) =
      Inr (demo_bridge, w') \<and>
    trace w' = trace (demo_world [Ret (demo_seg 100 7 TCP_ACK [104, 105, 10])]) @ ws \<and> writes_only (rx_fd demo_bridge) ws \<and>
    (\<forall>d d1. reads script_line ([None] @ map Some (written ws)) d d1 \<longrightarrow>
      (\<exists>c' a out. poll_net script_line 60 (demo_chat [111]) d = Inr (0, c', puts script_line (slip_frame esc_byte a) d1) \<and>
        seg_ack a = tcp_ack (tcp (demo_chat [111])) + word_of_nat (length (demo_seg 100 7 TCP_ACK [104, 105, 10]) - 20 -
          unat (seg_ths (demo_seg 100 7 TCP_ACK [104, 105, 10]))) \<and>
        typed c' = typed (demo_chat [111]) \<and> outp c' = outp (demo_chat [111]) @ out \<and>
        displays (con_puts out (con_puts (input_output (input_text [111])) fresh_console))
          ([] @ concat (map (\<lambda>l. log_rows (clean l)) [[104, 105]])) (input_text (typed (demo_chat [111])))))"
proof (rule message_reaches_screen)
  show "sys_read script_host (tun_fd demo_bridge) MTU (demo_world [Ret (demo_seg 100 7 TCP_ACK [104, 105, 10])]) =
      (Ret (demo_seg 100 7 TCP_ACK [104, 105, 10]), demo_world [])"
    by (simp add: sys_read_def script_host_def demo_world_def)
  show "take 4 (drop 16 (demo_seg 100 7 TCP_ACK [104, 105, 10])) = REMOTE_ADDR" by (simp add: demo_seg_def)
  show "takes_bytes script_host (rx_fd demo_bridge)" by (auto simp: takes_bytes_def script_host_def)
  show "chat_ok (demo_chat [111])" by (rule demo_chat_ok) simp_all
  show "displays (con_puts (input_output (input_text [111])) fresh_console) [] (input_text (typed (demo_chat [111])))"
    by (simp add: fresh_displays)
qed (simp_all add: data_segment_def demo_bridge_def)

text \<open>
  C39: a frame that the bridge drops is not lost without a trace. When the fifo takes the first part
  of a frame and then stays full, the bridge drops the rest of the frame but leaves this part
  in the fifo, without an END. A client that then reads the next frame gets the beginning of
  the dropped packet as a packet, and the END that opens the next frame has been used up as
  the end of this one.
\<close>

theorem dropped_frame_corrupts_next:
  assumes "sys_read h (tun_fd b) MTU w = (Ret (q @ r), w1)" and "forwardable remote (q @ r)" and "attached b"
    and "h_write h (rx_fd b) (slip_frame esc_byte (q @ r)) (sys w1) = (Ret (1 + length (concat (map esc_byte q))), s1)"
    and "h_write h (rx_fd b) (concat (map esc_byte r) @ [END]) s1 = (Err EAGAIN_errno, s2)"
    and "h_poll h [(rx_fd b, POLLOUT)] 500 s2 = (Ret (0, revents), s3)" and "1 < bfuel"
    and "q \<noteq> []" and "length q \<le> L" and "L \<le> length buf" and "length q < fuel" and "1 < unat to"
  shows "\<exists>w' part. handle_tun h bfuel remote b w = Inr (b, w') \<and> trace w' = trace w @ [Wrote (rx_fd b) part] \<and>
    (\<forall>d d1. reads pf (map Some (part @ slip_frame esc_byte next)) d d1 \<longrightarrow>
      (\<exists>d2. recv_packet pf fuel buf (int L) to d = Inr (int (length q), q @ drop (length q) buf, d2) \<and>
        reads pf (map Some (concat (map esc_byte next) @ [END])) d2 d1))"
proof -
  let ?k = "1 + length (concat (map esc_byte q))"
  define part where "part = END # concat (map esc_byte q)"
  have fr: "slip_frame esc_byte (q @ r) = part @ concat (map esc_byte r) @ [END]" by (simp add: slip_frame_def part_def)
  have k: "length part = ?k" by (simp add: part_def)
  have "?k < length (slip_frame esc_byte (q @ r))" "drop ?k (slip_frame esc_byte (q @ r)) = concat (map esc_byte r) @ [END]"
    "take ?k (slip_frame esc_byte (q @ r)) = part"
    unfolding fr k [symmetric] by simp_all
  with handle_tun_dropped [OF assms(1-4) _ _ _ assms(6,7)] assms(5) obtain w' where
    w': "handle_tun h bfuel remote b w = Inr (b, w')" "trace w' = trace w @ [Wrote (rx_fd b) part]" by auto
  have "\<exists>d2. recv_packet pf fuel buf (int L) to d = Inr (int (length q), q @ drop (length q) buf, d2) \<and>
        reads pf (map Some (concat (map esc_byte next) @ [END])) d2 d1"
    if rd: "reads pf (map Some (part @ slip_frame esc_byte next)) d d1" for d d1
  proof -
    have "part @ slip_frame esc_byte next = slip_frame esc_byte q @ concat (map esc_byte next) @ [END]"
      by (simp add: part_def slip_frame_def)
    with rd obtain d2 where d2: "reads pf ([] @ map Some (slip_frame esc_byte q)) d d2"
      "reads pf (map Some (concat (map esc_byte next) @ [END])) d2 d1"
      by (auto simp: reads_append)
    have "0 < unat (to - 1)" using assms(12) by (auto simp: unat_gt_0)
    then show ?thesis
      using recv_packet_frame [OF d2(1), of to L buf fuel] assms(8-11) d2(2) by (cases q) (auto simp: min_def)
  qed
  with w' show ?thesis by blast
qed

text \<open>A host whose fifo takes two bytes of a frame and is full then.\<close>

definition full_host :: "bytes syscall list host" where
  "full_host = script_host\<lparr>h_write := \<lambda>_ bs s. if hd bs = END then (Ret 2, s) else (Err EAGAIN_errno, s),
     h_poll := \<lambda>_ _ s. (Ret (0, \<lambda>_. 0), s)\<rparr>"

theorem dropped_frame_corrupts_next_witness:
  "\<exists>w' part. handle_tun full_host 2 REMOTE_ADDR demo_bridge (demo_world [Ret tun_packet]) = Inr (demo_bridge, w') \<and>
    trace w' = trace (demo_world [Ret tun_packet]) @ [Wrote (rx_fd demo_bridge) part] \<and>
    (\<forall>d d1. reads script_line (map Some (part @ slip_frame esc_byte [5])) d d1 \<longrightarrow>
      (\<exists>d2. recv_packet script_line 9 [0, 0] (int 2) 3 d = Inr (int (length [0x45 :: u8]), [0x45] @ drop (length [0x45 :: u8]) [0, 0], d2) \<and>
        reads script_line (map Some (concat (map esc_byte [5]) @ [END])) d2 d1))"
proof (rule dropped_frame_corrupts_next [where r = "0 # replicate 14 0 @ [192, 0, 2, 2]"])
  show "sys_read full_host (tun_fd demo_bridge) MTU (demo_world [Ret tun_packet]) =
      (Ret ([0x45] @ 0 # replicate 14 0 @ [192, 0, 2, 2]), demo_world [])"
    by (simp add: sys_read_def full_host_def script_host_def demo_world_def tun_packet_def numeral_eq_Suc)
qed (simp_all add: full_host_def demo_bridge_def forwardable_def slip_frame_def esc_byte_def)

end
